(* ===== verification/Prelude.thy ===== *)
theory Prelude
  imports Main "HOL-Library.Word" "HOL-Library.List_Lexorder" "HOL-Library.Sublist"
begin

text \<open>
  Shared vocabulary of the development: bytes and byte strings, the outcome of a Rust call
  (returned value, returned error, panic, or a thread parked on a lock), the combinators that the
  question mark operator, \<open>unwrap\<close>, \<open>expect\<close>, \<open>map\<close>, \<open>map_err\<close> and \<open>or_else\<close> stand for, decimal
  formatting, and the generic list lemmas the components share.
\<close>

named_theorems btree_simps \<open>equations of ordered maps\<close>
named_theorems btree_inv \<open>preservation of the ordered map invariant\<close>
named_theorems suite_rules \<open>symbolic execution of client programs against the backend contract\<close>

section \<open>Bytes\<close>

type_synonym byte = "8 word"
type_synonym data = "byte list"
type_synonym usize = nat

abbreviation usize_max :: usize where
  "usize_max \<equiv> 2 ^ 64 - 1"

definition bytes :: "string \<Rightarrow> data" where
  "bytes s = map of_char s"

section \<open>Outcomes of Rust calls\<close>

text \<open>
  \<open>Ok\<close> and \<open>Err\<close> are the two variants of a \<open>Result\<close>; \<open>Panic\<close> is an unwinding or aborting panic;
  \<open>Blocked\<close> says that the call parks the thread on a lock that somebody else holds.
\<close>

datatype ('a, 'e) outcome = Ok 'a | Err 'e | Panic string | Blocked

fun o_bind :: "('a, 'e) outcome \<Rightarrow> ('a \<Rightarrow> ('b, 'e) outcome) \<Rightarrow> ('b, 'e) outcome" where
  "o_bind (Ok x) f = f x"
| "o_bind (Err e) f = Err e"
| "o_bind (Panic m) f = Panic m"
| "o_bind Blocked f = Blocked"

fun o_map :: "('a \<Rightarrow> 'b) \<Rightarrow> ('a, 'e) outcome \<Rightarrow> ('b, 'e) outcome" where
  "o_map f (Ok x) = Ok (f x)"
| "o_map f (Err e) = Err e"
| "o_map f (Panic m) = Panic m"
| "o_map f Blocked = Blocked"

fun o_map_err :: "('e \<Rightarrow> 'f) \<Rightarrow> ('a, 'e) outcome \<Rightarrow> ('a, 'f) outcome" where
  "o_map_err f (Ok x) = Ok x"
| "o_map_err f (Err e) = Err (f e)"
| "o_map_err f (Panic m) = Panic m"
| "o_map_err f Blocked = Blocked"

fun o_or_else :: "('a, 'e) outcome \<Rightarrow> ('e \<Rightarrow> ('a, 'f) outcome) \<Rightarrow> ('a, 'f) outcome" where
  "o_or_else (Ok x) f = Ok x"
| "o_or_else (Err e) f = f e"
| "o_or_else (Panic m) f = Panic m"
| "o_or_else Blocked f = Blocked"

fun o_expect :: "string \<Rightarrow> ('a, 'e) outcome \<Rightarrow> ('a, 'f) outcome" where
  "o_expect m (Ok x) = Ok x"
| "o_expect m (Err e) = Panic m"
| "o_expect m (Panic m') = Panic m'"
| "o_expect m Blocked = Blocked"

definition o_unwrap :: "('a, 'e) outcome \<Rightarrow> ('a, 'f) outcome" where
  "o_unwrap r = o_expect ''called Result::unwrap() on an Err value'' r"

fun opt_unwrap :: "'a option \<Rightarrow> ('a, 'f) outcome" where
  "opt_unwrap (Some x) = Ok x"
| "opt_unwrap None = Panic ''called Option::unwrap() on a None value''"

fun is_panic :: "('a, 'e) outcome \<Rightarrow> bool" where
  "is_panic (Panic m) = True"
| "is_panic _ = False"

lemma o_unwrap_Ok [simp]: "o_unwrap (Ok x) = Ok x"
  by (simp add: o_unwrap_def)

lemma o_bind_eq_Ok:
  "o_bind r f = Ok y \<longleftrightarrow> (\<exists>x. r = Ok x \<and> f x = Ok y)"
  by (cases r) auto

lemma o_map_eq_Ok:
  "o_map f r = Ok y \<longleftrightarrow> (\<exists>x. r = Ok x \<and> y = f x)"
  by (cases r) auto

text \<open>Collecting an iterator of results stops at the first one that is not \<open>Ok\<close>.\<close>

fun o_collect :: "('a, 'e) outcome list \<Rightarrow> ('a list, 'e) outcome" where
  "o_collect [] = Ok []"
| "o_collect (r # rs) = o_bind r (\<lambda>x. o_bind (o_collect rs) (\<lambda>xs. Ok (x # xs)))"

lemma o_collect_map_Ok [simp]: "o_collect (map (\<lambda>x. Ok (f x)) xs) = Ok (map f xs)"
  by (induction xs) auto

lemma o_collect_Ok_iff:
  "o_collect rs = Ok xs \<longleftrightarrow> rs = map Ok xs"
  by (induction rs arbitrary: xs) (auto simp: o_bind_eq_Ok)

section \<open>Comparisons\<close>

text \<open>\<open>std::cmp::Ordering\<close>, and \<open>Ord::cmp\<close> of a type that is ordered as the library orders it.\<close>

datatype ordering = Less | Equal | Greater

definition ord_cmp :: "'a :: linorder \<Rightarrow> 'a \<Rightarrow> ordering" where
  "ord_cmp x y = (if x < y then Less else if x = y then Equal else Greater)"

lemma ord_cmp_simps [simp]:
  "ord_cmp x y = Less \<longleftrightarrow> x < y" "ord_cmp x y = Equal \<longleftrightarrow> x = y" "ord_cmp x y = Greater \<longleftrightarrow> y < x"
  by (auto simp: ord_cmp_def)

section \<open>Decimal formatting\<close>

fun dec_digits :: "nat \<Rightarrow> string" where
  "dec_digits n =
     (if n < 10 then [char_of (48 + n)] else dec_digits (n div 10) @ [char_of (48 + n mod 10)])"

declare dec_digits.simps [simp del]

text \<open>Lower case hexadecimal digits of a fixed number of places, as \<open>{:08x}\<close> prints them.\<close>

definition hex_digit :: "nat \<Rightarrow> char" where
  "hex_digit n = ''0123456789abcdef'' ! n"

fun hex_places :: "nat \<Rightarrow> nat \<Rightarrow> string" where
  "hex_places 0 n = []"
| "hex_places (Suc w) n = hex_places w (n div 16) @ [hex_digit (n mod 16)]"

lemma length_hex_places [simp]: "length (hex_places w n) = w"
  by (induction w arbitrary: n) simp_all

lemma hex_digit_inj: "m < 16 \<Longrightarrow> n < 16 \<Longrightarrow> hex_digit m = hex_digit n \<longleftrightarrow> m = n"
  unfolding hex_digit_def by (subst nth_eq_iff_index_eq) simp_all

lemma hex_places_inj: "m < 16 ^ w \<Longrightarrow> n < 16 ^ w \<Longrightarrow> hex_places w m = hex_places w n \<longleftrightarrow> m = n"
proof (induction w arbitrary: m n)
  case (Suc w)
  have "m div 16 < 16 ^ w" "n div 16 < 16 ^ w" using Suc.prems by (simp_all add: div_less_iff_less_mult mult.commute)
  with Suc.IH have "hex_places (Suc w) m = hex_places (Suc w) n \<longleftrightarrow> m div 16 = n div 16 \<and> m mod 16 = n mod 16"
    by (simp add: hex_digit_inj)
  then show ?case by (metis div_mult_mod_eq)
qed simp

definition pad_left :: "nat \<Rightarrow> char \<Rightarrow> string \<Rightarrow> string" where
  "pad_left w c s = replicate (w - length s) c @ s"

definition dec_value :: "string \<Rightarrow> nat" where
  "dec_value s = foldl (\<lambda>a c. 10 * a + (of_char c - 48)) 0 s"

lemma dec_value_snoc [simp]: "dec_value (s @ [c]) = 10 * dec_value s + (of_char c - 48)"
  by (simp add: dec_value_def)

lemma of_char_digit [simp]: "d < 10 \<Longrightarrow> (of_char (char_of (48 + d :: nat)) :: nat) = 48 + d"
  by simp

lemma dec_value_digits: "dec_value (dec_digits n) = n"
proof (induction n rule: dec_digits.induct)
  case (1 n)
  show ?case
  proof (cases "n < 10")
    case True
    then show ?thesis
      by (subst dec_digits.simps) (simp add: dec_value_def)
  next
    case False
    with 1 have IH: "dec_value (dec_digits (n div 10)) = n div 10" by simp
    have "(of_char (char_of (48 + n mod 10) :: char) :: nat) = 48 + n mod 10"
      by (rule of_char_digit) simp
    with False IH show ?thesis by (subst dec_digits.simps) simp
  qed
qed

lemma dec_value_zeros: "dec_value (replicate k CHR ''0'' @ s) = dec_value s"
  by (induction k) (simp_all add: dec_value_def)

lemma dec_value_pad [simp]: "dec_value (pad_left w CHR ''0'' (dec_digits n)) = n"
  by (simp add: pad_left_def dec_value_zeros dec_value_digits)

section \<open>Lists\<close>

lemma nth_eq_update_self: "i < length xs \<Longrightarrow> xs[i := xs ! i] = xs"
  by simp

lemma map_upd_nth:
  assumes "distinct xs" and "i < length xs"
  shows "map (f(xs ! i := y)) xs = (map f xs)[i := y]"
proof (rule nth_equalityI)
  fix j assume "j < length (map (f(xs ! i := y)) xs)"
  with assms show "map (f(xs ! i := y)) xs ! j = (map f xs)[i := y] ! j"
    by (cases "i = j") (simp_all add: nth_eq_iff_index_eq)
qed simp

lemma takeWhile_eq_filter_closed:
  assumes "sorted_wrt R xs"
    and "\<And>x y. x \<in> set xs \<Longrightarrow> y \<in> set xs \<Longrightarrow> R x y \<Longrightarrow> P y \<Longrightarrow> P x"
  shows "takeWhile P xs = filter P xs"
  using assms
proof (induction xs)
  case Nil
  then show ?case by simp
next
  case (Cons x xs)
  then have "takeWhile P xs = filter P xs" by auto
  moreover have "filter P xs = []" if "\<not> P x"
    using that Cons.prems by (auto simp: filter_empty_conv)
  ultimately show ?case by simp
qed

lemma sorted_wrt_dropWhile_general: "sorted_wrt R xs \<Longrightarrow> sorted_wrt R (dropWhile Q xs)"
  by (induction xs) auto

lemma dropWhile_all_not:
  assumes "sorted_wrt R xs" and "\<And>x y. R x y \<Longrightarrow> Q y \<Longrightarrow> Q x" and "x \<in> set (dropWhile Q xs)"
  shows "\<not> Q x"
  using assms(1,3)
proof (induction xs)
  case (Cons y ys)
  then show ?case using assms(2) by (auto split: if_splits)
qed simp

text \<open>
  A scan that skips a downward closed part of a sorted list and then stops at the first element
  that fails \<open>P\<close> misses nothing, when \<open>P\<close> is closed downwards among what is left.
\<close>

lemma takeWhile_dropWhile_filter:
  assumes sorted: "sorted_wrt R xs"
    and Q: "\<And>x y. R x y \<Longrightarrow> Q y \<Longrightarrow> Q x"
    and P: "\<And>x y. R x y \<Longrightarrow> P y \<Longrightarrow> \<not> Q x \<Longrightarrow> P x"
    and PQ: "\<And>x. P x \<Longrightarrow> \<not> Q x"
  shows "takeWhile P (dropWhile Q xs) = filter P xs"
proof -
  have sorted': "sorted_wrt R (dropWhile Q xs)" using sorted by (rule sorted_wrt_dropWhile_general)
  have "\<not> Q x" if "x \<in> set (dropWhile Q xs)" for x
    using sorted Q that by (rule dropWhile_all_not)
  then have "takeWhile P (dropWhile Q xs) = filter P (dropWhile Q xs)"
    by (intro takeWhile_eq_filter_closed [OF sorted']) (blast intro: P)
  moreover have "filter P (takeWhile Q xs) = []"
    using PQ by (auto simp: filter_empty_conv dest: set_takeWhileD)
  moreover have "filter P xs = filter P (takeWhile Q xs @ dropWhile Q xs)" by simp
  ultimately show ?thesis unfolding filter_append by simp
qed

end
