(* ===== verification/BTree.thy ===== *)
theory BTree
  imports Prelude
begin

text \<open>
  The ordered map \<open>std::collections::BTreeMap\<close> as far as the code uses it: a strictly sorted
  association list with insertion, removal, lookup, ascending iteration, the range that starts
  at a key, and collection from an iterator. The list is a canonical form: two maps with the same
  lookups are the same list, so equality of maps is equality of lists, as for the Rust type.
  The locale \<open>kv_map\<close> is the interface the clients of a map rely on.
\<close>

section \<open>Operations\<close>

type_synonym ('k, 'v) btree = "('k \<times> 'v) list"

definition bt_empty :: "('k, 'v) btree" where
  "bt_empty = []"

definition bt_get :: "('k, 'v) btree \<Rightarrow> 'k \<Rightarrow> 'v option" where
  "bt_get m k = map_of m k"

fun bt_insert :: "'k::linorder \<Rightarrow> 'v \<Rightarrow> ('k, 'v) btree \<Rightarrow> ('k, 'v) btree" where
  "bt_insert k v [] = [(k, v)]"
| "bt_insert k v ((k', v') # m) =
     (if k < k' then (k, v) # (k', v') # m
      else if k = k' then (k, v) # m
      else (k', v') # bt_insert k v m)"

fun bt_remove :: "'k::linorder \<Rightarrow> ('k, 'v) btree \<Rightarrow> ('k, 'v) btree" where
  "bt_remove k [] = []"
| "bt_remove k ((k', v') # m) = (if k = k' then m else (k', v') # bt_remove k m)"

text \<open>\<open>map.range(k..)\<close>: the entries from the first key that is not below \<open>k\<close>.\<close>

definition bt_range_from :: "('k::linorder, 'v) btree \<Rightarrow> 'k \<Rightarrow> ('k, 'v) btree" where
  "bt_range_from m k = dropWhile (\<lambda>e. fst e < k) m"

text \<open>\<open>iter.collect()\<close> into a map: later entries overwrite earlier ones.\<close>

definition bt_collect :: "('k::linorder \<times> 'v) list \<Rightarrow> ('k, 'v) btree" where
  "bt_collect xs = foldl (\<lambda>m (k, v). bt_insert k v m) bt_empty xs"

definition bt_inv :: "('k::linorder, 'v) btree \<Rightarrow> bool" where
  "bt_inv m = sorted_wrt (<) (map fst m)"

section \<open>Lookup and invariant\<close>

lemma bt_inv_Nil [simp]: "bt_inv []"
  by (simp add: bt_inv_def)

lemma bt_inv_Cons: "bt_inv ((k, v) # m) \<longleftrightarrow> (\<forall>e \<in> set m. k < fst e) \<and> bt_inv m"
  by (auto simp: bt_inv_def)

lemma bt_inv_distinct: "bt_inv m \<Longrightarrow> distinct (map fst m)"
  by (simp add: bt_inv_def strict_sorted_iff)

lemma bt_inv_sorted_wrt: "bt_inv m \<longleftrightarrow> sorted_wrt (\<lambda>x y. fst x < fst y) m"
  by (simp add: bt_inv_def sorted_wrt_map)

lemma bt_get_empty [simp, btree_simps]: "bt_get bt_empty k = None"
  by (simp add: bt_get_def bt_empty_def)

lemma bt_inv_empty [simp, btree_inv]: "bt_inv bt_empty"
  by (simp add: bt_empty_def)

lemma bt_get_Nil [simp]: "bt_get [] k = None"
  by (simp add: bt_get_def)

lemma bt_get_Cons: "bt_get ((k', v') # m) k = (if k = k' then Some v' else bt_get m k)"
  by (simp add: bt_get_def)

lemma bt_get_Cons_upd: "bt_get ((k, v) # m) = (bt_get m)(k \<mapsto> v)"
  by (auto simp: bt_get_Cons fun_eq_iff)

lemma bt_get_not_key: "\<forall>e \<in> set m. k < fst e \<Longrightarrow> bt_get m (k :: 'k::order) = None"
  by (induction m) (auto simp: bt_get_Cons)

lemma bt_get_below: "bt_inv ((k', v') # m) \<Longrightarrow> k \<le> k' \<Longrightarrow> bt_get m k = None"
  by (induction m) (auto simp: bt_inv_Cons bt_get_Cons)

lemma set_bt_insert: "e \<in> set (bt_insert k v m) \<Longrightarrow> e = (k, v) \<or> e \<in> set m"
  by (induction m) (auto split: if_splits)

lemma set_bt_remove: "e \<in> set (bt_remove k m) \<Longrightarrow> e \<in> set m"
  by (induction m) (auto split: if_splits)

lemma bt_inv_insert [simp, btree_inv]: "bt_inv m \<Longrightarrow> bt_inv (bt_insert k v m)"
proof (induction m)
  case (Cons e m)
  then show ?case
    by (cases e) (fastforce simp: bt_inv_Cons dest: set_bt_insert)
qed (simp add: bt_inv_def)

lemma bt_inv_remove [simp, btree_inv]: "bt_inv m \<Longrightarrow> bt_inv (bt_remove k m)"
proof (induction m)
  case (Cons e m)
  then show ?case
    by (cases e) (auto simp: bt_inv_Cons dest: set_bt_remove)
qed simp

lemma bt_inv_filter [simp, btree_inv]: "bt_inv m \<Longrightarrow> bt_inv (filter P m)"
  by (simp add: bt_inv_sorted_wrt sorted_wrt_filter)

lemma bt_get_insert [btree_simps]:
  "bt_inv m \<Longrightarrow> bt_get (bt_insert k v m) = (bt_get m)(k \<mapsto> v)"
proof (induction m)
  case (Cons e m)
  then show ?case
    by (cases e) (auto simp: bt_inv_Cons bt_get_Cons fun_eq_iff)
qed (auto simp: bt_get_Cons fun_eq_iff)

lemma bt_get_remove [btree_simps]:
  "bt_inv m \<Longrightarrow> bt_get (bt_remove k m) = (bt_get m)(k := None)"
proof (induction m)
  case (Cons e m)
  obtain k' v' where e: "e = (k', v')" by (cases e)
  with Cons.prems have "bt_get m k' = None" by (metis bt_get_below order_refl)
  with Cons e show ?case
    by (auto simp: bt_inv_Cons bt_get_Cons fun_eq_iff)
qed (auto simp: fun_eq_iff)

lemma bt_remove_absent: "bt_get m k = None \<Longrightarrow> bt_remove k m = m"
  by (induction k m rule: bt_remove.induct) (auto simp: bt_get_Cons split: if_splits)

lemma bt_get_in_set: "bt_inv m \<Longrightarrow> bt_get m k = Some v \<longleftrightarrow> (k, v) \<in> set m"
  by (simp add: bt_get_def map_of_eq_Some_iff bt_inv_distinct)

lemma bt_get_filter_key:
  "bt_get (filter (\<lambda>(k, v). P k) m) k = (if P k then bt_get m k else None)"
  by (induction m) (auto simp: bt_get_Cons)

text \<open>The sorted list is a canonical form.\<close>

lemma bt_ext:
  assumes "bt_inv m" and "bt_inv m'" and "bt_get m = bt_get m'"
  shows "m = m'"
proof -
  have eq: "set m = set m'"
    using assms by (auto simp flip: bt_get_in_set)
  have "inj_on fst (set m)" "sorted (map fst m)" "sorted (map fst m')"
    and "distinct (map fst m)" "distinct (map fst m')"
    using assms(1,2) by (auto simp: bt_inv_def strict_sorted_iff distinct_map)
  with eq show ?thesis
    by (intro map_sorted_distinct_set_unique [where f = fst]) simp_all
qed

section \<open>Collecting\<close>

lemma bt_collect_aux:
  "bt_inv m \<Longrightarrow> bt_inv (foldl (\<lambda>m (k, v). bt_insert k v m) m xs) \<and>
     bt_get (foldl (\<lambda>m (k, v). bt_insert k v m) m xs) = bt_get m ++ map_of (rev xs)"
  by (induction xs arbitrary: m) (auto simp: btree_simps split: prod.splits)

lemma bt_inv_collect [simp, btree_inv]: "bt_inv (bt_collect xs)"
  using bt_collect_aux [of bt_empty xs] by (simp add: bt_collect_def)

lemma bt_get_collect [btree_simps]: "bt_get (bt_collect xs) = map_of (rev xs)"
proof -
  have "bt_get (bt_collect xs) = bt_get bt_empty ++ map_of (rev xs)"
    using bt_collect_aux [OF bt_inv_empty, of xs] by (simp add: bt_collect_def)
  also have "\<dots> = map_of (rev xs)"
    by (rule ext) (simp add: map_add_def split: option.splits)
  finally show ?thesis .
qed

lemma bt_collect_sorted [simp]: "bt_inv m \<Longrightarrow> bt_collect m = m"
proof (rule bt_ext)
  assume "bt_inv m"
  then have "distinct (map fst m)" by (rule bt_inv_distinct)
  then have "map_of (rev m) = map_of m"
    by (intro map_of_inject_set [THEN iffD2]) (simp_all add: rev_map [symmetric])
  then show "bt_get (bt_collect m) = bt_get m"
    by (simp add: bt_get_collect bt_get_def fun_eq_iff)
qed simp_all

lemma map_of_rev_btree: "bt_inv d \<Longrightarrow> map_of (rev d) = bt_get d"
  by (metis bt_collect_sorted bt_get_collect)

section \<open>The map interface\<close>

text \<open>
  What a client may assume of a map: lookups after every update, and an invariant every update
  keeps. A list of writes, \<open>None\<close> standing for a deletion, is applied from the left.
\<close>

definition apply_writes ::
    "('k \<Rightarrow> 'v \<Rightarrow> 'm \<Rightarrow> 'm) \<Rightarrow> ('k \<Rightarrow> 'm \<Rightarrow> 'm) \<Rightarrow> ('k \<times> 'v option) list \<Rightarrow> 'm \<Rightarrow> 'm" where
  "apply_writes ins del ws m =
     foldl (\<lambda>m (k, w). case w of None \<Rightarrow> del k m | Some v \<Rightarrow> ins k v m) m ws"

definition overlay :: "('k \<rightharpoonup> 'v option) \<Rightarrow> ('k \<rightharpoonup> 'v) \<Rightarrow> ('k \<rightharpoonup> 'v)" where
  "overlay d f = (\<lambda>k. case d k of None \<Rightarrow> f k | Some w \<Rightarrow> w)"

lemma overlay_empty [simp]: "overlay Map.empty f = f"
  by (simp add: overlay_def)

lemma overlay_None: "d k = None \<Longrightarrow> overlay d f k = f k"
  by (simp add: overlay_def)

lemma overlay_Some: "d k = Some w \<Longrightarrow> overlay d f k = w"
  by (simp add: overlay_def)

lemma overlay_upd: "overlay (d(k \<mapsto> w)) f = (overlay d f)(k := w)"
  by (simp add: overlay_def fun_eq_iff)

lemma overlay_upd_base: "d k = None \<Longrightarrow> overlay d (f(k := x)) = (overlay d f)(k := x)"
  by (auto simp: overlay_def fun_eq_iff split: option.splits)

lemma overlay_upd_both: "overlay (d(k \<mapsto> w)) (f(k := x)) = (overlay d f)(k := w)"
  by (auto simp: overlay_def fun_eq_iff split: option.splits)

lemma apply_writes_Nil [simp]: "apply_writes ins del [] m = m"
  by (simp add: apply_writes_def)

lemma apply_writes_Cons [simp]:
  "apply_writes ins del ((k, w) # ws) m =
     apply_writes ins del ws (case w of None \<Rightarrow> del k m | Some v \<Rightarrow> ins k v m)"
  by (simp add: apply_writes_def)

lemma apply_writes_append:
  "apply_writes ins del (ws @ ws') m = apply_writes ins del ws' (apply_writes ins del ws m)"
  by (simp add: apply_writes_def)

locale kv_map =
  fixes empty :: "'m"
    and ins :: "'k \<Rightarrow> 'v \<Rightarrow> 'm \<Rightarrow> 'm"
    and del :: "'k \<Rightarrow> 'm \<Rightarrow> 'm"
    and get :: "'m \<Rightarrow> 'k \<Rightarrow> 'v option"
    and inv :: "'m \<Rightarrow> bool"
  assumes get_empty: "get empty = Map.empty"
    and get_ins: "inv m \<Longrightarrow> get (ins k v m) = (get m)(k \<mapsto> v)"
    and get_del: "inv m \<Longrightarrow> get (del k m) = (get m)(k := None)"
    and inv_empty: "inv empty"
    and inv_ins: "inv m \<Longrightarrow> inv (ins k v m)"
    and inv_del: "inv m \<Longrightarrow> inv (del k m)"
begin

lemma inv_apply_writes: "inv m \<Longrightarrow> inv (apply_writes ins del ws m)"
  by (induction ws arbitrary: m) (auto simp: inv_ins inv_del split: option.splits)

lemma get_apply_writes:
  "inv m \<Longrightarrow> get (apply_writes ins del ws m) = overlay (map_of (rev ws)) (get m)"
proof (induction ws arbitrary: m)
  case Nil
  then show ?case by simp
next
  case (Cons e ws)
  obtain k w where e: "e = (k, w)" by (cases e)
  let ?m = "case w of None \<Rightarrow> del k m | Some v \<Rightarrow> ins k v m"
  have "inv ?m" and "get ?m = (get m)(k := w)"
    using Cons.prems by (auto simp: inv_ins inv_del get_ins get_del split: option.splits)
  with Cons.IH [of ?m] show ?case
    by (simp add: e overlay_def fun_eq_iff map_add_def split: option.splits)
qed

end

locale canonical_kv_map = kv_map +
  assumes ext: "inv m \<Longrightarrow> inv m' \<Longrightarrow> get m = get m' \<Longrightarrow> m = m'"
begin

text \<open>Only the last write to a key counts.\<close>

lemma apply_writes_cong:
  assumes "inv m" and "map_of (rev ws) = map_of (rev ws')"
  shows "apply_writes ins del ws m = apply_writes ins del ws' m"
  using assms by (intro ext) (simp_all add: inv_apply_writes get_apply_writes)

end

interpretation bt: canonical_kv_map bt_empty bt_insert bt_remove bt_get bt_inv
  by unfold_locales (auto simp: btree_simps fun_eq_iff intro: bt_ext)

end
