(* ===== verification/Core_Error.thy ===== *)
theory Core_Error
  imports Prelude
begin

text \<open>
  The storage errors of \<open>storage/core/src/error.rs\<close>: the recoverable and fatal variants with their
  displayed messages, the query whether an error is recoverable and the accessor that panics on a
  fatal one. \<open>'a res\<close> is the \<open>storage_core::Result\<close> of every storage operation.
\<close>

text \<open>
  \<open>std::io::ErrorKind\<close>: the kinds the code tells apart, and one constructor for all others.
\<close>

datatype io_error_kind =
  IoBrokenPipe | IoAlreadyExists | IoPermissionDenied | IoNotFound | IoOtherKind nat

datatype recoverable =
  TransactionFailed
| TemporarilyUnavailable
| DbInit
| RecoverableIo io_error_kind string

datatype fatal =
  OutOfSpace
| DatabaseCorrupted
| InternalError string
| SchemaMismatch
| FatalIo io_error_kind string

datatype storage_error = Recoverable recoverable | Fatal fatal

type_synonym 'a res = "('a, storage_error) outcome"

fun display_recoverable :: "recoverable \<Rightarrow> string" where
  "display_recoverable TransactionFailed = ''Transaction failed''"
| "display_recoverable TemporarilyUnavailable =
     ''The database has temporarily exhausted some resource''"
| "display_recoverable DbInit = ''The database file failed to initialize''"
| "display_recoverable (RecoverableIo k m) = ''I/O error: '' @ m"

fun display_fatal :: "fatal \<Rightarrow> string" where
  "display_fatal OutOfSpace = ''Out of storage space''"
| "display_fatal DatabaseCorrupted = ''Database has been corrupted''"
| "display_fatal (InternalError m) = ''Database internal error: '' @ m"
| "display_fatal SchemaMismatch = ''Database schema does not match database settings or contents''"
| "display_fatal (FatalIo k m) = ''Fatal I/O error: '' @ m"

fun display_error :: "storage_error \<Rightarrow> string" where
  "display_error (Recoverable e) = display_recoverable e"
| "display_error (Fatal e) = display_fatal e"

fun error_recoverable :: "storage_error \<Rightarrow> recoverable res" where
  "error_recoverable (Recoverable e) = Ok e"
| "error_recoverable (Fatal e) = Panic (''Fatal database error: '' @ display_fatal e)"

fun is_recoverable :: "storage_error \<Rightarrow> bool" where
  "is_recoverable (Recoverable _) = True"
| "is_recoverable (Fatal _) = False"

text \<open>
  Both backends classify I/O errors alike (\<open>process_io_error\<close> of \<open>storage/lmdb/src/error.rs\<close> and of
  \<open>storage/sqlite/src/error.rs\<close>); they share this table of the recoverable kinds.
\<close>

fun io_kind_recoverable :: "io_error_kind \<Rightarrow> bool" where
  "io_kind_recoverable IoBrokenPipe = True"
| "io_kind_recoverable IoAlreadyExists = True"
| "io_kind_recoverable IoPermissionDenied = True"
| "io_kind_recoverable IoNotFound = True"
| "io_kind_recoverable (IoOtherKind _) = False"

lemma error_recoverable_iff: "(\<exists>e'. error_recoverable e = Ok e') \<longleftrightarrow> is_recoverable e"
  by (cases e) auto

end
