(* ===== verification/Core_Types.thy ===== *)
theory Core_Types
  imports BTree Core_Error "HOL-Library.Char_ord"
begin

text \<open>
  The database description types of \<open>storage/core/src/types.rs\<close>: map identifiers and counts, the
  vector of per-map data that is indexed by identifier (an index out of range panics), the
  description of one map and of the whole database with its check that map names are unique.
  A \<open>usize\<close> is a natural number here: the code only compares, counts and indexes with it.
\<close>

datatype db_map_id = DbMapId (as_usize: usize)

datatype db_map_count = DbMapCount (count_as_usize: usize)

datatype 'a db_maps_data = DbMapsData (maps_vec: "'a list")

text \<open>\<open>DbMapId\<close> and \<open>DbMapCount\<close> derive their order from the number; the first is the library's \<open>linorder\<close>.\<close>

definition db_map_id_cmp :: "db_map_id \<Rightarrow> db_map_id \<Rightarrow> ordering" where
  "db_map_id_cmp self other = ord_cmp (as_usize self) (as_usize other)"

definition db_map_count_cmp :: "db_map_count \<Rightarrow> db_map_count \<Rightarrow> ordering" where
  "db_map_count_cmp self other = ord_cmp (count_as_usize self) (count_as_usize other)"

instantiation db_map_id :: linorder
begin

definition less_eq_db_map_id :: "db_map_id \<Rightarrow> db_map_id \<Rightarrow> bool" where
  "less_eq_db_map_id a b \<longleftrightarrow> db_map_id_cmp a b \<noteq> Greater"

definition less_db_map_id :: "db_map_id \<Rightarrow> db_map_id \<Rightarrow> bool" where
  "less_db_map_id a b \<longleftrightarrow> db_map_id_cmp a b = Less"

instance
  by standard (auto simp: less_eq_db_map_id_def less_db_map_id_def db_map_id_cmp_def db_map_id.expand)

end

lemma less_DbMapId [simp]: "DbMapId i < DbMapId j \<longleftrightarrow> i < j"
  by (simp add: less_db_map_id_def db_map_id_cmp_def)

section \<open>Counts, identifiers and per-map data\<close>

definition count_indices :: "db_map_count \<Rightarrow> db_map_id list" where
  "count_indices c = map DbMapId [0..<count_as_usize c]"

definition maps_new :: "db_map_count \<Rightarrow> (db_map_id \<Rightarrow> 'a) \<Rightarrow> 'a db_maps_data" where
  "maps_new c f = DbMapsData (map f (count_indices c))"

definition maps_map_count :: "'a db_maps_data \<Rightarrow> db_map_count" where
  "maps_map_count d = DbMapCount (length (maps_vec d))"

definition maps_transform :: "'a db_maps_data \<Rightarrow> ('a \<Rightarrow> 'b) \<Rightarrow> 'b db_maps_data" where
  "maps_transform d f = DbMapsData (map f (maps_vec d))"

text \<open>
  The fallible variant runs its effectful function on the maps in order and stops at the first
  result that is not \<open>Ok\<close>; the effects of the calls made so far stay.
\<close>

fun try_map_vec :: "('a \<Rightarrow> 's \<Rightarrow> ('b, 'e) outcome \<times> 's) \<Rightarrow> 'a list \<Rightarrow> 's \<Rightarrow> ('b list, 'e) outcome \<times> 's" where
  "try_map_vec f [] s = (Ok [], s)"
| "try_map_vec f (x # xs) s =
     (case f x s of
        (Ok y, s') \<Rightarrow> (case try_map_vec f xs s' of (r, s'') \<Rightarrow> (o_map (\<lambda>ys. y # ys) r, s''))
      | (Err e, s') \<Rightarrow> (Err e, s')
      | (Panic m, s') \<Rightarrow> (Panic m, s')
      | (Blocked, s') \<Rightarrow> (Blocked, s'))"

definition maps_try_transform ::
    "'a db_maps_data \<Rightarrow> ('a \<Rightarrow> 's \<Rightarrow> ('b, 'e) outcome \<times> 's) \<Rightarrow> 's \<Rightarrow> ('b db_maps_data, 'e) outcome \<times> 's" where
  "maps_try_transform d f s =
     (case try_map_vec f (maps_vec d) s of (r, s') \<Rightarrow> (o_map DbMapsData r, s'))"

definition into_iter_with_id :: "'a db_maps_data \<Rightarrow> (db_map_id \<times> 'a) list" where
  "into_iter_with_id d = map (\<lambda>(i, m). (DbMapId i, m)) (enumerate 0 (maps_vec d))"

definition maps_index :: "'a db_maps_data \<Rightarrow> db_map_id \<Rightarrow> ('a, 'e) outcome" where
  "maps_index d i =
     (if as_usize i < length (maps_vec d) then Ok (maps_vec d ! as_usize i)
      else Panic ''index out of bounds'')"

text \<open>\<open>index_mut\<close> gives a place; writing through it updates that one entry.\<close>

definition maps_index_mut :: "'a db_maps_data \<Rightarrow> db_map_id \<Rightarrow> ('a \<Rightarrow> 'a) \<Rightarrow> ('a db_maps_data, 'e) outcome" where
  "maps_index_mut d i f =
     (if as_usize i < length (maps_vec d)
      then Ok (DbMapsData ((maps_vec d)[as_usize i := f (maps_vec d ! as_usize i)]))
      else Panic ''index out of bounds'')"

lemma maps_index_DbMapId [simp]:
  "i < length xs \<Longrightarrow> maps_index (DbMapsData xs) (DbMapId i) = Ok (xs ! i)"
  by (simp add: maps_index_def)

lemma maps_index_mut_DbMapId [simp]:
  "i < length xs \<Longrightarrow> maps_index_mut (DbMapsData xs) (DbMapId i) f = Ok (DbMapsData (xs[i := f (xs ! i)]))"
  by (simp add: maps_index_mut_def)

lemma maps_index_eq_Ok:
  "maps_index d i = Ok x \<longleftrightarrow> as_usize i < length (maps_vec d) \<and> x = maps_vec d ! as_usize i"
  by (auto simp: maps_index_def)

lemma maps_index_new [simp]:
  "maps_index (maps_new c f) i =
     (if as_usize i < count_as_usize c then Ok (f i) else Panic ''index out of bounds'')"
  by (auto simp: maps_new_def maps_index_def count_indices_def)

lemma maps_index_transform: "maps_index (maps_transform d f) i = o_map f (maps_index d i)"
  by (auto simp: maps_transform_def maps_index_def)

lemma length_maps_new [simp]: "length (maps_vec (maps_new c f)) = count_as_usize c"
  by (simp add: maps_new_def count_indices_def)

lemma set_into_iter_with_id:
  "(i, m) \<in> set (into_iter_with_id d) \<longleftrightarrow> maps_index d i = (Ok m :: ('a, unit) outcome)"
proof (cases i)
  case (DbMapId n)
  have "(DbMapId n, m) \<in> set (into_iter_with_id d) \<longleftrightarrow> (n, m) \<in> set (enumerate 0 (maps_vec d))"
    by (force simp: into_iter_with_id_def)
  then show ?thesis by (auto simp: DbMapId in_set_enumerate_eq maps_index_eq_Ok)
qed

lemma try_map_vec_Ok_length:
  "try_map_vec f xs s = (Ok ys, s') \<Longrightarrow> length ys = length xs"
  by (induction xs arbitrary: s ys) (auto simp: o_map_eq_Ok split: prod.splits outcome.splits)

section \<open>Database description\<close>

record db_map_desc =
  desc_name :: string
  value_size_hint :: "usize \<times> usize"

definition new_with_details :: "string \<Rightarrow> usize \<times> usize \<Rightarrow> db_map_desc" where
  "new_with_details n hint = \<lparr>desc_name = n, value_size_hint = hint\<rparr>"

definition db_map_desc_new :: "string \<Rightarrow> db_map_desc" where
  "db_map_desc_new n = new_with_details n (0, usize_max)"

record db_desc =
  map_descs :: "db_map_desc db_maps_data"

definition db_maps :: "db_desc \<Rightarrow> db_map_desc db_maps_data" where
  "db_maps d = map_descs d"

definition desc_map_count :: "db_desc \<Rightarrow> db_map_count" where
  "desc_map_count d = maps_map_count (map_descs d)"

text \<open>The names are collected into an ordered set, whose size is compared with the map count.\<close>

definition assert_names_unique :: "db_map_desc db_maps_data \<Rightarrow> (unit, 'e) outcome" where
  "assert_names_unique maps =
     (let names = bt_collect (map (\<lambda>d. (desc_name d, ())) (maps_vec maps))
      in if length names = count_as_usize (maps_map_count maps) then Ok ()
         else Panic ''Duplicate map names found'')"

definition construct_db_desc :: "db_map_desc list \<Rightarrow> (db_desc, 'e) outcome" where
  "construct_db_desc ds =
     (let maps = DbMapsData ds
      in o_bind (assert_names_unique maps) (\<lambda>_. Ok \<lparr>map_descs = maps\<rparr>))"

lemma length_bt_collect: "length (bt_collect xs) = card (fst ` set xs)"
proof -
  have "dom (bt_get (bt_collect xs)) = fst ` set xs"
    by (simp add: bt_get_collect dom_map_of_conv_image_fst)
  then have "fst ` set (bt_collect xs) = fst ` set xs"
    by (simp add: bt_get_def [abs_def] dom_map_of_conv_image_fst)
  moreover have "length (map fst (bt_collect xs)) = card (set (map fst (bt_collect xs)))"
    using distinct_card [OF bt_inv_distinct [OF bt_inv_collect [of xs]]] by simp
  ultimately show ?thesis by simp
qed

lemma assert_names_unique_iff:
  "assert_names_unique (DbMapsData ds) =
     (if distinct (map desc_name ds) then Ok () else Panic ''Duplicate map names found'')"
proof -
  have "length (bt_collect (map (\<lambda>d. (desc_name d, ())) ds)) = card (set (map desc_name ds))"
    by (simp add: length_bt_collect image_image)
  moreover have "card (set (map desc_name ds)) = length ds \<longleftrightarrow> distinct (map desc_name ds)"
    using card_distinct [of "map desc_name ds"] distinct_card [of "map desc_name ds"]
    by (metis length_map)
  ultimately show ?thesis
    unfolding assert_names_unique_def maps_map_count_def Let_def by simp
qed

lemma construct_db_desc_distinct [simp]:
  "distinct (map desc_name ds) \<Longrightarrow> construct_db_desc ds = Ok \<lparr>map_descs = DbMapsData ds\<rparr>"
  by (simp add: construct_db_desc_def assert_names_unique_iff)

end
