(* ===== verification/Core_Util.thy ===== *)
theory Core_Util
  imports BTree
begin

text \<open>
  The prefix iterator of \<open>storage/core/src/util.rs\<close> over an ordered map with byte string keys: a
  range scan from the prefix that reports the end at the first key that does not start with it.
\<close>

text \<open>\<open>slice::starts_with\<close>.\<close>

definition starts_with :: "'a list \<Rightarrow> 'a list \<Rightarrow> bool" where
  "starts_with k p = (take (length p) k = p)"

record 'v prefix_iter =
  pi_inner :: "(data \<times> 'v) list"
  pi_prefix :: data

definition prefix_iter_new :: "(data, 'v) btree \<Rightarrow> data \<Rightarrow> 'v prefix_iter" where
  "prefix_iter_new m p = \<lparr>pi_inner = bt_range_from m p, pi_prefix = p\<rparr>"

definition prefix_iter_next :: "'v prefix_iter \<Rightarrow> (data \<times> 'v) option \<times> 'v prefix_iter" where
  "prefix_iter_next it =
     (case pi_inner it of
        [] \<Rightarrow> (None, it)
      | (k, v) # rest \<Rightarrow>
          (if starts_with k (pi_prefix it) then Some (k, v) else None, it\<lparr>pi_inner := rest\<rparr>))"

text \<open>What a consumer sees: the items up to the first \<open>None\<close>.\<close>

function prefix_iter_collect :: "'v prefix_iter \<Rightarrow> (data \<times> 'v) list" where
  "prefix_iter_collect it =
     (case prefix_iter_next it of
        (None, _) \<Rightarrow> []
      | (Some x, it') \<Rightarrow> x # prefix_iter_collect it')"
  by pat_completeness auto
termination
  by (relation "measure (\<lambda>it. length (pi_inner it))")
    (auto simp: prefix_iter_next_def split: list.splits prod.splits if_splits)

declare prefix_iter_collect.simps [simp del]

text \<open>The entries of a map whose key starts with \<open>p\<close>: what the scan has to deliver.\<close>

definition bt_prefix :: "data \<Rightarrow> (data, 'v) btree \<Rightarrow> (data, 'v) btree" where
  "bt_prefix p m = filter (\<lambda>(k, v). starts_with k p) m"

section \<open>Prefixes and the lexicographic order\<close>

lemma starts_with_Nil [simp]: "starts_with k []"
  by (simp add: starts_with_def)

lemma starts_with_Cons [simp]: "starts_with k (x # p) \<longleftrightarrow> (\<exists>k'. k = x # k' \<and> starts_with k' p)"
  by (cases k) (auto simp: starts_with_def)

lemma starts_with_append [simp]: "starts_with (p @ s) p"
  by (simp add: starts_with_def)

lemma starts_with_iff: "starts_with k p \<longleftrightarrow> (\<exists>s. k = p @ s)"
  by (metis append_take_drop_id starts_with_append starts_with_def)

lemma starts_with_le: "starts_with (k :: 'a::linorder list) p \<Longrightarrow> p \<le> k"
proof (induction p arbitrary: k)
  case (Cons x p)
  then obtain k' where "k = x # k'" "starts_with k' p" by auto
  with Cons.IH [of k'] show ?case by simp
qed simp

text \<open>Between a prefix and a key that starts with it there are only keys that start with it.\<close>

lemma starts_with_convex:
  fixes a b p :: "'a::linorder list"
  shows "p \<le> a \<Longrightarrow> a \<le> b \<Longrightarrow> starts_with b p \<Longrightarrow> starts_with a p"
proof (induction p arbitrary: a b)
  case (Cons x p)
  then obtain b' where b: "b = x # b'" "starts_with b' p" by auto
  with Cons.prems obtain a' where a: "a = x # a'" "p \<le> a'" "a' \<le> b'"
    by (cases a) auto
  with Cons.IH [of a' b'] b show ?case by simp
qed simp

section \<open>The scan delivers exactly the entries with the prefix\<close>

lemma prefix_iter_collect_takeWhile:
  "prefix_iter_collect it = takeWhile (\<lambda>e. starts_with (fst e) (pi_prefix it)) (pi_inner it)"
proof (induction "pi_inner it" arbitrary: it)
  case Nil
  then show ?case
    by (subst prefix_iter_collect.simps) (simp add: prefix_iter_next_def Nil [symmetric])
next
  case (Cons e rest)
  obtain k v where e: "e = (k, v)" by (cases e)
  have "prefix_iter_collect (it\<lparr>pi_inner := rest\<rparr>) = takeWhile (\<lambda>e. starts_with (fst e) (pi_prefix it)) rest"
    using Cons.hyps(1) [of "it\<lparr>pi_inner := rest\<rparr>"] by simp
  then show ?case
    by (subst prefix_iter_collect.simps) (simp add: prefix_iter_next_def Cons.hyps(2) [symmetric] e)
qed

lemma prefix_scan_eq_filter:
  assumes "bt_inv m"
  shows "takeWhile (\<lambda>e. starts_with (fst e) p) (bt_range_from m p) = bt_prefix p m"
proof -
  have "takeWhile (\<lambda>e. starts_with (fst e) p) (dropWhile (\<lambda>e. fst e < p) m) =
      filter (\<lambda>e. starts_with (fst e) p) m"
  proof (rule takeWhile_dropWhile_filter)
    show "sorted_wrt (\<lambda>x y. fst x < fst y) m" using assms by (simp add: bt_inv_sorted_wrt)
    show "starts_with (fst x) p"
      if "fst x < fst y" "starts_with (fst y) p" "\<not> fst x < p" for x y :: "data \<times> 'v"
      using that starts_with_convex [of p "fst x" "fst y"] by auto
    show "\<not> fst x < p" if "starts_with (fst x) p" for x :: "data \<times> 'v"
      using starts_with_le [OF that] by simp
  qed auto
  then show ?thesis by (simp add: bt_range_from_def bt_prefix_def case_prod_beta')
qed

lemma prefix_iter_collect_new:
  "bt_inv m \<Longrightarrow> prefix_iter_collect (prefix_iter_new m p) = bt_prefix p m"
  by (simp add: prefix_iter_collect_takeWhile prefix_iter_new_def prefix_scan_eq_filter)

lemma bt_inv_prefix [simp, btree_inv]: "bt_inv m \<Longrightarrow> bt_inv (bt_prefix p m)"
  by (simp add: bt_prefix_def)

lemma bt_get_prefix [btree_simps]:
  "bt_get (bt_prefix p m) k = (if starts_with k p then bt_get m k else None)"
  by (simp add: bt_prefix_def bt_get_filter_key)

lemma bt_prefix_Nil [simp]: "bt_prefix [] m = m"
  by (simp add: bt_prefix_def)

text \<open>
  The iterator is not fused by construction (after an entry outside the prefix it goes on with the
  next one), but over a sorted map it never resumes: once \<open>None\<close> was returned, it stays \<open>None\<close>.
\<close>

definition prefix_iter_ok :: "'v prefix_iter \<Rightarrow> bool" where
  "prefix_iter_ok it \<longleftrightarrow> bt_inv (pi_inner it) \<and> (\<forall>e \<in> set (pi_inner it). pi_prefix it \<le> fst e)"

lemma prefix_iter_ok_new: "bt_inv m \<Longrightarrow> prefix_iter_ok (prefix_iter_new m p)"
proof -
  assume m: "bt_inv m"
  then have s: "sorted_wrt (\<lambda>x y. fst x < fst y) m" by (simp add: bt_inv_sorted_wrt)
  have "\<not> fst e < p" if "e \<in> set (dropWhile (\<lambda>e. fst e < p) m)" for e
    using dropWhile_all_not [OF s _ that] by force
  moreover have "sorted_wrt (\<lambda>x y. fst x < fst y) (dropWhile (\<lambda>e. fst e < p) m)"
    using s by (rule sorted_wrt_dropWhile_general)
  ultimately show ?thesis
    by (auto simp: prefix_iter_ok_def prefix_iter_new_def bt_range_from_def bt_inv_sorted_wrt not_less)
qed

lemma prefix_iter_ok_next: "prefix_iter_ok it \<Longrightarrow> prefix_iter_ok (snd (prefix_iter_next it))"
  by (auto simp: prefix_iter_ok_def prefix_iter_next_def bt_inv_Cons split: list.splits prod.splits)

lemma prefix_iter_fused_lemma:
  assumes "prefix_iter_ok it" and "fst (prefix_iter_next it) = None"
  shows "fst (prefix_iter_next (snd (prefix_iter_next it))) = None"
proof (cases "pi_inner it")
  case Nil
  then show ?thesis using assms by (simp add: prefix_iter_next_def)
next
  case (Cons e rest)
  with assms have "\<not> starts_with (fst e) (pi_prefix it)" "pi_prefix it \<le> fst e"
    by (auto simp: prefix_iter_next_def prefix_iter_ok_def split: if_splits prod.splits)
  moreover have "fst e < fst e'" if "e' \<in> set rest" for e'
    using assms(1) Cons that by (cases e) (auto simp: prefix_iter_ok_def bt_inv_Cons)
  ultimately have "\<forall>e' \<in> set rest. \<not> starts_with (fst e') (pi_prefix it)"
    using starts_with_convex [of "pi_prefix it" "fst e"] by fastforce
  with Cons show ?thesis
    by (cases e; cases rest) (auto simp: prefix_iter_next_def)
qed

end
