(* ===== verification/Backend.thy ===== *)
theory Backend
  imports Core_Types Core_Util
begin

text \<open>
  The storage backend traits of \<open>storage/core/src/backend.rs\<close> and \<open>storage/core/src/adaptor/mod.rs\<close>.
  A trait is a record of operations, so a Rust function that is generic in a backend becomes a
  definition with such a record as an argument. What the traits promise is stated as locales:
  \<open>core_store\<close> for bare key-value stores without transactions, \<open>backend_contract\<close> for backends with
  transactions. An iterator is the list of the items it delivers.
\<close>

section \<open>Traits as records of operations\<close>

text \<open>
  \<open>CoreOps\<close>: the read and write operations on a bare store and its construction. A write returns the
  store as it is afterwards, whether or not the write succeeded.
\<close>

record ('t, 'f) core_ops =
  co_get :: "'t \<Rightarrow> db_map_id \<Rightarrow> data \<Rightarrow> data option res"
  co_prefix_iter :: "'t \<Rightarrow> db_map_id \<Rightarrow> data \<Rightarrow> (data \<times> data) list res"
  co_put :: "'t \<Rightarrow> db_map_id \<Rightarrow> data \<Rightarrow> data \<Rightarrow> unit res \<times> 't"
  co_del :: "'t \<Rightarrow> db_map_id \<Rightarrow> data \<Rightarrow> unit res \<times> 't"
  co_construct :: "'f \<Rightarrow> db_desc \<Rightarrow> 't res"

text \<open>
  \<open>BackendImpl\<close> with its transaction types: \<open>'s\<close> is the state all handles and transactions share,
  \<open>'ro\<close> and \<open>'rw\<close> are the values a read-only and a read-write transaction own. Dropping a transaction
  is an operation of its own, because it releases what the transaction holds.
\<close>

record ('s, 'ro, 'rw) backend_impl =
  transaction_ro :: "'s \<Rightarrow> 'ro res \<times> 's"
  transaction_rw :: "'s \<Rightarrow> usize option \<Rightarrow> 'rw res \<times> 's"
  ro_get :: "'ro \<Rightarrow> 's \<Rightarrow> db_map_id \<Rightarrow> data \<Rightarrow> data option res"
  ro_prefix_iter :: "'ro \<Rightarrow> 's \<Rightarrow> db_map_id \<Rightarrow> data \<Rightarrow> (data \<times> data) list res"
  ro_drop :: "'ro \<Rightarrow> 's \<Rightarrow> 's"
  rw_get :: "'rw \<Rightarrow> 's \<Rightarrow> db_map_id \<Rightarrow> data \<Rightarrow> data option res"
  rw_prefix_iter :: "'rw \<Rightarrow> 's \<Rightarrow> db_map_id \<Rightarrow> data \<Rightarrow> (data \<times> data) list res"
  rw_put :: "'rw \<Rightarrow> 's \<Rightarrow> db_map_id \<Rightarrow> data \<Rightarrow> data \<Rightarrow> unit res \<times> 'rw \<times> 's"
  rw_del :: "'rw \<Rightarrow> 's \<Rightarrow> db_map_id \<Rightarrow> data \<Rightarrow> unit res \<times> 'rw \<times> 's"
  rw_commit :: "'rw \<Rightarrow> 's \<Rightarrow> unit res \<times> 's"
  rw_drop :: "'rw \<Rightarrow> 's \<Rightarrow> 's"

text \<open>\<open>Backend\<close>: opening the database with backend-specific settings \<open>'b\<close>.\<close>

record ('b, 's, 'ro, 'rw) backend =
  be_open :: "'b \<Rightarrow> db_desc \<Rightarrow> 's res"
  be_impl :: "('s, 'ro, 'rw) backend_impl"

text \<open>\<open>ReadOps\<close> of one open transaction, the state it reads captured at the call.\<close>

record read_ops =
  r_get :: "db_map_id \<Rightarrow> data \<Rightarrow> data option res"
  r_prefix_iter :: "db_map_id \<Rightarrow> data \<Rightarrow> (data \<times> data) list res"

definition ro_ops :: "('s, 'ro, 'rw) backend_impl \<Rightarrow> 'ro \<Rightarrow> 's \<Rightarrow> read_ops" where
  "ro_ops I t s = \<lparr>r_get = ro_get I t s, r_prefix_iter = ro_prefix_iter I t s\<rparr>"

definition rw_ops :: "('s, 'ro, 'rw) backend_impl \<Rightarrow> 'rw \<Rightarrow> 's \<Rightarrow> read_ops" where
  "rw_ops I w s = \<lparr>r_get = rw_get I w s, r_prefix_iter = rw_prefix_iter I w s\<rparr>"

section \<open>Contents\<close>

text \<open>What a store holds: an ordered map per database map.\<close>

type_synonym contents = "(data, data) btree list"

abbreviation empty_contents :: "nat \<Rightarrow> contents" where
  "empty_contents n \<equiv> replicate n bt_empty"

definition contents_put :: "nat \<Rightarrow> data \<Rightarrow> data \<Rightarrow> contents \<Rightarrow> contents" where
  "contents_put i k v c = c[i := bt_insert k v (c ! i)]"

definition contents_del :: "nat \<Rightarrow> data \<Rightarrow> contents \<Rightarrow> contents" where
  "contents_del i k c = c[i := bt_remove k (c ! i)]"

definition contents_ok :: "contents \<Rightarrow> bool" where
  "contents_ok c = list_all bt_inv c"

lemma length_contents_put [simp]: "length (contents_put i k v c) = length c"
  by (simp add: contents_put_def)

lemma length_contents_del [simp]: "length (contents_del i k c) = length c"
  by (simp add: contents_del_def)

lemma nth_contents_put [simp]:
  "i < length c \<Longrightarrow> contents_put i k v c ! j = (if i = j then bt_insert k v (c ! i) else c ! j)"
  by (simp add: contents_put_def)

lemma nth_contents_del [simp]:
  "i < length c \<Longrightarrow> contents_del i k c ! j = (if i = j then bt_remove k (c ! i) else c ! j)"
  by (simp add: contents_del_def)

lemma contents_ok_nth: "contents_ok c \<Longrightarrow> i < length c \<Longrightarrow> bt_inv (c ! i)"
  by (simp add: contents_ok_def list_all_length)

lemma contents_ok_put: "contents_ok c \<Longrightarrow> i < length c \<Longrightarrow> contents_ok (contents_put i k v c)"
  by (auto simp: contents_ok_def list_all_length)

lemma contents_ok_del: "contents_ok c \<Longrightarrow> i < length c \<Longrightarrow> contents_ok (contents_del i k c)"
  by (auto simp: contents_ok_def list_all_length)

lemma contents_ok_empty [simp]: "contents_ok (empty_contents n)"
  by (simp add: contents_ok_def list_all_length)

text \<open>What a transaction of either kind lets its owner read.\<close>

definition reads :: "(data \<Rightarrow> bool) \<Rightarrow> read_ops \<Rightarrow> contents \<Rightarrow> bool" where
  "reads key_ok ops c \<longleftrightarrow> contents_ok c \<and>
     (\<forall>i k. i < length c \<longrightarrow> key_ok k \<longrightarrow> r_get ops (DbMapId i) k = Ok (bt_get (c ! i) k)) \<and>
     (\<forall>i p. i < length c \<longrightarrow> r_prefix_iter ops (DbMapId i) p = Ok (bt_prefix p (c ! i)))"

section \<open>Contract of a bare store\<close>

text \<open>
  \<open>view t\<close> is what the store \<open>t\<close> contains, one ordered map per database map. The operations act on
  it as on an array of ordered maps, and writes to existing maps succeed.
\<close>

locale core_store =
  fixes ops :: "('t, 'f) core_ops"
    and view :: "'t \<Rightarrow> contents"
    and valid :: "'t \<Rightarrow> bool"
  assumes view_ok: "valid t \<Longrightarrow> contents_ok (view t)"
    and construct_spec:
      "\<exists>t. co_construct ops f d = Ok t \<and> valid t \<and> view t = empty_contents (count_as_usize (desc_map_count d))"
    and get_spec:
      "valid t \<Longrightarrow> i < length (view t) \<Longrightarrow> co_get ops t (DbMapId i) k = Ok (bt_get (view t ! i) k)"
    and prefix_iter_spec:
      "valid t \<Longrightarrow> i < length (view t) \<Longrightarrow> co_prefix_iter ops t (DbMapId i) p = Ok (bt_prefix p (view t ! i))"
    and put_spec:
      "valid t \<Longrightarrow> i < length (view t) \<Longrightarrow>
        \<exists>t'. co_put ops t (DbMapId i) k v = (Ok (), t') \<and> valid t' \<and> view t' = contents_put i k v (view t)"
    and del_spec:
      "valid t \<Longrightarrow> i < length (view t) \<Longrightarrow>
        \<exists>t'. co_del ops t (DbMapId i) k = (Ok (), t') \<and> valid t' \<and> view t' = contents_del i k (view t)"

section \<open>Contract of a transactional backend\<close>

text \<open>
  \<open>idle s c\<close>: no transaction is open and the committed contents are \<open>c\<close>. \<open>ro_open t s c\<close>: \<open>t\<close> is the
  only open transaction, read-only, and sees \<open>c\<close>. \<open>rw_open t s b c\<close>: \<open>t\<close> is the only open
  transaction, read-write, started on the committed contents \<open>b\<close> and sees \<open>c\<close>. \<open>cfg_ok cfg d\<close>: \<open>cfg\<close>
  is a configuration over fresh storage with which the backend can open a database described by \<open>d\<close>;
  \<open>key_ok\<close> the keys the backend accepts, among them all keys of 1
  to 511 bytes.
\<close>

locale backend_contract =
  fixes B :: "('b, 's, 'ro, 'rw) backend"
    and cfg_ok :: "'b \<Rightarrow> db_desc \<Rightarrow> bool"
    and key_ok :: "data \<Rightarrow> bool"
    and idle :: "'s \<Rightarrow> contents \<Rightarrow> bool"
    and ro_open :: "'ro \<Rightarrow> 's \<Rightarrow> contents \<Rightarrow> bool"
    and rw_open :: "'rw \<Rightarrow> 's \<Rightarrow> contents \<Rightarrow> contents \<Rightarrow> bool"
  assumes key_ok_length: "1 \<le> length k \<Longrightarrow> length k \<le> 511 \<Longrightarrow> key_ok k"
    and idle_ok: "idle s c \<Longrightarrow> contents_ok c"
    and rw_open_ok: "rw_open w s b c \<Longrightarrow> contents_ok c"
    and rw_open_length: "rw_open w s b c \<Longrightarrow> length c = length b"
    and open_spec: "cfg_ok cfg d \<Longrightarrow> distinct (map desc_name (maps_vec (map_descs d))) \<Longrightarrow>
        \<exists>s. be_open B cfg d = Ok s \<and> idle s (empty_contents (count_as_usize (desc_map_count d)))"
    and begin_ro_spec: "idle s c \<Longrightarrow>
        \<exists>t s'. transaction_ro (be_impl B) s = (Ok t, s') \<and> ro_open t s' c"
    and begin_rw_spec: "idle s c \<Longrightarrow>
        \<exists>t s'. transaction_rw (be_impl B) s sz = (Ok t, s') \<and> rw_open t s' c c"
    and ro_get_spec: "ro_open t s c \<Longrightarrow> i < length c \<Longrightarrow> key_ok k \<Longrightarrow>
        ro_get (be_impl B) t s (DbMapId i) k = Ok (bt_get (c ! i) k)"
    and ro_iter_spec: "ro_open t s c \<Longrightarrow> i < length c \<Longrightarrow>
        ro_prefix_iter (be_impl B) t s (DbMapId i) p = Ok (bt_prefix p (c ! i))"
    and ro_drop_spec: "ro_open t s c \<Longrightarrow> idle (ro_drop (be_impl B) t s) c"
    and rw_get_spec: "rw_open w s b c \<Longrightarrow> i < length c \<Longrightarrow> key_ok k \<Longrightarrow>
        rw_get (be_impl B) w s (DbMapId i) k = Ok (bt_get (c ! i) k)"
    and rw_iter_spec: "rw_open w s b c \<Longrightarrow> i < length c \<Longrightarrow>
        rw_prefix_iter (be_impl B) w s (DbMapId i) p = Ok (bt_prefix p (c ! i))"
    and rw_put_spec: "rw_open w s b c \<Longrightarrow> i < length c \<Longrightarrow> key_ok k \<Longrightarrow>
        \<exists>w' s'. rw_put (be_impl B) w s (DbMapId i) k v = (Ok (), w', s') \<and>
          rw_open w' s' b (contents_put i k v c)"
    and rw_del_spec: "rw_open w s b c \<Longrightarrow> i < length c \<Longrightarrow> key_ok k \<Longrightarrow>
        \<exists>w' s'. rw_del (be_impl B) w s (DbMapId i) k = (Ok (), w', s') \<and>
          rw_open w' s' b (contents_del i k c)"
    and rw_commit_spec: "rw_open w s b c \<Longrightarrow>
        \<exists>s'. rw_commit (be_impl B) w s = (Ok (), s') \<and> idle s' c"
    and rw_drop_spec: "rw_open w s b c \<Longrightarrow> idle (rw_drop (be_impl B) w s) b"

end
