(* ===== verification/Merge_Join.thy ===== *)
theory Merge_Join
  imports Core_Util
begin

text \<open>
  The merge join of \<open>storage/core/src/adaptor/locking/prefix_iter_rw.rs\<close>: the entries of the database
  and the changes of a transaction, both in key order, are joined by key; changes take precedence and
  deletions drop out. The join itself is \<open>itertools::merge_join_by\<close>, which is not part of this
  repository: it is the parameter \<open>mjb\<close> of everything that uses it, and the locale \<open>merge_join\<close> states
  its documented behaviour.
\<close>

datatype ('l, 'r) either_or_both = LeftItem 'l | RightItem 'r | BothItems 'l 'r

type_synonym data_pair = "data \<times> data"
type_synonym delta_pair = "data \<times> data option"

definition comparator :: "data_pair \<Rightarrow> delta_pair \<Rightarrow> ordering" where
  "comparator x y = ord_cmp (fst x) (fst y)"

fun merger :: "(data_pair, delta_pair) either_or_both \<Rightarrow> data_pair option" where
  "merger (LeftItem l) = Some l"
| "merger (RightItem (k, v)) = map_option (\<lambda>v. (k, v)) v"
| "merger (BothItems _ (k, v)) = map_option (\<lambda>v. (k, v)) v"

type_synonym merge_join_by =
  "(data_pair \<Rightarrow> delta_pair \<Rightarrow> ordering) \<Rightarrow> data_pair list \<Rightarrow> delta_pair list \<Rightarrow>
     (data_pair, delta_pair) either_or_both list"

definition merge_entries :: "merge_join_by \<Rightarrow> data_pair list \<Rightarrow> delta_pair list \<Rightarrow> data_pair list" where
  "merge_entries mjb db_iter delta_iter = List.map_filter merger (mjb comparator db_iter delta_iter)"

section \<open>Documented behaviour of the join\<close>

text \<open>
  When one side is exhausted the rest of the other is passed through; otherwise the comparison of the
  two heads decides whether the left one, the right one, or the pair comes next.
\<close>

locale merge_join =
  fixes mjb :: "('l \<Rightarrow> 'r \<Rightarrow> ordering) \<Rightarrow> 'l list \<Rightarrow> 'r list \<Rightarrow> ('l, 'r) either_or_both list"
  assumes join_right: "mjb c [] rs = map RightItem rs"
    and join_left: "mjb c ls [] = map LeftItem ls"
    and join_step: "mjb c (l # ls) (r # rs) =
      (case c l r of
         Less \<Rightarrow> LeftItem l # mjb c ls (r # rs)
       | Equal \<Rightarrow> BothItems l r # mjb c ls rs
       | Greater \<Rightarrow> RightItem r # mjb c (l # ls) rs)"

text \<open>A function with that behaviour, the one such function: it instantiates the parameter.\<close>

fun join_ref :: "('l \<Rightarrow> 'r \<Rightarrow> ordering) \<Rightarrow> 'l list \<Rightarrow> 'r list \<Rightarrow> ('l, 'r) either_or_both list" where
  "join_ref c [] rs = map RightItem rs"
| "join_ref c ls [] = map LeftItem ls"
| "join_ref c (l # ls) (r # rs) =
     (case c l r of
        Less \<Rightarrow> LeftItem l # join_ref c ls (r # rs)
      | Equal \<Rightarrow> BothItems l r # join_ref c ls rs
      | Greater \<Rightarrow> RightItem r # join_ref c (l # ls) rs)"

interpretation join_ref: merge_join join_ref
proof unfold_locales
  show "join_ref c ls [] = map LeftItem ls" for c :: "'a \<Rightarrow> 'b \<Rightarrow> ordering" and ls
    by (cases ls) simp_all
qed simp_all

context merge_join
begin

lemma mjb_eq_ref: "mjb c ls rs = join_ref c ls rs"
  by (induction c ls rs rule: join_ref.induct)
    (simp_all add: join_right join_left join_step split: ordering.splits)

end

section \<open>Merging is applying the changes\<close>

lemma map_filter_RightItem:
  "List.map_filter merger (map RightItem ds) =
     map (\<lambda>(k, v). (k, the v)) (filter (\<lambda>(k, v). v \<noteq> None) ds)"
  by (induction ds) (auto simp: List.map_filter_def)

lemma map_filter_LeftItem: "List.map_filter merger (map LeftItem xs) = xs"
  by (induction xs) (auto simp: List.map_filter_def)

lemma merge_ref_keys:
  "e \<in> set (List.map_filter merger (join_ref comparator xs ds)) \<Longrightarrow>
     fst e \<in> fst ` set xs \<union> fst ` set ds"
proof (induction "comparator :: data_pair \<Rightarrow> delta_pair \<Rightarrow> ordering" xs ds rule: join_ref.induct)
  case (1 rs)
  then show ?case by (force simp: map_filter_RightItem)
next
  case (2 l ls)
  then show ?case using map_filter_LeftItem [of "l # ls"] by auto
next
  case (3 l ls r rs)
  then show ?case
    by (cases r; cases "comparator l r") (auto simp: List.map_filter_def split: option.splits)
qed

definition optional_entry :: "'k \<Rightarrow> 'v option \<Rightarrow> ('k \<times> 'v) list" where
  "optional_entry k w = (case w of None \<Rightarrow> [] | Some v \<Rightarrow> [(k, v)])"

abbreviation merge_ref :: "data_pair list \<Rightarrow> delta_pair list \<Rightarrow> data_pair list" where
  "merge_ref xs ds \<equiv> List.map_filter merger (join_ref comparator xs ds)"

lemma merge_ref_step:
  "merge_ref ((a, v) # xs) ((b, w) # ds) =
     (if a < b then (a, v) # merge_ref xs ((b, w) # ds)
      else optional_entry b w @
        (if a = b then merge_ref xs ds else merge_ref ((a, v) # xs) ds))"
  by (simp add: List.map_filter_def comparator_def ord_cmp_def optional_entry_def split: option.splits)

lemma optional_entry_overlay:
  assumes "bt_inv m" and "\<forall>e \<in> set m. k < fst e"
  shows "bt_inv (optional_entry k w @ m) \<and>
    bt_get (optional_entry k w @ m) = (bt_get m)(k := w)"
  using assms bt_get_not_key [OF assms(2)]
  by (auto simp: optional_entry_def bt_inv_Cons bt_get_Cons_upd split: option.splits)

lemma merge_ref_Nil_left: "merge_ref [] ((k, w) # ds) = optional_entry k w @ merge_ref [] ds"
  by (simp add: List.map_filter_def optional_entry_def split: option.splits)

lemma merge_ref_above:
  "\<forall>e \<in> set xs. k < fst e \<Longrightarrow> \<forall>e \<in> set ds. k < fst e \<Longrightarrow> \<forall>e \<in> set (merge_ref xs ds). k < fst e"
  using merge_ref_keys by fastforce

lemma merge_ref_overlay_Nil:
  "bt_inv ds \<Longrightarrow> bt_inv (merge_ref [] ds) \<and> bt_get (merge_ref [] ds) = overlay (bt_get ds) Map.empty"
proof (induction ds)
  case Nil
  then show ?case by (simp add: List.map_filter_def overlay_def fun_eq_iff)
next
  case (Cons d ds)
  obtain k w where d: "d = (k, w)" by (cases d)
  with Cons.prems have above: "\<forall>e \<in> set (merge_ref [] ds). k < fst e" and inv: "bt_inv ds"
    using merge_ref_above [of "[]" k ds] by (auto simp: bt_inv_Cons)
  from Cons.IH [OF inv] optional_entry_overlay [OF _ above, of w] show ?case
    unfolding d merge_ref_Nil_left bt_get_Cons_upd overlay_upd by simp
qed

lemma merge_ref_overlay:
  assumes "bt_inv xs" and "bt_inv ds"
  shows "bt_inv (merge_ref xs ds) \<and> bt_get (merge_ref xs ds) = overlay (bt_get ds) (bt_get xs)"
  using assms
proof (induction "comparator :: data_pair \<Rightarrow> delta_pair \<Rightarrow> ordering" xs ds rule: join_ref.induct)
  case (1 ds)
  then show ?case using merge_ref_overlay_Nil [of ds] by (simp add: bt_get_def [abs_def])
next
  case (2 l ls)
  then show ?case
    using map_filter_LeftItem [of "l # ls"] by (simp add: overlay_def fun_eq_iff)
next
  case (3 l ls r rs)
  obtain a v b w where l: "l = (a, v)" and r: "r = (b, w)" by (cases l; cases r)
  have ls: "bt_inv ls" "\<forall>e \<in> set ls. a < fst e" and rs: "bt_inv rs" "\<forall>e \<in> set rs. b < fst e"
    using 3 by (auto simp: l r bt_inv_Cons)
  have step: "merge_ref (l # ls) (r # rs) =
     (if a < b then (a, v) # merge_ref ls (r # rs)
      else optional_entry b w @
        (if a = b then merge_ref ls rs else merge_ref (l # ls) rs))"
    unfolding l r by (rule merge_ref_step)
  have get: "bt_get (l # ls) = (bt_get ls)(a \<mapsto> v)" "bt_get (r # rs) = (bt_get rs)(b \<mapsto> w)"
    by (simp_all add: l r bt_get_Cons_upd)
  have cmp: "comparator l r = ord_cmp a b" by (simp add: comparator_def l r)
  consider "a < b" | "a = b" | "b < a" by fastforce
  then show ?case
  proof cases
    case 1
    have r': "\<forall>e \<in> set (r # rs). a < fst e" using 1 rs r by auto
    then have "bt_get (r # rs) a = None" by (rule bt_get_not_key)
    moreover have "\<forall>e \<in> set (merge_ref ls (r # rs)). a < fst e"
      using ls(2) r' by (rule merge_ref_above)
    moreover have "bt_inv (merge_ref ls (r # rs)) \<and>
        bt_get (merge_ref ls (r # rs)) = overlay (bt_get (r # rs)) (bt_get ls)"
      using "3.hyps"(1) "3.prems" ls(1) 1 by (simp add: cmp ord_cmp_def)
    ultimately show ?thesis
      using 1 unfolding step get(1) by (simp add: bt_inv_Cons bt_get_Cons_upd overlay_upd_base)
  next
    case 2
    then have "\<forall>e \<in> set (merge_ref ls rs). b < fst e" using ls rs by (simp add: merge_ref_above)
    with "3.hyps"(2) ls(1) rs(1) 2 optional_entry_overlay [of "merge_ref ls rs" b w] show ?thesis
      unfolding step get by (simp add: cmp ord_cmp_def overlay_upd_both)
  next
    case 3
    then have ba: "\<not> a < b" "a \<noteq> b" by auto
    from 3 have "\<forall>e \<in> set (merge_ref (l # ls) rs). b < fst e"
      using ls rs l by (intro merge_ref_above) auto
    with "3.hyps"(3) "3.prems"(1) rs(1) ba optional_entry_overlay [of "merge_ref (l # ls) rs" b w] show ?thesis
      unfolding step get(2) by (simp add: cmp ord_cmp_def overlay_upd)
  qed
qed

text \<open>
  Two sorted inputs merge to the database entries with the changes applied. The prefix scan of each
  side restricts both to the same keys, so the merge of the scans is the scan of the merge.
\<close>

context merge_join
begin

lemma merge_applies:
  fixes xs :: "data_pair list" and ds :: "delta_pair list"
  assumes "bt_inv xs" and "bt_inv ds"
  shows "List.map_filter merger (join_ref comparator xs ds) = apply_writes bt_insert bt_remove ds xs"
proof (rule bt_ext)
  have "map_of (rev ds) = bt_get ds"
    using assms(2) by (metis bt_collect_sorted bt_get_collect)
  then show "bt_get (merge_ref xs ds) = bt_get (apply_writes bt_insert bt_remove ds xs)"
    using assms by (simp add: merge_ref_overlay bt.get_apply_writes)
qed (use assms in \<open>simp_all add: merge_ref_overlay bt.inv_apply_writes\<close>)

end

end
