(* ===== verification/Locking.thy ===== *)
theory Locking
  imports Backend Merge_Join
begin

text \<open>
  The adaptor of \<open>storage/core/src/adaptor/locking\<close> that adds transactions to a bare store \<open>T\<close>:
  a readers-writer lock around the store, and for a read-write transaction one map of changes per
  database map, which \<open>commit\<close> replays into the store. Definitions that are generic in \<open>T\<close> take
  its operations as a \<^typ>\<open>('t, 'f) core_ops\<close>.
\<close>

section \<open>The lock: std::sync::RwLock\<close>

text \<open>
  The cell, the number of read guards, whether the write guard is out, and the poison flag a panic
  under the write guard sets. A request that has to wait is \<open>Blocked\<close> and changes nothing.
\<close>

record 't rwlock =
  rw_cell :: 't
  rw_readers :: nat
  rw_writer :: bool
  rw_poisoned :: bool

definition rwlock_new :: "'t \<Rightarrow> 't rwlock" where
  "rwlock_new t = \<lparr>rw_cell = t, rw_readers = 0, rw_writer = False, rw_poisoned = False\<rparr>"

definition rwlock_read :: "'t rwlock \<Rightarrow> (unit, unit) outcome \<times> 't rwlock" where
  "rwlock_read l =
     (if rw_writer l then (Blocked, l)
      else if rw_poisoned l then (Err (), l)
      else (Ok (), l\<lparr>rw_readers := Suc (rw_readers l)\<rparr>))"

definition rwlock_write :: "'t rwlock \<Rightarrow> (unit, unit) outcome \<times> 't rwlock" where
  "rwlock_write l =
     (if rw_writer l \<or> 0 < rw_readers l then (Blocked, l)
      else if rw_poisoned l then (Err (), l)
      else (Ok (), l\<lparr>rw_writer := True\<rparr>))"

definition drop_read_guard :: "'t rwlock \<Rightarrow> 't rwlock" where
  "drop_read_guard l = l\<lparr>rw_readers := rw_readers l - 1\<rparr>"

text \<open>A write guard that is dropped while its thread panics poisons the lock.\<close>

definition drop_write_guard :: "bool \<Rightarrow> 't rwlock \<Rightarrow> 't rwlock" where
  "drop_write_guard panicking l = l\<lparr>rw_writer := False, rw_poisoned := rw_poisoned l \<or> panicking\<rparr>"

section \<open>Transactions\<close>

text \<open>
  \<open>TransactionLockImpl\<close>. Both fields of a clone refer to the same lock and count, so all handles
  share this one state.
\<close>

record 't lock_impl =
  li_db :: "'t rwlock"
  li_num_maps :: db_map_count

text \<open>\<open>TxRo\<close> is the read guard and nothing else.\<close>

datatype tx_ro = TxRo

type_synonym delta_map = "(data, data option) btree"

text \<open>\<open>TxRw\<close>: the write guard (its data is the cell of the shared lock) and the changes.\<close>

record tx_rw =
  deltas :: "delta_map db_maps_data"

definition locked_db :: "'t lock_impl \<Rightarrow> 't" where
  "locked_db s = rw_cell (li_db s)"

definition tx_ro_get ::
    "('t, 'f) core_ops \<Rightarrow> tx_ro \<Rightarrow> 't lock_impl \<Rightarrow> db_map_id \<Rightarrow> data \<Rightarrow> data option res" where
  "tx_ro_get T tx s map_id key = co_get T (locked_db s) map_id key"

definition tx_ro_prefix_iter ::
    "('t, 'f) core_ops \<Rightarrow> tx_ro \<Rightarrow> 't lock_impl \<Rightarrow> db_map_id \<Rightarrow> data \<Rightarrow> (data \<times> data) list res" where
  "tx_ro_prefix_iter T tx s map_id pfx = co_prefix_iter T (locked_db s) map_id pfx"

definition tx_ro_drop :: "tx_ro \<Rightarrow> 't lock_impl \<Rightarrow> 't lock_impl" where
  "tx_ro_drop tx s = s\<lparr>li_db := drop_read_guard (li_db s)\<rparr>"

definition tx_rw_update :: "tx_rw \<Rightarrow> db_map_id \<Rightarrow> data \<Rightarrow> data option \<Rightarrow> unit res \<times> tx_rw" where
  "tx_rw_update tx map_id key val =
     (case maps_index_mut (deltas tx) map_id (bt_insert key val) of
        Ok d \<Rightarrow> (Ok (), tx\<lparr>deltas := d\<rparr>)
      | Err e \<Rightarrow> (Err e, tx)
      | Panic m \<Rightarrow> (Panic m, tx)
      | Blocked \<Rightarrow> (Blocked, tx))"

definition tx_rw_get ::
    "('t, 'f) core_ops \<Rightarrow> tx_rw \<Rightarrow> 't lock_impl \<Rightarrow> db_map_id \<Rightarrow> data \<Rightarrow> data option res" where
  "tx_rw_get T tx s map_id key =
     o_bind (maps_index (deltas tx) map_id) (\<lambda>delta.
       case bt_get delta key of
         None \<Rightarrow> co_get T (locked_db s) map_id key
       | Some x \<Rightarrow> Ok x)"

text \<open>\<open>prefix_iter_rw::iter\<close>: the database scan merged with the scan of the changes.\<close>

definition prefix_iter_rw ::
    "merge_join_by \<Rightarrow> ('t, 'f) core_ops \<Rightarrow> tx_rw \<Rightarrow> 't lock_impl \<Rightarrow> db_map_id \<Rightarrow> data \<Rightarrow>
       (data \<times> data) list res" where
  "prefix_iter_rw mjb T tx s map_id pfx =
     o_bind (co_prefix_iter T (locked_db s) map_id pfx) (\<lambda>db_iter.
     o_bind (maps_index (deltas tx) map_id) (\<lambda>delta.
       let delta_iter = prefix_iter_collect (prefix_iter_new delta pfx)
       in Ok (merge_entries mjb db_iter delta_iter)))"

definition tx_rw_prefix_iter ::
    "merge_join_by \<Rightarrow> ('t, 'f) core_ops \<Rightarrow> tx_rw \<Rightarrow> 't lock_impl \<Rightarrow> db_map_id \<Rightarrow> data \<Rightarrow>
       (data \<times> data) list res" where
  [simp]: "tx_rw_prefix_iter mjb T tx s map_id pfx = prefix_iter_rw mjb T tx s map_id pfx"

definition tx_rw_put ::
    "tx_rw \<Rightarrow> 't lock_impl \<Rightarrow> db_map_id \<Rightarrow> data \<Rightarrow> data \<Rightarrow> unit res \<times> tx_rw \<times> 't lock_impl" where
  "tx_rw_put tx s map_id key val =
     (case tx_rw_update tx map_id key (Some val) of (r, tx') \<Rightarrow> (r, tx', s))"

definition tx_rw_del ::
    "tx_rw \<Rightarrow> 't lock_impl \<Rightarrow> db_map_id \<Rightarrow> data \<Rightarrow> unit res \<times> tx_rw \<times> 't lock_impl" where
  "tx_rw_del tx s map_id key =
     (case tx_rw_update tx map_id key None of (r, tx') \<Rightarrow> (r, tx', s))"

section \<open>Commit\<close>

text \<open>
  The two nested loops of \<open>commit\<close>. The question mark operator leaves both at the first write that
  fails, and what was written so far stays written.
\<close>

fun commit_map ::
    "('t, 'f) core_ops \<Rightarrow> db_map_id \<Rightarrow> (data \<times> data option) list \<Rightarrow> 't \<Rightarrow> unit res \<times> 't" where
  "commit_map T idx [] db = (Ok (), db)"
| "commit_map T idx ((key, val) # kvmap) db =
     (case (case val of None \<Rightarrow> co_del T db idx key | Some val \<Rightarrow> co_put T db idx key val) of
        (Ok _, db') \<Rightarrow> commit_map T idx kvmap db'
      | (Err e, db') \<Rightarrow> (Err e, db')
      | (Panic m, db') \<Rightarrow> (Panic m, db')
      | (Blocked, db') \<Rightarrow> (Blocked, db'))"

fun commit_maps ::
    "('t, 'f) core_ops \<Rightarrow> (db_map_id \<times> delta_map) list \<Rightarrow> 't \<Rightarrow> unit res \<times> 't" where
  "commit_maps T [] db = (Ok (), db)"
| "commit_maps T ((idx, kvmap) # rest) db =
     (case commit_map T idx kvmap db of
        (Ok _, db') \<Rightarrow> commit_maps T rest db'
      | (Err e, db') \<Rightarrow> (Err e, db')
      | (Panic m, db') \<Rightarrow> (Panic m, db')
      | (Blocked, db') \<Rightarrow> (Blocked, db'))"

definition tx_rw_commit ::
    "('t, 'f) core_ops \<Rightarrow> tx_rw \<Rightarrow> 't lock_impl \<Rightarrow> unit res \<times> 't lock_impl" where
  "tx_rw_commit T tx s =
     (case commit_maps T (into_iter_with_id (deltas tx)) (locked_db s) of
        (r, db') \<Rightarrow> (r, s\<lparr>li_db := drop_write_guard (is_panic r) ((li_db s)\<lparr>rw_cell := db'\<rparr>)\<rparr>))"

definition tx_rw_drop :: "tx_rw \<Rightarrow> 't lock_impl \<Rightarrow> 't lock_impl" where
  "tx_rw_drop tx s = s\<lparr>li_db := drop_write_guard False (li_db s)\<rparr>"

text \<open>A transaction that is dropped because its thread panics.\<close>

definition tx_rw_unwind :: "tx_rw \<Rightarrow> 't lock_impl \<Rightarrow> 't lock_impl" where
  "tx_rw_unwind tx s = s\<lparr>li_db := drop_write_guard True (li_db s)\<rparr>"

section \<open>The backend\<close>

definition locking_transaction_ro :: "'t lock_impl \<Rightarrow> tx_ro res \<times> 't lock_impl" where
  "locking_transaction_ro s =
     (case rwlock_read (li_db s) of
        (r, l) \<Rightarrow> (o_map (\<lambda>_. TxRo) (o_expect ''lock to be alive'' r), s\<lparr>li_db := l\<rparr>))"

definition locking_transaction_rw :: "'t lock_impl \<Rightarrow> usize option \<Rightarrow> tx_rw res \<times> 't lock_impl" where
  "locking_transaction_rw s sz =
     (case rwlock_write (li_db s) of
        (r, l) \<Rightarrow>
          (o_map (\<lambda>_. \<lparr>deltas = maps_new (li_num_maps s) (\<lambda>_. bt_empty)\<rparr>)
             (o_expect ''lock to be alive'' r),
           s\<lparr>li_db := l\<rparr>))"

text \<open>\<open>Locking(T::From)\<close>, the backend that opens a fresh store of type \<open>T\<close>.\<close>

datatype 'f locking = Locking (locking_from: 'f)

definition locking_new :: "'f \<Rightarrow> 'f locking" where
  "locking_new inner = Locking inner"

definition locking_open :: "('t, 'f) core_ops \<Rightarrow> 'f locking \<Rightarrow> db_desc \<Rightarrow> 't lock_impl res" where
  "locking_open T self desc =
     o_bind (co_construct T (locking_from self) desc) (\<lambda>t.
       Ok \<lparr>li_db = rwlock_new t, li_num_maps = desc_map_count desc\<rparr>)"

definition locking_impl ::
    "merge_join_by \<Rightarrow> ('t, 'f) core_ops \<Rightarrow> ('t lock_impl, tx_ro, tx_rw) backend_impl" where
  "locking_impl mjb T =
     \<lparr>transaction_ro = locking_transaction_ro,
      transaction_rw = locking_transaction_rw,
      ro_get = tx_ro_get T,
      ro_prefix_iter = tx_ro_prefix_iter T,
      ro_drop = tx_ro_drop,
      rw_get = tx_rw_get T,
      rw_prefix_iter = tx_rw_prefix_iter mjb T,
      rw_put = tx_rw_put,
      rw_del = tx_rw_del,
      rw_commit = tx_rw_commit T,
      rw_drop = tx_rw_drop\<rparr>"

definition locking_backend ::
    "merge_join_by \<Rightarrow> ('t, 'f) core_ops \<Rightarrow> ('f locking, 't lock_impl, tx_ro, tx_rw) backend" where
  "locking_backend mjb T = \<lparr>be_open = locking_open T, be_impl = locking_impl mjb T\<rparr>"

end
