(* ===== verification/Locking_Contract.thy ===== *)
theory Locking_Contract
  imports Locking
begin

text \<open>
  The adaptor implements the transactional contract for every bare store that satisfies
  \<open>core_store\<close>: reads of a read-write transaction see the store with the transaction's changes
  applied, \<open>commit\<close> makes the store equal to what the transaction saw, dropping it leaves the
  store alone, and the lock is free again after each.
\<close>

section \<open>Changes applied to a map\<close>

abbreviation apply_deltas :: "delta_map \<Rightarrow> (data, data) btree \<Rightarrow> (data, data) btree" where
  "apply_deltas d m \<equiv> apply_writes bt_insert bt_remove d m"

lemma get_apply_deltas:
  "bt_inv d \<Longrightarrow> bt_inv m \<Longrightarrow> bt_get (apply_deltas d m) = overlay (bt_get d) (bt_get m)"
  by (simp add: bt.get_apply_writes map_of_rev_btree)

lemma apply_deltas_insert:
  assumes "bt_inv d" and "bt_inv m"
  shows "apply_deltas (bt_insert k (Some v) d) m = bt_insert k v (apply_deltas d m)"
  by (rule bt_ext)
    (use assms in \<open>simp_all add: bt.inv_apply_writes get_apply_deltas btree_simps overlay_upd\<close>)

lemma apply_deltas_remove:
  assumes "bt_inv d" and "bt_inv m"
  shows "apply_deltas (bt_insert k None d) m = bt_remove k (apply_deltas d m)"
  by (rule bt_ext)
    (use assms in \<open>simp_all add: bt.inv_apply_writes get_apply_deltas btree_simps overlay_upd\<close>)

lemma apply_deltas_prefix:
  assumes "bt_inv d" and "bt_inv m"
  shows "apply_deltas (bt_prefix p d) (bt_prefix p m) = bt_prefix p (apply_deltas d m)"
  by (rule bt_ext)
    (use assms in \<open>simp_all add: bt.inv_apply_writes get_apply_deltas btree_simps overlay_def fun_eq_iff
       split: option.splits\<close>)

section \<open>The states of the lock\<close>

definition lock_free :: "'t rwlock \<Rightarrow> bool" where
  "lock_free l \<longleftrightarrow> rw_readers l = 0 \<and> \<not> rw_writer l \<and> \<not> rw_poisoned l"

definition lk_idle :: "('t \<Rightarrow> contents) \<Rightarrow> ('t \<Rightarrow> bool) \<Rightarrow> 't lock_impl \<Rightarrow> contents \<Rightarrow> bool" where
  "lk_idle view valid s c \<longleftrightarrow> lock_free (li_db s) \<and> valid (locked_db s) \<and> view (locked_db s) = c \<and>
     count_as_usize (li_num_maps s) = length c"

definition lk_ro :: "('t \<Rightarrow> contents) \<Rightarrow> ('t \<Rightarrow> bool) \<Rightarrow> tx_ro \<Rightarrow> 't lock_impl \<Rightarrow> contents \<Rightarrow> bool" where
  "lk_ro view valid tx s c \<longleftrightarrow> rw_readers (li_db s) = 1 \<and> \<not> rw_writer (li_db s) \<and> \<not> rw_poisoned (li_db s) \<and>
     valid (locked_db s) \<and> view (locked_db s) = c \<and> count_as_usize (li_num_maps s) = length c"

definition lk_rw ::
    "('t \<Rightarrow> contents) \<Rightarrow> ('t \<Rightarrow> bool) \<Rightarrow> tx_rw \<Rightarrow> 't lock_impl \<Rightarrow> contents \<Rightarrow> contents \<Rightarrow> bool" where
  "lk_rw view valid tx s b c \<longleftrightarrow> rw_readers (li_db s) = 0 \<and> rw_writer (li_db s) \<and> \<not> rw_poisoned (li_db s) \<and>
     valid (locked_db s) \<and> view (locked_db s) = b \<and> count_as_usize (li_num_maps s) = length b \<and>
     contents_ok b \<and> list_all bt_inv (maps_vec (deltas tx)) \<and>
     length (maps_vec (deltas tx)) = length b \<and>
     c = map2 apply_deltas (maps_vec (deltas tx)) b"

lemmas lk_defs = lk_idle_def lk_ro_def lk_rw_def lock_free_def

lemma lk_rw_nth:
  assumes "lk_rw view valid tx s b c" and "i < length c"
  shows "i < length b" "i < length (maps_vec (deltas tx))" "bt_inv (maps_vec (deltas tx) ! i)"
    "bt_inv (b ! i)" "c ! i = apply_deltas (maps_vec (deltas tx) ! i) (b ! i)"
  using assms by (auto simp: lk_rw_def list_all_length intro: contents_ok_nth)

lemma lk_rw_ok: "lk_rw view valid tx s b c \<Longrightarrow> contents_ok c \<and> length c = length b"
  by (auto simp: lk_rw_def contents_ok_def list_all_length intro!: bt.inv_apply_writes)

section \<open>Recording a change\<close>

lemma tx_rw_update_ok:
  assumes "i < length (maps_vec (deltas tx))"
  shows "tx_rw_update tx (DbMapId i) k w =
    (Ok (), tx\<lparr>deltas := DbMapsData ((maps_vec (deltas tx))[i := bt_insert k w (maps_vec (deltas tx) ! i)])\<rparr>)"
  using assms by (simp add: tx_rw_update_def maps_index_mut_def)

lemma lk_rw_update:
  assumes rw: "lk_rw view valid tx s b c" and i: "i < length c"
    and tx': "tx' = tx\<lparr>deltas := DbMapsData ((maps_vec (deltas tx))[i := d])\<rparr>" and d: "bt_inv d"
  shows "lk_rw view valid tx' s b (c[i := apply_deltas d (b ! i)])"
proof -
  have len: "i < length b" "i < length (maps_vec (deltas tx))" using lk_rw_nth [OF rw i] by simp_all
  have "map2 apply_deltas ((maps_vec (deltas tx))[i := d]) b =
      (map2 apply_deltas (maps_vec (deltas tx)) b)[i := apply_deltas d (b ! i)]"
    using len rw by (intro nth_equalityI) (auto simp: nth_list_update lk_rw_def)
  with rw d len show ?thesis
    by (auto simp: lk_rw_def tx' list_all_length nth_list_update)
qed

text \<open>A series of puts and deletions (\<open>None\<close>) in one read-write transaction.\<close>

fun tx_rw_writes ::
    "(db_map_id \<times> data \<times> data option) list \<Rightarrow> tx_rw \<Rightarrow> 't lock_impl \<Rightarrow> tx_rw \<times> 't lock_impl" where
  "tx_rw_writes [] tx s = (tx, s)"
| "tx_rw_writes ((i, k, w) # ws) tx s =
     (case (case w of Some v \<Rightarrow> tx_rw_put tx s i k v | None \<Rightarrow> tx_rw_del tx s i k) of
        (_, tx', s') \<Rightarrow> tx_rw_writes ws tx' s')"

lemma tx_rw_update_length:
  "length (maps_vec (deltas (snd (tx_rw_update tx i k w)))) = length (maps_vec (deltas tx))"
  by (simp add: tx_rw_update_def maps_index_mut_def)

lemma tx_rw_writes_length:
  "length (maps_vec (deltas (fst (tx_rw_writes ws tx s)))) = length (maps_vec (deltas tx))"
proof (induction ws tx s rule: tx_rw_writes.induct)
  case (2 i k w ws tx s)
  then show ?case
    using tx_rw_update_length [of tx i k w]
    by (cases w) (auto simp: tx_rw_put_def tx_rw_del_def split: prod.splits)
qed simp

lemma tx_rw_writes_shared: "snd (tx_rw_writes ws tx s) = s"
  by (induction ws tx s rule: tx_rw_writes.induct)
    (auto simp: tx_rw_put_def tx_rw_del_def split: option.splits prod.splits)

text \<open>The last write to a key in such a series.\<close>

definition last_write :: "db_map_id \<Rightarrow> data \<Rightarrow> (db_map_id \<times> data \<times> data option) list \<Rightarrow> data option option" where
  "last_write i k ws = map_of (map (\<lambda>(j, k', w). ((j, k'), w)) (rev ws)) (i, k)"

lemma last_write_simps [simp]:
  "last_write i k [] = None"
  "last_write i k ((j, k', w) # ws) =
     (case last_write i k ws of Some x \<Rightarrow> Some x | None \<Rightarrow> if j = i \<and> k' = k then Some w else None)"
  by (simp_all add: last_write_def map_add_def split: option.split)

lemma tx_rw_writes_Cons:
  "tx_rw_writes ((j, k, w) # ws) tx s = tx_rw_writes ws (snd (tx_rw_update tx j k w)) s"
  by (cases w) (simp_all add: tx_rw_put_def tx_rw_del_def split: prod.split)

lemma tx_rw_writes_inv:
  "list_all bt_inv (maps_vec (deltas tx)) \<Longrightarrow> list_all bt_inv (maps_vec (deltas (fst (tx_rw_writes ws tx s))))"
proof (induction ws arbitrary: tx)
  case (Cons e ws)
  obtain j k w where e: "e = (j, k, w)" by (cases e)
  have "list_all bt_inv (maps_vec (deltas (snd (tx_rw_update tx j k w))))"
    using Cons.prems by (auto simp: tx_rw_update_def maps_index_mut_def list_all_length nth_list_update)
  then show ?case unfolding e tx_rw_writes_Cons by (rule Cons.IH)
qed simp

lemma tx_rw_writes_get:
  assumes "list_all bt_inv (maps_vec (deltas tx))" and "n < length (maps_vec (deltas tx))"
  shows "bt_get (maps_vec (deltas (fst (tx_rw_writes ws tx s))) ! n) k =
    (case last_write (DbMapId n) k ws of Some w \<Rightarrow> Some w | None \<Rightarrow> bt_get (maps_vec (deltas tx) ! n) k)"
  using assms
proof (induction ws arbitrary: tx)
  case (Cons e ws)
  obtain j k' w where e: "e = (DbMapId j, k', w)" by (metis db_map_id.exhaust prod_cases3)
  let ?tx = "snd (tx_rw_update tx (DbMapId j) k' w)"
  have "list_all bt_inv (maps_vec (deltas ?tx))" "n < length (maps_vec (deltas ?tx))"
    using Cons.prems by (auto simp: tx_rw_update_def maps_index_mut_def list_all_length nth_list_update)
  note IH = Cons.IH [OF this]
  have "bt_get (maps_vec (deltas ?tx) ! n) k =
      (if j = n \<and> k' = k then Some w else bt_get (maps_vec (deltas tx) ! n) k)"
    using Cons.prems by (auto simp: tx_rw_update_def maps_index_mut_def nth_list_update bt_get_insert list_all_length)
  with IH show ?case unfolding e tx_rw_writes_Cons by (auto split: option.split)
qed simp

section \<open>Replaying the changes\<close>

text \<open>The changes of a transaction, in the order in which a commit writes them, and what that comes to.\<close>

definition change_list :: "delta_map db_maps_data \<Rightarrow> (db_map_id \<times> data \<times> data option) list" where
  "change_list d = concat (map (\<lambda>(i, m). map (\<lambda>(k, w). (i, k, w)) m) (into_iter_with_id d))"

definition do_change :: "('t, 'f) core_ops \<Rightarrow> db_map_id \<times> data \<times> data option \<Rightarrow> 't \<Rightarrow> unit res \<times> 't" where
  "do_change T = (\<lambda>(i, k, w) db. case w of None \<Rightarrow> co_del T db i k | Some v \<Rightarrow> co_put T db i k v)"

fun replay :: "('t, 'f) core_ops \<Rightarrow> (db_map_id \<times> data \<times> data option) list \<Rightarrow> 't \<Rightarrow> unit res \<times> 't" where
  "replay T [] db = (Ok (), db)"
| "replay T (c # cs) db =
     (case do_change T c db of (r, db') \<Rightarrow> case r of Ok _ \<Rightarrow> replay T cs db' | _ \<Rightarrow> (r, db'))"

lemma commit_map_replay: "commit_map T i m db = replay T (map (\<lambda>(k, w). (i, k, w)) m) db"
  by (induction T i m db rule: commit_map.induct) (auto simp: do_change_def split: prod.split outcome.split)

lemma replay_append:
  "replay T (xs @ ys) db = (case replay T xs db of (r, db') \<Rightarrow> case r of Ok _ \<Rightarrow> replay T ys db' | _ \<Rightarrow> (r, db'))"
  by (induction xs arbitrary: db) (auto split: prod.split outcome.split)

lemma commit_maps_replay: "commit_maps T (into_iter_with_id d) db = replay T (change_list d) db"
proof -
  have "commit_maps T l db = replay T (concat (map (\<lambda>(i, m). map (\<lambda>(k, w). (i, k, w)) m) l)) db" for l
    by (induction T l db rule: commit_maps.induct)
      (auto simp: commit_map_replay replay_append split: prod.split outcome.split)
  then show ?thesis by (simp add: change_list_def)
qed

lemma replay_Err_iff:
  "replay T cs db = (Err e, db2) \<longleftrightarrow> (\<exists>pre c post db1. cs = pre @ c # post \<and> replay T pre db = (Ok (), db1) \<and>
     do_change T c db1 = (Err e, db2))"
proof
  show "\<exists>pre c post db1. cs = pre @ c # post \<and> replay T pre db = (Ok (), db1) \<and> do_change T c db1 = (Err e, db2)"
    if "replay T cs db = (Err e, db2)"
    using that
  proof (induction cs arbitrary: db)
    case (Cons c cs)
    obtain r db' where c: "do_change T c db = (r, db')" by fastforce
    show ?case
    proof (cases r)
      case (Ok u)
      with Cons.prems c have "replay T cs db' = (Err e, db2)" by simp
      from Cons.IH [OF this] obtain pre c' post db1 where
        "cs = pre @ c' # post" "replay T pre db' = (Ok (), db1)" "do_change T c' db1 = (Err e, db2)" by blast
      with c Ok show ?thesis by (intro exI [of _ "c # pre"] exI [of _ c'] exI [of _ post] exI [of _ db1]) simp
    next
      case (Err e')
      with Cons.prems c have "c # cs = [] @ c # cs \<and> replay T [] db = (Ok (), db) \<and> do_change T c db = (Err e, db2)" by simp
      then show ?thesis by blast
    qed (use Cons.prems c in simp_all)
  qed simp
qed (auto simp: replay_append)

text \<open>Every key that was written appears once, with its last write.\<close>

lemma change_list_iff:
  assumes "list_all bt_inv (maps_vec d)" and "n < length (maps_vec d)"
  shows "(DbMapId n, k, w) \<in> set (change_list d) \<longleftrightarrow> bt_get (maps_vec d ! n) k = Some w"
proof -
  have "(DbMapId n, k, w) \<in> set (change_list d) \<longleftrightarrow> (k, w) \<in> set (maps_vec d ! n)"
    using assms(2) by (force simp: change_list_def set_into_iter_with_id maps_index_def)
  moreover have "bt_inv (maps_vec d ! n)" using assms by (simp add: list_all_length)
  ultimately show ?thesis by (simp add: bt_get_in_set)
qed

lemma change_list_distinct:
  assumes "list_all bt_inv (maps_vec d)"
  shows "distinct (map (\<lambda>(i, k, w). (i, k)) (change_list d))"
proof -
  have "distinct (concat (map (\<lambda>(i, m). map (\<lambda>(k, w). (DbMapId i, k)) m) (enumerate n ms))) \<and>
    (\<forall>(j, k) \<in> set (concat (map (\<lambda>(i, m). map (\<lambda>(k, w). (DbMapId i, k)) m) (enumerate n ms))). n \<le> as_usize j)"
    if "list_all bt_inv ms" for n and ms :: "delta_map list"
    using that
  proof (induction ms arbitrary: n)
    case (Cons m ms)
    have "distinct (map fst m)" using Cons.prems by (simp add: bt_inv_distinct)
    then have "distinct (map (\<lambda>k. (DbMapId n, k)) (map fst m))" by (simp add: distinct_map inj_on_def)
    then have "distinct (map (\<lambda>(k, w). (DbMapId n, k)) m)" by (simp add: comp_def case_prod_unfold)
    with Cons show ?case by fastforce
  qed simp
  from this [OF assms, of 0] show ?thesis
    by (simp add: change_list_def into_iter_with_id_def map_concat comp_def case_prod_unfold)
qed

context core_store
begin

lemma commit_map_spec:
  assumes "valid t" and "i < length (view t)" and "bt_inv (view t ! i)"
  shows "\<exists>t'. commit_map ops (DbMapId i) ws t = (Ok (), t') \<and> valid t' \<and>
    view t' = (view t)[i := apply_deltas ws (view t ! i)]"
  using assms
proof (induction ws arbitrary: t)
  case Nil
  then show ?case by simp
next
  case (Cons e ws)
  obtain k w where e: "e = (k, w)" by (cases e)
  let ?upd = "\<lambda>m. case w of None \<Rightarrow> bt_remove k m | Some v \<Rightarrow> bt_insert k v m"
  have inv': "bt_inv (?upd (view t ! i))" using Cons.prems by (simp split: option.splits)
  obtain t1 where t1: "(case w of None \<Rightarrow> co_del ops t (DbMapId i) k | Some v \<Rightarrow> co_put ops t (DbMapId i) k v) = (Ok (), t1)"
      "valid t1" "view t1 = (view t)[i := ?upd (view t ! i)]"
    using put_spec [OF Cons.prems(1,2), of k "the w"] del_spec [OF Cons.prems(1,2), of k]
    by (cases w) (auto simp: contents_put_def contents_del_def)
  with Cons.IH [of t1] Cons.prems inv' show ?case
    by (auto simp: e)
qed

lemma commit_maps_spec:
  assumes "valid t" and "length ds \<le> length (view t) - n" and "n \<le> length (view t)" and "contents_ok (view t)"
  shows "\<exists>t'. commit_maps ops (map (\<lambda>(i, m). (DbMapId i, m)) (enumerate n ds)) t = (Ok (), t') \<and> valid t' \<and>
    view t' = take n (view t) @ map2 apply_deltas ds (drop n (view t)) @ drop (n + length ds) (view t)"
  using assms
proof (induction ds arbitrary: n t)
  case Nil
  then show ?case by simp
next
  case (Cons d ds)
  then have n: "n < length (view t)" by simp
  with Cons.prems have "bt_inv (view t ! n)" by (intro contents_ok_nth)
  with commit_map_spec [OF Cons.prems(1) n, of d] obtain t1 where t1:
    "commit_map ops (DbMapId n) d t = (Ok (), t1)" "valid t1"
    "view t1 = (view t)[n := apply_deltas d (view t ! n)]" by blast
  moreover have "length ds \<le> length (view t) - Suc n" using Cons.prems(2) by simp
  ultimately obtain t2 where t2:
    "commit_maps ops (map (\<lambda>(i, m). (DbMapId i, m)) (enumerate (Suc n) ds)) t1 = (Ok (), t2)" "valid t2"
    "view t2 = take (Suc n) (view t1) @ map2 apply_deltas ds (drop (Suc n) (view t1)) @
       drop (Suc n + length ds) (view t1)"
    using Cons.IH [of t1 "Suc n"] n view_ok [OF t1(2)] by auto
  have "take (Suc n) (view t1) = take n (view t) @ [apply_deltas d (view t ! n)]"
    using n by (simp add: t1 take_Suc_conv_app_nth)
  moreover have "drop n (view t) = view t ! n # drop (Suc n) (view t)"
    using n by (simp add: Cons_nth_drop_Suc)
  ultimately show ?case using t1 t2 by simp
qed

lemma commit_maps_all:
  assumes "valid t" and "length ds = length (view t)"
  shows "\<exists>t'. commit_maps ops (into_iter_with_id (DbMapsData ds)) t = (Ok (), t') \<and> valid t' \<and>
    view t' = map2 apply_deltas ds (view t)"
  using commit_maps_spec [of t ds 0] assms view_ok [OF assms(1)]
  by (simp add: into_iter_with_id_def)

end

section \<open>The contract\<close>

locale locking_adaptor = core_store ops view valid + merge_join mjb
  for ops :: "('t, 'f) core_ops" and view valid and mjb :: merge_join_by
begin

lemma prefix_iter_rw_spec:
  assumes rw: "lk_rw view valid tx s b c" and i: "i < length c"
  shows "prefix_iter_rw mjb ops tx s (DbMapId i) p = Ok (bt_prefix p (c ! i))"
proof -
  note nth = lk_rw_nth [OF rw i]
  let ?d = "maps_vec (deltas tx) ! i"
  have "co_prefix_iter ops (locked_db s) (DbMapId i) p = Ok (bt_prefix p (b ! i))"
    using rw nth by (auto simp: lk_rw_def intro: prefix_iter_spec)
  moreover have "merge_entries mjb (bt_prefix p (b ! i)) (bt_prefix p ?d) = bt_prefix p (c ! i)"
    using nth by (simp add: merge_entries_def mjb_eq_ref merge_applies apply_deltas_prefix)
  ultimately show ?thesis
    using nth by (simp add: prefix_iter_rw_def maps_index_def prefix_iter_collect_new)
qed

lemma tx_rw_get_spec:
  assumes rw: "lk_rw view valid tx s b c" and i: "i < length c"
  shows "tx_rw_get ops tx s (DbMapId i) k = Ok (bt_get (c ! i) k)"
proof -
  note nth = lk_rw_nth [OF rw i]
  have "co_get ops (locked_db s) (DbMapId i) k = Ok (bt_get (b ! i) k)"
    using rw nth by (auto simp: lk_rw_def intro: get_spec)
  with nth show ?thesis
    by (simp add: tx_rw_get_def maps_index_def get_apply_deltas overlay_def split: option.split)
qed

lemma tx_rw_commit_spec:
  assumes "lk_rw view valid tx s b c"
  shows "\<exists>s'. tx_rw_commit ops tx s = (Ok (), s') \<and> lk_idle view valid s' c"
proof -
  have "valid (locked_db s)" "length (maps_vec (deltas tx)) = length (view (locked_db s))"
    using assms by (auto simp: lk_rw_def)
  with commit_maps_all [of "locked_db s" "maps_vec (deltas tx)"] obtain t where
    "commit_maps ops (into_iter_with_id (deltas tx)) (locked_db s) = (Ok (), t)" "valid t"
    "view t = map2 apply_deltas (maps_vec (deltas tx)) (view (locked_db s))"
    by auto
  with assms show ?thesis
    by (auto simp: tx_rw_commit_def lk_defs locked_db_def drop_write_guard_def)
qed

sublocale lk: backend_contract "locking_backend mjb ops" "\<lambda>_ _. True" "\<lambda>_. True"
  "lk_idle view valid" "lk_ro view valid" "lk_rw view valid"
proof unfold_locales
  fix s c
  assume "lk_idle view valid s c"
  then show "contents_ok c" by (auto simp: lk_idle_def intro: view_ok)
next
  fix w s b c
  assume "lk_rw view valid w s b c"
  then show "contents_ok c" and "length c = length b" by (simp_all add: lk_rw_ok)
next
  fix cfg :: "'f locking" and d :: db_desc
  show "\<exists>s. be_open (locking_backend mjb ops) cfg d = Ok s \<and>
      lk_idle view valid s (empty_contents (count_as_usize (desc_map_count d)))"
    using construct_spec [of "locking_from cfg" d]
    by (auto simp: locking_backend_def locking_open_def lk_idle_def lock_free_def rwlock_new_def locked_db_def)
next
  fix s c
  assume "lk_idle view valid s c"
  then show "\<exists>t s'. transaction_ro (be_impl (locking_backend mjb ops)) s = (Ok t, s') \<and> lk_ro view valid t s' c"
    by (auto simp: locking_backend_def locking_impl_def locking_transaction_ro_def rwlock_read_def lk_defs locked_db_def)
next
  fix s c sz
  assume idle: "lk_idle view valid s c"
  then have "contents_ok c" by (auto simp: lk_idle_def intro: view_ok)
  moreover have "map2 apply_deltas (replicate (length c) bt_empty) c = c"
    by (intro nth_equalityI) (simp_all add: bt_empty_def)
  ultimately show "\<exists>t s'. transaction_rw (be_impl (locking_backend mjb ops)) s sz = (Ok t, s') \<and> lk_rw view valid t s' c c"
    using idle
    by (auto simp: locking_backend_def locking_impl_def locking_transaction_rw_def rwlock_write_def lk_defs
        locked_db_def maps_new_def count_indices_def map_replicate_const list_all_length comp_def)
next
  fix t s c i k
  assume "lk_ro view valid t s c" "i < length c"
  then show "ro_get (be_impl (locking_backend mjb ops)) t s (DbMapId i) k = Ok (bt_get (c ! i) k)"
    by (auto simp: locking_backend_def locking_impl_def tx_ro_get_def lk_ro_def intro: get_spec)
next
  fix t s c i p
  assume "lk_ro view valid t s c" "i < length c"
  then show "ro_prefix_iter (be_impl (locking_backend mjb ops)) t s (DbMapId i) p = Ok (bt_prefix p (c ! i))"
    by (auto simp: locking_backend_def locking_impl_def tx_ro_prefix_iter_def lk_ro_def intro: prefix_iter_spec)
next
  fix t s c
  assume "lk_ro view valid t s c"
  then show "lk_idle view valid (ro_drop (be_impl (locking_backend mjb ops)) t s) c"
    by (auto simp: locking_backend_def locking_impl_def tx_ro_drop_def drop_read_guard_def lk_defs locked_db_def)
next
  fix w s b c i k
  assume "lk_rw view valid w s b c" "i < length c"
  then show "rw_get (be_impl (locking_backend mjb ops)) w s (DbMapId i) k = Ok (bt_get (c ! i) k)"
    by (simp add: locking_backend_def locking_impl_def tx_rw_get_spec)
next
  fix w s b c i p
  assume "lk_rw view valid w s b c" "i < length c"
  then show "rw_prefix_iter (be_impl (locking_backend mjb ops)) w s (DbMapId i) p = Ok (bt_prefix p (c ! i))"
    by (simp add: locking_backend_def locking_impl_def prefix_iter_rw_spec)
next
  fix w s b c i k v
  assume rw: "lk_rw view valid w s b c" and i: "i < length c"
  note nth = lk_rw_nth [OF rw i]
  have "lk_rw view valid (snd (tx_rw_update w (DbMapId i) k (Some v))) s b (contents_put i k v c)"
    using lk_rw_update [OF rw i, of _ "bt_insert k (Some v) (maps_vec (deltas w) ! i)"] nth
    by (simp add: tx_rw_update_ok contents_put_def apply_deltas_insert)
  then show "\<exists>w' s'. rw_put (be_impl (locking_backend mjb ops)) w s (DbMapId i) k v = (Ok (), w', s') \<and>
      lk_rw view valid w' s' b (contents_put i k v c)"
    using nth by (simp add: locking_backend_def locking_impl_def tx_rw_put_def tx_rw_update_ok)
next
  fix w s b c i k
  assume rw: "lk_rw view valid w s b c" and i: "i < length c"
  note nth = lk_rw_nth [OF rw i]
  have "lk_rw view valid (snd (tx_rw_update w (DbMapId i) k None)) s b (contents_del i k c)"
    using lk_rw_update [OF rw i, of _ "bt_insert k None (maps_vec (deltas w) ! i)"] nth
    by (simp add: tx_rw_update_ok contents_del_def apply_deltas_remove)
  then show "\<exists>w' s'. rw_del (be_impl (locking_backend mjb ops)) w s (DbMapId i) k = (Ok (), w', s') \<and>
      lk_rw view valid w' s' b (contents_del i k c)"
    using nth by (simp add: locking_backend_def locking_impl_def tx_rw_del_def tx_rw_update_ok)
next
  fix w s b c
  assume "lk_rw view valid w s b c"
  then show "\<exists>s'. rw_commit (be_impl (locking_backend mjb ops)) w s = (Ok (), s') \<and> lk_idle view valid s' c"
    by (simp add: locking_backend_def locking_impl_def tx_rw_commit_spec)
next
  fix w s b c
  assume "lk_rw view valid w s b c"
  then show "lk_idle view valid (rw_drop (be_impl (locking_backend mjb ops)) w s) b"
    by (auto simp: locking_backend_def locking_impl_def tx_rw_drop_def drop_write_guard_def lk_defs locked_db_def)
qed simp_all

lemmas locking_contract = lk.backend_contract_axioms

end

end
