(* ===== verification/In_Memory.thy ===== *)
theory In_Memory
  imports Locking_Contract
begin

text \<open>
  The in-memory backend of \<open>storage/inmemory/src/lib.rs\<close>: a vector of ordered maps with the bare store
  operations, made transactional by the locking adaptor. Both contracts are established here for
  the model's own definitions.
\<close>

datatype storage_maps = StorageMaps (storage_maps_data: "(data, data) btree db_maps_data")

definition storage_maps_get :: "storage_maps \<Rightarrow> db_map_id \<Rightarrow> data \<Rightarrow> data option res" where
  "storage_maps_get self map_id key =
     o_bind (maps_index (storage_maps_data self) map_id) (\<lambda>m. Ok (bt_get m key))"

text \<open>\<open>PrefixIter\<close> copies the entries of the shared prefix iterator out one by one.\<close>

definition storage_maps_prefix_iter ::
    "storage_maps \<Rightarrow> db_map_id \<Rightarrow> data \<Rightarrow> (data \<times> data) list res" where
  "storage_maps_prefix_iter self map_id pfx =
     o_bind (maps_index (storage_maps_data self) map_id) (\<lambda>m.
       Ok (map (\<lambda>(k, v). (k, v)) (prefix_iter_collect (prefix_iter_new m pfx))))"

definition storage_maps_update ::
    "storage_maps \<Rightarrow> db_map_id \<Rightarrow> ((data, data) btree \<Rightarrow> (data, data) btree) \<Rightarrow> unit res \<times> storage_maps" where
  "storage_maps_update self map_id f =
     (case maps_index_mut (storage_maps_data self) map_id f of
        Ok d \<Rightarrow> (Ok (), StorageMaps d)
      | Err e \<Rightarrow> (Err e, self)
      | Panic m \<Rightarrow> (Panic m, self)
      | Blocked \<Rightarrow> (Blocked, self))"

definition storage_maps_put :: "storage_maps \<Rightarrow> db_map_id \<Rightarrow> data \<Rightarrow> data \<Rightarrow> unit res \<times> storage_maps" where
  "storage_maps_put self map_id key val = storage_maps_update self map_id (bt_insert key val)"

definition storage_maps_del :: "storage_maps \<Rightarrow> db_map_id \<Rightarrow> data \<Rightarrow> unit res \<times> storage_maps" where
  "storage_maps_del self map_id key = storage_maps_update self map_id (bt_remove key)"

definition storage_maps_construct :: "unit \<Rightarrow> db_desc \<Rightarrow> storage_maps res" where
  "storage_maps_construct init desc = Ok (StorageMaps (maps_transform (db_maps desc) (\<lambda>_. bt_empty)))"

definition storage_maps_ops :: "(storage_maps, unit) core_ops" where
  "storage_maps_ops =
     \<lparr>co_get = storage_maps_get,
      co_prefix_iter = storage_maps_prefix_iter,
      co_put = storage_maps_put,
      co_del = storage_maps_del,
      co_construct = storage_maps_construct\<rparr>"

section \<open>The backend\<close>

datatype in_memory = InMemory (in_memory_locking: "unit locking")

definition in_memory_new :: "in_memory" where
  "in_memory_new = InMemory (locking_new ())"

definition in_memory_default :: "in_memory" where
  "in_memory_default = in_memory_new"

definition in_memory_open :: "in_memory \<Rightarrow> db_desc \<Rightarrow> storage_maps lock_impl res" where
  "in_memory_open self desc = locking_open storage_maps_ops (in_memory_locking self) desc"

definition in_memory_backend ::
    "merge_join_by \<Rightarrow> (in_memory, storage_maps lock_impl, tx_ro, tx_rw) backend" where
  "in_memory_backend mjb = \<lparr>be_open = in_memory_open, be_impl = locking_impl mjb storage_maps_ops\<rparr>"

section \<open>The contracts\<close>

definition maps_view :: "storage_maps \<Rightarrow> contents" where
  "maps_view t = maps_vec (storage_maps_data t)"

definition maps_valid :: "storage_maps \<Rightarrow> bool" where
  "maps_valid t \<longleftrightarrow> contents_ok (maps_view t)"

lemma storage_maps_update_spec:
  assumes "maps_valid t" and "i < length (maps_view t)" and "bt_inv (f (maps_view t ! i))"
  shows "\<exists>t'. storage_maps_update t (DbMapId i) f = (Ok (), t') \<and> maps_valid t' \<and>
    maps_view t' = (maps_view t)[i := f (maps_view t ! i)]"
  using assms
  by (auto simp: storage_maps_update_def maps_index_mut_def maps_view_def maps_valid_def contents_ok_def
      list_all_length nth_list_update)

interpretation mem: core_store storage_maps_ops maps_view maps_valid
proof unfold_locales
  fix t i k v
  assume "maps_valid t" "i < length (maps_view t)"
  moreover from this have inv: "bt_inv (maps_view t ! i)"
    by (simp add: maps_valid_def contents_ok_nth)
  ultimately show "\<exists>t'. co_put storage_maps_ops t (DbMapId i) k v = (Ok (), t') \<and> maps_valid t' \<and>
      maps_view t' = contents_put i k v (maps_view t)"
    and "\<exists>t'. co_del storage_maps_ops t (DbMapId i) k = (Ok (), t') \<and> maps_valid t' \<and>
      maps_view t' = contents_del i k (maps_view t)"
    by (simp_all add: storage_maps_ops_def storage_maps_put_def storage_maps_del_def
        contents_put_def contents_del_def storage_maps_update_spec)
next
  fix t i p
  assume "maps_valid t" "i < length (maps_view t)"
  then show "co_prefix_iter storage_maps_ops t (DbMapId i) p = Ok (bt_prefix p (maps_view t ! i))"
    using contents_ok_nth [of "maps_view t" i]
    by (simp add: storage_maps_ops_def storage_maps_prefix_iter_def maps_index_def maps_view_def maps_valid_def
        prefix_iter_collect_new)
qed (auto simp: storage_maps_ops_def storage_maps_get_def storage_maps_construct_def maps_index_def
    maps_view_def maps_valid_def maps_transform_def db_maps_def desc_map_count_def maps_map_count_def
    map_replicate_const)

interpretation mem_lk: locking_adaptor storage_maps_ops maps_view maps_valid join_ref
  by unfold_locales

lemma in_memory_contract:
  assumes "merge_join mjb"
  shows "backend_contract (in_memory_backend mjb) (\<lambda>_ _. True) (\<lambda>_. True)
    (lk_idle maps_view maps_valid) (lk_ro maps_view maps_valid) (lk_rw maps_view maps_valid)"
proof -
  have "locking_adaptor storage_maps_ops maps_view maps_valid mjb"
    using mem.core_store_axioms assms by (rule locking_adaptor.intro)
  then have lk: "backend_contract (locking_backend mjb storage_maps_ops) (\<lambda>_ _. True) (\<lambda>_. True)
      (lk_idle maps_view maps_valid) (lk_ro maps_view maps_valid) (lk_rw maps_view maps_valid)"
    by (rule locking_adaptor.locking_contract)
  have "be_impl (in_memory_backend mjb) = be_impl (locking_backend mjb storage_maps_ops)"
    by (simp add: in_memory_backend_def locking_backend_def)
  moreover have "be_open (in_memory_backend mjb) cfg d =
      be_open (locking_backend mjb storage_maps_ops) (in_memory_locking cfg) d" for cfg d
    by (simp add: in_memory_backend_def locking_backend_def in_memory_open_def)
  ultimately show ?thesis
    using lk unfolding backend_contract_def by simp
qed

interpretation im: backend_contract "in_memory_backend join_ref" "\<lambda>_ _. True" "\<lambda>_. True"
  "lk_idle maps_view maps_valid" "lk_ro maps_view maps_valid" "lk_rw maps_view maps_valid"
  by (rule in_memory_contract) (rule join_ref.merge_join_axioms)

end
