(* ===== verification/Suite_Model.thy ===== *)
theory Suite_Model
  imports Backend
begin

text \<open>
  The reference model and the helpers of the backend test suite
  (\<open>storage/backend-test-suite/src/model.rs\<close> and \<open>prelude.rs\<close>), and the steps its tests are made of. A
  test is a program over the shared state of the backend: it reaches its end, or panics in an
  \<open>unwrap\<close>, an \<open>expect\<close> or an assertion. \<open>runs\<close> states that a program reaches its end, with rules
  for every step over a backend that satisfies the contract.
\<close>

section \<open>The model\<close>

datatype write_action = PutAction data data | DelAction data

fun action_map_key :: "(data \<Rightarrow> data) \<Rightarrow> write_action \<Rightarrow> write_action" where
  "action_map_key f (PutAction k v) = PutAction (f k) v"
| "action_map_key f (DelAction k) = DelAction (f k)"

fun action_key :: "write_action \<Rightarrow> data" where
  "action_key (PutAction k v) = k"
| "action_key (DelAction k) = k"

datatype model = Model (model_inner: "(data, data) btree")

definition model_new :: model where
  "model_new = Model bt_empty"

fun model_apply_action :: "write_action \<Rightarrow> model \<Rightarrow> model" where
  "model_apply_action (PutAction k v) (Model m) = Model (bt_insert k v m)"
| "model_apply_action (DelAction k) (Model m) = Model (bt_remove k m)"

fun model_extend :: "write_action list \<Rightarrow> model \<Rightarrow> model" where
  "model_extend [] m = m"
| "model_extend (a # as) m = model_extend as (model_apply_action a m)"

definition model_from_actions :: "write_action list \<Rightarrow> model" where
  "model_from_actions as = model_extend as model_new"

definition model_get :: "model \<Rightarrow> data \<Rightarrow> data option" where
  "model_get m k = bt_get (model_inner m) k"

definition model_into_inner :: "model \<Rightarrow> (data, data) btree" where
  "model_into_inner m = model_inner m"

definition model_apply_actions :: "write_action list \<Rightarrow> model \<Rightarrow> model" where
  "model_apply_actions as m = model_extend as m"

definition model_iter :: "model \<Rightarrow> (data \<times> data) list" where
  "model_iter m = map (\<lambda>(k, v). (k, v)) (model_inner m)"

definition model_into_iter :: "model \<Rightarrow> (data \<times> data) list" where
  "model_into_iter m = model_inner m"

definition model_from_iter :: "(data \<times> data) list \<Rightarrow> model" where
  "model_from_iter es = Model (bt_collect es)"

text \<open>A model survives being taken apart and collected again.\<close>

lemma model_from_into_iter:
  "bt_inv (model_inner m) \<Longrightarrow> model_from_iter (model_into_iter m) = m"
  by (simp add: model_from_iter_def model_into_iter_def)

text \<open>A database map in a transaction, collected into a model.\<close>

definition model_from_tx :: "read_ops \<Rightarrow> db_map_id \<Rightarrow> model res" where
  "model_from_tx tx map_id = o_map (\<lambda>es. Model (bt_collect es)) (o_unwrap (r_prefix_iter tx map_id []))"

section \<open>Programs\<close>

type_synonym ('s, 'a) prog = "'s \<Rightarrow> 'a res \<times> 's"

definition p_return :: "'a \<Rightarrow> ('s, 'a) prog" where
  "p_return x = (\<lambda>s. (Ok x, s))"

definition p_bind :: "('s, 'a) prog \<Rightarrow> ('a \<Rightarrow> ('s, 'b) prog) \<Rightarrow> ('s, 'b) prog" where
  "p_bind p f = (\<lambda>s.
     case p s of
       (Ok x, s') \<Rightarrow> f x s'
     | (Err e, s') \<Rightarrow> (Err e, s')
     | (Panic m, s') \<Rightarrow> (Panic m, s')
     | (Blocked, s') \<Rightarrow> (Blocked, s'))"

definition p_then :: "('s, unit) prog \<Rightarrow> ('s, 'b) prog \<Rightarrow> ('s, 'b) prog" where
  "p_then p q = p_bind p (\<lambda>_. q)"

text \<open>\<open>assert!\<close> and \<open>assert_eq!\<close>.\<close>

definition p_assert :: "bool \<Rightarrow> ('s, unit) prog" where
  "p_assert b = (\<lambda>s. (if b then Ok () else Panic ''assertion failed'', s))"

fun p_for :: "('x \<Rightarrow> 'a \<Rightarrow> ('s, 'a) prog) \<Rightarrow> 'x list \<Rightarrow> 'a \<Rightarrow> ('s, 'a) prog" where
  "p_for body [] a = p_return a"
| "p_for body (x # xs) a = p_bind (body x a) (p_for body xs)"

section \<open>Calls into the backend\<close>

definition start_rw :: "('s, 'ro, 'rw) backend_impl \<Rightarrow> ('s, 'rw) prog" where
  "start_rw I = (\<lambda>s. case transaction_rw I s None of (r, s') \<Rightarrow> (o_unwrap r, s'))"

definition start_ro :: "('s, 'ro, 'rw) backend_impl \<Rightarrow> ('s, 'ro) prog" where
  "start_ro I = (\<lambda>s. case transaction_ro I s of (r, s') \<Rightarrow> (o_unwrap r, s'))"

definition tx_put :: "('s, 'ro, 'rw) backend_impl \<Rightarrow> db_map_id \<Rightarrow> data \<Rightarrow> data \<Rightarrow> 'rw \<Rightarrow> ('s, 'rw) prog" where
  "tx_put I i k v tx = (\<lambda>s. case rw_put I tx s i k v of (r, tx', s') \<Rightarrow> (o_map (\<lambda>_. tx') (o_unwrap r), s'))"

definition tx_del :: "('s, 'ro, 'rw) backend_impl \<Rightarrow> db_map_id \<Rightarrow> data \<Rightarrow> 'rw \<Rightarrow> ('s, 'rw) prog" where
  "tx_del I i k tx = (\<lambda>s. case rw_del I tx s i k of (r, tx', s') \<Rightarrow> (o_map (\<lambda>_. tx') (o_unwrap r), s'))"

definition tx_commit :: "('s, 'ro, 'rw) backend_impl \<Rightarrow> 'rw \<Rightarrow> ('s, unit) prog" where
  "tx_commit I tx = (\<lambda>s. case rw_commit I tx s of (r, s') \<Rightarrow> (o_unwrap r, s'))"

definition drop_rw :: "('s, 'ro, 'rw) backend_impl \<Rightarrow> 'rw \<Rightarrow> ('s, unit) prog" where
  "drop_rw I tx = (\<lambda>s. (Ok (), rw_drop I tx s))"

definition drop_ro :: "('s, 'ro, 'rw) backend_impl \<Rightarrow> 'ro \<Rightarrow> ('s, unit) prog" where
  "drop_ro I tx = (\<lambda>s. (Ok (), ro_drop I tx s))"

text \<open>A read through either kind of transaction.\<close>

definition read_rw :: "('s, 'ro, 'rw) backend_impl \<Rightarrow> 'rw \<Rightarrow> (read_ops \<Rightarrow> 'a res) \<Rightarrow> ('s, 'a) prog" where
  "read_rw I tx f = (\<lambda>s. (f (rw_ops I tx s), s))"

definition read_ro :: "('s, 'ro, 'rw) backend_impl \<Rightarrow> 'ro \<Rightarrow> (read_ops \<Rightarrow> 'a res) \<Rightarrow> ('s, 'a) prog" where
  "read_ro I tx f = (\<lambda>s. (f (ro_ops I tx s), s))"

text \<open>\<open>assert_eq!(tx.get(map_id, key), ...)\<close> after unwrapping, and the same for a prefix scan.\<close>

definition check_get :: "db_map_id \<Rightarrow> data \<Rightarrow> data option \<Rightarrow> read_ops \<Rightarrow> unit res" where
  "check_get i k expected tx =
     o_bind (o_unwrap (r_get tx i k)) (\<lambda>v.
       if v = expected then Ok () else Panic ''assertion failed'')"

definition check_scan :: "db_map_id \<Rightarrow> data \<Rightarrow> ((data \<times> data) list \<Rightarrow> bool) \<Rightarrow> read_ops \<Rightarrow> unit res" where
  "check_scan i pfx P tx =
     o_bind (o_unwrap (r_prefix_iter tx i pfx)) (\<lambda>es.
       if P es then Ok () else Panic ''assertion failed'')"

section \<open>ApplyActions and Model::from_db\<close>

fun apply_action :: "('s, 'ro, 'rw) backend_impl \<Rightarrow> db_map_id \<Rightarrow> write_action \<Rightarrow> 'rw \<Rightarrow> ('s, 'rw) prog" where
  "apply_action I i (PutAction k v) tx =
     (\<lambda>s. case rw_put I tx s i k v of
        (r, tx', s') \<Rightarrow> (o_map (\<lambda>_. tx') (o_expect ''put to succeed'' r), s'))"
| "apply_action I i (DelAction k) tx =
     (\<lambda>s. case rw_del I tx s i k of
        (r, tx', s') \<Rightarrow> (o_map (\<lambda>_. tx') (o_expect ''del to succeed'' r), s'))"

definition apply_actions ::
    "('s, 'ro, 'rw) backend_impl \<Rightarrow> db_map_id \<Rightarrow> write_action list \<Rightarrow> 'rw \<Rightarrow> ('s, 'rw) prog" where
  "apply_actions I i as tx = p_for (apply_action I i) as tx"

definition model_from_db :: "('s, 'ro, 'rw) backend_impl \<Rightarrow> db_map_id \<Rightarrow> ('s, model) prog" where
  "model_from_db I i =
     p_bind (start_ro I) (\<lambda>tx.
     p_bind (read_ro I tx (\<lambda>ops. model_from_tx ops i)) (\<lambda>m.
     p_then (drop_ro I tx) (p_return m)))"

section \<open>prelude.rs\<close>

definition MAPID :: "db_map_id \<times> db_map_id" where
  "MAPID = (DbMapId 0, DbMapId 1)"

definition suite_map :: "nat \<Rightarrow> db_map_desc" where
  "suite_map i = db_map_desc_new (''map_'' @ pad_left 2 CHR ''0'' (dec_digits i))"

definition desc :: "nat \<Rightarrow> (db_desc, 'e) outcome" where
  "desc n = construct_db_desc (map suite_map [0..<n])"

text \<open>\<open>backend.open(desc(n)).expect("db open to succeed")\<close>, then the rest of the test.\<close>

definition with_store ::
    "('b, 's, 'ro, 'rw) backend \<Rightarrow> 'b \<Rightarrow> nat \<Rightarrow> ('s, 'a) prog \<Rightarrow> 'a res" where
  "with_store B cfg n body =
     o_bind (desc n) (\<lambda>d.
     o_bind (o_expect ''db open to succeed'' (be_open B cfg d)) (\<lambda>s. fst (body s)))"

definition suite_desc :: "nat \<Rightarrow> db_desc" where
  "suite_desc n = \<lparr>map_descs = DbMapsData (map suite_map [0..<n])\<rparr>"

lemma desc_name_suite_map: "desc_name (suite_map i) = ''map_'' @ pad_left 2 CHR ''0'' (dec_digits i)"
  by (simp add: suite_map_def db_map_desc_new_def new_with_details_def)

lemma suite_names_inj: "desc_name (suite_map i) = desc_name (suite_map j) \<longleftrightarrow> i = j"
proof
  assume "desc_name (suite_map i) = desc_name (suite_map j)"
  then have "pad_left 2 CHR ''0'' (dec_digits i) = pad_left 2 CHR ''0'' (dec_digits j)"
    by (simp add: desc_name_suite_map)
  then have "dec_value (pad_left 2 CHR ''0'' (dec_digits i)) = dec_value (pad_left 2 CHR ''0'' (dec_digits j))"
    by (rule arg_cong)
  then show "i = j" by (simp only: dec_value_pad)
qed simp

lemma suite_names_distinct: "distinct (map desc_name (map suite_map [0..<n]))"
  by (simp add: distinct_map inj_on_def suite_names_inj)

lemma desc_eq: "desc n = Ok (suite_desc n)"
  unfolding desc_def suite_desc_def using suite_names_distinct by (rule construct_db_desc_distinct)

lemma suite_desc_count [simp]: "count_as_usize (desc_map_count (suite_desc n)) = n"
  by (simp add: suite_desc_def desc_map_count_def maps_map_count_def)

section \<open>Reaching the end\<close>

definition runs :: "('s, 'a) prog \<Rightarrow> 's \<Rightarrow> ('a \<Rightarrow> 's \<Rightarrow> bool) \<Rightarrow> bool" where
  "runs p s Q \<longleftrightarrow> (\<exists>x s'. p s = (Ok x, s') \<and> Q x s')"

lemma runs_return: "Q x s \<Longrightarrow> runs (p_return x) s Q"
  by (simp add: runs_def p_return_def)

lemma runs_bind: "runs p s (\<lambda>x s'. runs (f x) s' Q) \<Longrightarrow> runs (p_bind p f) s Q"
  by (auto simp: runs_def p_bind_def)

lemma runs_then: "runs p s (\<lambda>_ s'. runs q s' Q) \<Longrightarrow> runs (p_then p q) s Q"
  by (auto simp: p_then_def intro: runs_bind)

lemma runs_assert: "b \<Longrightarrow> Q () s \<Longrightarrow> runs (p_assert b) s Q"
  by (simp add: runs_def p_assert_def)

lemma runs_mono: "runs p s P \<Longrightarrow> (\<And>x s'. P x s' \<Longrightarrow> Q x s') \<Longrightarrow> runs p s Q"
  by (auto simp: runs_def)

lemma runs_for:
  assumes "J xs a s" and "\<And>x xs a s. J (x # xs) a s \<Longrightarrow> runs (body x a) s (J xs)"
    and "\<And>a s. J [] a s \<Longrightarrow> Q a s"
  shows "runs (p_for body xs a) s Q"
  using assms(1)
proof (induction xs arbitrary: a s)
  case Nil
  then show ?case by (auto intro: runs_return assms(3))
next
  case (Cons x xs)
  from assms(2) [OF Cons.prems] have "runs (body x a) s (\<lambda>a s. runs (p_for body xs a) s Q)"
    by (rule runs_mono) (rule Cons.IH)
  then show ?case by (auto intro: runs_bind)
qed

lemma check_get_Ok:
  assumes "reads key_ok ops c" and "i < length c" and "key_ok k" and "bt_get (c ! i) k = v"
  shows "check_get (DbMapId i) k v ops = Ok ()"
  using assms by (simp add: check_get_def reads_def)

lemma check_scan_Ok:
  assumes "reads key_ok ops c" and "i < length c" and "P (bt_prefix p (c ! i))"
  shows "check_scan (DbMapId i) p P ops = Ok ()"
  using assms by (simp add: check_scan_def reads_def)

lemma model_from_tx_Ok:
  assumes "reads key_ok ops c" and "i < length c"
  shows "model_from_tx ops (DbMapId i) = Ok (Model (c ! i))"
  using assms contents_ok_nth [of c i] by (simp add: model_from_tx_def reads_def)

definition contents_apply :: "nat \<Rightarrow> write_action list \<Rightarrow> contents \<Rightarrow> contents" where
  "contents_apply i as c = c[i := model_inner (model_extend as (Model (c ! i)))]"

lemma length_contents_apply [simp]: "length (contents_apply i as c) = length c"
  by (simp add: contents_apply_def)

lemma nth_contents_apply [simp]:
  "i < length c \<Longrightarrow> contents_apply i as c ! j =
     (if i = j then model_inner (model_extend as (Model (c ! i))) else c ! j)"
  by (simp add: contents_apply_def)

lemma model_apply_action_inner:
  "i < length c \<Longrightarrow> contents_apply i (a # as) c = contents_apply i as (contents_apply i [a] c)"
  by (simp add: contents_apply_def)

context backend_contract
begin

lemma reads_ro: "ro_open t s c \<Longrightarrow> contents_ok c \<Longrightarrow> reads key_ok (ro_ops (be_impl B) t s) c"
  by (simp add: reads_def ro_ops_def ro_get_spec ro_iter_spec)

lemma reads_rw: "rw_open w s b c \<Longrightarrow> reads key_ok (rw_ops (be_impl B) w s) c"
  by (simp add: reads_def rw_ops_def rw_get_spec rw_iter_spec rw_open_ok)

lemma runs_start_rw:
  assumes "idle s c" and "\<And>tx s'. rw_open tx s' c c \<Longrightarrow> Q tx s'"
  shows "runs (start_rw (be_impl B)) s Q"
  using begin_rw_spec [OF assms(1), of None] assms(2) by (auto simp: runs_def start_rw_def)

lemma runs_start_ro:
  assumes "idle s c" and "\<And>tx s'. ro_open tx s' c \<Longrightarrow> contents_ok c \<Longrightarrow> Q tx s'"
  shows "runs (start_ro (be_impl B)) s Q"
  using begin_ro_spec [OF assms(1)] idle_ok [OF assms(1)] assms(2) by (auto simp: runs_def start_ro_def)

lemma runs_tx_put:
  assumes "rw_open tx s b c" and "i < length c" and "key_ok k"
    and "\<And>tx' s'. rw_open tx' s' b (contents_put i k v c) \<Longrightarrow> Q tx' s'"
  shows "runs (tx_put (be_impl B) (DbMapId i) k v tx) s Q"
  using rw_put_spec [OF assms(1-3), of v] assms(4) by (auto simp: runs_def tx_put_def)

lemma runs_tx_del:
  assumes "rw_open tx s b c" and "i < length c" and "key_ok k"
    and "\<And>tx' s'. rw_open tx' s' b (contents_del i k c) \<Longrightarrow> Q tx' s'"
  shows "runs (tx_del (be_impl B) (DbMapId i) k tx) s Q"
  using rw_del_spec [OF assms(1-3)] assms(4) by (auto simp: runs_def tx_del_def)

lemma runs_tx_commit:
  assumes "rw_open tx s b c" and "\<And>s'. idle s' c \<Longrightarrow> Q () s'"
  shows "runs (tx_commit (be_impl B) tx) s Q"
  using rw_commit_spec [OF assms(1)] assms(2) by (auto simp: runs_def tx_commit_def)

lemma runs_drop_rw:
  assumes "rw_open tx s b c" and "\<And>s'. idle s' b \<Longrightarrow> Q () s'"
  shows "runs (drop_rw (be_impl B) tx) s Q"
  using rw_drop_spec [OF assms(1)] assms(2) by (auto simp: runs_def drop_rw_def)

lemma runs_drop_ro:
  assumes "ro_open tx s c" and "\<And>s'. idle s' c \<Longrightarrow> Q () s'"
  shows "runs (drop_ro (be_impl B) tx) s Q"
  using ro_drop_spec [OF assms(1)] assms(2) by (auto simp: runs_def drop_ro_def)

lemma runs_read_rw:
  assumes "rw_open tx s b c" and "\<And>ops. reads key_ok ops c \<Longrightarrow> f ops = Ok x" and "Q x s"
  shows "runs (read_rw (be_impl B) tx f) s Q"
  using assms(2) [OF reads_rw [OF assms(1)]] assms(3) by (auto simp: runs_def read_rw_def)

lemma runs_read_ro:
  assumes "ro_open tx s c" and "contents_ok c" and "\<And>ops. reads key_ok ops c \<Longrightarrow> f ops = Ok x" and "Q x s"
  shows "runs (read_ro (be_impl B) tx f) s Q"
  using assms(3) [OF reads_ro [OF assms(1,2)]] assms(4) by (auto simp: runs_def read_ro_def)

lemma runs_apply_action:
  assumes "rw_open tx s b c" and "i < length c" and "key_ok (action_key a)"
    and "\<And>tx' s'. rw_open tx' s' b (contents_apply i [a] c) \<Longrightarrow> Q tx' s'"
  shows "runs (apply_action (be_impl B) (DbMapId i) a tx) s Q"
proof (cases a)
  case (PutAction k v)
  with rw_put_spec [OF assms(1,2), of k v] assms(3,4) show ?thesis
    by (auto simp: runs_def contents_apply_def contents_put_def)
next
  case (DelAction k)
  with rw_del_spec [OF assms(1,2), of k] assms(3,4) show ?thesis
    by (auto simp: runs_def contents_apply_def contents_del_def)
qed

lemma runs_apply_actions:
  assumes "rw_open tx s b c" and "i < length c" and "\<forall>a \<in> set as. key_ok (action_key a)"
    and "\<And>tx' s'. rw_open tx' s' b (contents_apply i as c) \<Longrightarrow> Q tx' s'"
  shows "runs (apply_actions (be_impl B) (DbMapId i) as tx) s Q"
  unfolding apply_actions_def
proof (rule runs_for [where J = "\<lambda>rest tx s. \<exists>c'. rw_open tx s b c' \<and> i < length c' \<and>
      (\<forall>a \<in> set rest. key_ok (action_key a)) \<and> contents_apply i rest c' = contents_apply i as c"])
  show "\<exists>c'. rw_open tx s b c' \<and> i < length c' \<and> (\<forall>a \<in> set as. key_ok (action_key a)) \<and>
      contents_apply i as c' = contents_apply i as c"
    using assms by blast
next
  fix a rest tx s
  assume "\<exists>c'. rw_open tx s b c' \<and> i < length c' \<and> (\<forall>x \<in> set (a # rest). key_ok (action_key x)) \<and>
      contents_apply i (a # rest) c' = contents_apply i as c"
  then obtain c' where c': "rw_open tx s b c'" "i < length c'" "key_ok (action_key a)"
    "\<forall>x \<in> set rest. key_ok (action_key x)" "contents_apply i (a # rest) c' = contents_apply i as c" by auto
  have next_c: "contents_apply i rest (contents_apply i [a] c') = contents_apply i as c"
    using model_apply_action_inner [OF c'(2), of a rest] c'(5) by (rule trans [OF sym])
  show "runs (apply_action (be_impl B) (DbMapId i) a tx) s (\<lambda>tx s. \<exists>c'. rw_open tx s b c' \<and> i < length c' \<and>
      (\<forall>a \<in> set rest. key_ok (action_key a)) \<and> contents_apply i rest c' = contents_apply i as c)"
    using c'(1-3)
  proof (rule runs_apply_action)
    fix tx' s' assume "rw_open tx' s' b (contents_apply i [a] c')"
    then show "\<exists>c'. rw_open tx' s' b c' \<and> i < length c' \<and> (\<forall>a \<in> set rest. key_ok (action_key a)) \<and>
        contents_apply i rest c' = contents_apply i as c"
      using c'(2,4) next_c by (intro exI [of _ "contents_apply i [a] c'"]) simp
  qed
next
  fix tx s
  assume "\<exists>c'. rw_open tx s b c' \<and> i < length c' \<and> (\<forall>a \<in> set []. key_ok (action_key a)) \<and>
      contents_apply i [] c' = contents_apply i as c"
  then show "Q tx s" using assms(4) by (auto simp: contents_apply_def)
qed

lemma runs_model_from_db:
  assumes "idle s c" and "i < length c" and "\<And>s'. idle s' c \<Longrightarrow> Q (Model (c ! i)) s'"
  shows "runs (model_from_db (be_impl B) (DbMapId i)) s Q"
  unfolding model_from_db_def
  using assms
  by (auto intro!: runs_bind runs_then runs_return runs_start_ro [OF assms(1)] runs_read_ro runs_drop_ro
      model_from_tx_Ok)

lemma with_store_Ok:
  assumes "cfg_ok cfg (suite_desc n)"
    and "\<And>s. idle s (empty_contents n) \<Longrightarrow> runs body s (\<lambda>_ _. True)"
  shows "\<exists>x. with_store B cfg n body = Ok x"
proof -
  have "distinct (map desc_name (maps_vec (map_descs (suite_desc n))))"
    using suite_names_distinct [of n] by (simp add: suite_desc_def)
  from open_spec [OF assms(1) this] obtain s where
    s: "be_open B cfg (suite_desc n) = Ok s" "idle s (empty_contents n)" by auto
  from assms(2) [OF s(2)] obtain x s' where "body s = (Ok x, s')" by (auto simp: runs_def)
  with s(1) show ?thesis by (simp add: with_store_def desc_eq)
qed

end

end
