(* ===== verification/Suite_Basic.thy ===== *)
theory Suite_Basic
  imports Suite_Model
begin

text \<open>
  The basic tests of the backend test suite (\<open>storage/backend-test-suite/src/basic.rs\<close>), as programs over
  an arbitrary backend: every one reaches its end over a backend that satisfies the contract.
\<close>

section \<open>The tests\<close>

definition put_and_commit :: "('b, 's, 'ro, 'rw) backend \<Rightarrow> 'b \<Rightarrow> unit res" where
  "put_and_commit B cfg = (let I = be_impl B in with_store B cfg 1 (
     p_bind (start_rw I) (\<lambda>tx.
     p_bind (tx_put I (fst MAPID) (bytes ''hello'') (bytes ''world'') tx) (\<lambda>tx.
     p_then (tx_commit I tx) (
     p_bind (start_ro I) (\<lambda>tx.
     p_then (read_ro I tx (check_get (fst MAPID) (bytes ''hello'') (Some (bytes ''world'')))) (
     drop_ro I tx)))))))"

definition put_and_abort :: "('b, 's, 'ro, 'rw) backend \<Rightarrow> 'b \<Rightarrow> unit res" where
  "put_and_abort B cfg = (let I = be_impl B in with_store B cfg 1 (
     p_bind (start_rw I) (\<lambda>tx.
     p_bind (tx_put I (fst MAPID) (bytes ''hello'') (bytes ''world'') tx) (\<lambda>tx.
     p_then (drop_rw I tx) (
     p_bind (start_ro I) (\<lambda>tx.
     p_then (read_ro I tx (check_get (fst MAPID) (bytes ''hello'') None)) (
     drop_ro I tx)))))))"

definition put_two_under_different_keys :: "('b, 's, 'ro, 'rw) backend \<Rightarrow> 'b \<Rightarrow> unit res" where
  "put_two_under_different_keys B cfg = (let I = be_impl B in with_store B cfg 1 (
     p_bind (start_rw I) (\<lambda>tx.
     p_bind (tx_put I (fst MAPID) (bytes ''a'') (bytes ''0'') tx) (\<lambda>tx.
     p_bind (tx_put I (fst MAPID) (bytes ''b'') (bytes ''1'') tx) (\<lambda>tx.
     p_then (tx_commit I tx) (
     p_bind (start_ro I) (\<lambda>tx.
     p_then (read_ro I tx (check_get (fst MAPID) (bytes ''a'') (Some (bytes ''0'')))) (
     p_then (read_ro I tx (check_get (fst MAPID) (bytes ''b'') (Some (bytes ''1'')))) (
     p_then (drop_ro I tx) (
     p_bind (start_rw I) (\<lambda>tx.
     p_bind (tx_put I (fst MAPID) (bytes ''a'') (bytes ''00'') tx) (\<lambda>tx.
     p_bind (tx_put I (fst MAPID) (bytes ''b'') (bytes ''11'') tx) (\<lambda>tx.
     p_then (drop_rw I tx) (
     p_bind (start_ro I) (\<lambda>tx.
     p_then (read_ro I tx (check_get (fst MAPID) (bytes ''a'') (Some (bytes ''0'')))) (
     p_then (read_ro I tx (check_get (fst MAPID) (bytes ''b'') (Some (bytes ''1'')))) (
     drop_ro I tx)))))))))))))))))"

definition put_twice_then_commit_read_last :: "('b, 's, 'ro, 'rw) backend \<Rightarrow> 'b \<Rightarrow> unit res" where
  "put_twice_then_commit_read_last B cfg = (let I = be_impl B in with_store B cfg 1 (
     p_bind (start_rw I) (\<lambda>tx.
     p_bind (tx_put I (fst MAPID) (bytes ''hello'') (bytes ''a'') tx) (\<lambda>tx.
     p_then (read_rw I tx (check_get (fst MAPID) (bytes ''hello'') (Some (bytes ''a'')))) (
     p_bind (tx_put I (fst MAPID) (bytes ''hello'') (bytes ''b'') tx) (\<lambda>tx.
     p_then (read_rw I tx (check_get (fst MAPID) (bytes ''hello'') (Some (bytes ''b'')))) (
     p_then (tx_commit I tx) (
     p_bind (start_ro I) (\<lambda>tx.
     p_then (read_ro I tx (check_get (fst MAPID) (bytes ''hello'') (Some (bytes ''b'')))) (
     drop_ro I tx))))))))))"

definition put_iterator_count_matches :: "('b, 's, 'ro, 'rw) backend \<Rightarrow> 'b \<Rightarrow> unit res" where
  "put_iterator_count_matches B cfg = (let I = be_impl B in with_store B cfg 1 (
     p_bind (start_rw I) (\<lambda>tx.
     p_bind (tx_put I (fst MAPID) [0x00] [] tx) (\<lambda>tx.
     p_bind (tx_put I (fst MAPID) [0x01] [] tx) (\<lambda>tx.
     p_bind (tx_put I (fst MAPID) [0x02] [] tx) (\<lambda>tx.
     p_bind (tx_put I (fst MAPID) [0x03] [] tx) (\<lambda>tx.
     p_then (tx_commit I tx) (
     p_bind (start_ro I) (\<lambda>tx.
     p_then (read_ro I tx (check_scan (fst MAPID) [] (\<lambda>es. length es = 4))) (
     drop_ro I tx))))))))))"

text \<open>The closure \<open>check\<close>: the values under a prefix are the decimal numbers of a range.\<close>

definition check_range :: "('s, 'ro, 'rw) backend_impl \<Rightarrow> nat list \<Rightarrow> data \<Rightarrow> ('s, unit) prog" where
  "check_range I rng pfx =
     p_bind (start_ro I) (\<lambda>tx.
     p_then (read_ro I tx (check_scan (fst MAPID) pfx (\<lambda>es. map snd es = map (\<lambda>x. bytes (dec_digits x)) rng)))
       (drop_ro I tx))"

definition prefix_entries :: "(data \<times> data) list" where
  "prefix_entries =
     [(bytes ''ac'', bytes ''2''), (bytes ''bf'', bytes ''7''), (bytes ''ab'', bytes ''1''),
      (bytes ''aca'', bytes ''3''), (bytes ''bz'', bytes ''8''), (bytes ''x'', bytes ''9''),
      (bytes ''bb'', bytes ''6''), (bytes ''b'', bytes ''5''), (bytes ''acb'', bytes ''4''),
      (bytes ''aa'', bytes ''0'')]"

definition put_and_iterate_over_prefixes :: "('b, 's, 'ro, 'rw) backend \<Rightarrow> 'b \<Rightarrow> unit res" where
  "put_and_iterate_over_prefixes B cfg = (let I = be_impl B in with_store B cfg 1 (
     p_bind (start_rw I) (\<lambda>tx.
     p_bind (p_for (\<lambda>(k, v). tx_put I (fst MAPID) k v) prefix_entries tx) (\<lambda>tx.
     p_then (tx_commit I tx) (
     p_bind (start_ro I) (\<lambda>tx.
     p_then (read_ro I tx (check_scan (fst MAPID) (bytes ''foo'') (\<lambda>es. es = []))) (
     p_then (drop_ro I tx) (
     p_then (check_range I [0..<10] (bytes '''')) (
     p_then (check_range I [0..<5] (bytes ''a'')) (
     p_then (check_range I [0..<1] (bytes ''aa'')) (
     p_then (check_range I [2..<5] (bytes ''ac'')) (
     p_then (check_range I [5..<9] (bytes ''b'')) (
     check_range I [9..<10] (bytes ''x''))))))))))))))"

definition check_prefix :: "data \<Rightarrow> (string \<times> string) list \<Rightarrow> read_ops \<Rightarrow> unit res" where
  "check_prefix pfx expected =
     check_scan (fst MAPID) pfx (\<lambda>entries. entries = map (\<lambda>(x, y). (bytes x, bytes y)) expected)"

definition check_three ::
    "(string \<times> string) list \<Rightarrow> (string \<times> string) list \<Rightarrow> (string \<times> string) list \<Rightarrow> read_ops \<Rightarrow> unit res" where
  "check_three full aa ac ops =
     o_bind (check_prefix (bytes '''') full ops) (\<lambda>_.
     o_bind (check_prefix (bytes ''aa'') aa ops) (\<lambda>_.
     check_prefix (bytes ''ac'') ac ops))"

definition expected_full_0 :: "(string \<times> string) list" where
  "expected_full_0 =
     [(''aa'', ''0''), (''ab'', ''1''), (''ac'', ''2''), (''aca'', ''3''), (''acb'', ''4''), (''b'', ''5'')]"

definition expected_full_1 :: "(string \<times> string) list" where
  "expected_full_1 = [(''aa'', ''0''), (''ac'', ''2''), (''acb'', ''4''), (''b'', ''5'')]"

definition check_three_0 :: "read_ops \<Rightarrow> unit res" where
  "check_three_0 = check_three expected_full_0 [(''aa'', ''0'')]
     [(''ac'', ''2''), (''aca'', ''3''), (''acb'', ''4'')]"

definition check_three_1 :: "read_ops \<Rightarrow> unit res" where
  "check_three_1 = check_three expected_full_1 [(''aa'', ''0'')] [(''ac'', ''2''), (''acb'', ''4'')]"

definition put_and_iterate_delete_some :: "('b, 's, 'ro, 'rw) backend \<Rightarrow> 'b \<Rightarrow> unit res" where
  "put_and_iterate_delete_some B cfg = (let I = be_impl B in with_store B cfg 1 (
     p_bind (start_rw I) (\<lambda>tx.
     p_bind (p_for (\<lambda>(k, v). tx_put I (fst MAPID) (bytes k) (bytes v)) expected_full_0 tx) (\<lambda>tx.
     p_then (read_rw I tx check_three_0) (
     p_then (tx_commit I tx) (
     p_bind (start_ro I) (\<lambda>tx.
     p_then (read_ro I tx check_three_0) (
     p_then (drop_ro I tx) (
     p_bind (start_rw I) (\<lambda>tx.
     p_bind (tx_del I (fst MAPID) (bytes ''aca'') tx) (\<lambda>tx.
     p_bind (tx_del I (fst MAPID) (bytes ''ab'') tx) (\<lambda>tx.
     p_then (read_rw I tx check_three_1) (
     p_then (drop_rw I tx) (
     p_bind (start_ro I) (\<lambda>tx.
     p_then (read_ro I tx check_three_0) (
     p_then (drop_ro I tx) (
     p_bind (start_rw I) (\<lambda>tx.
     p_bind (tx_del I (fst MAPID) (bytes ''aca'') tx) (\<lambda>tx.
     p_bind (tx_del I (fst MAPID) (bytes ''ab'') tx) (\<lambda>tx.
     p_then (read_rw I tx check_three_1) (
     p_then (tx_commit I tx) (
     p_bind (start_ro I) (\<lambda>tx.
     p_then (read_ro I tx check_three_1) (
     drop_ro I tx))))))))))))))))))))))))"

definition basic_tests :: "(('b, 's, 'ro, 'rw) backend \<Rightarrow> 'b \<Rightarrow> unit res) list" where
  "basic_tests =
     [put_and_abort, put_and_commit, put_and_iterate_delete_some, put_and_iterate_over_prefixes,
      put_iterator_count_matches, put_twice_then_commit_read_last, put_two_under_different_keys]"

section \<open>They reach their end\<close>

lemma MAPID_simps [simp]: "fst MAPID = DbMapId 0" "snd MAPID = DbMapId 1"
  by (simp_all add: MAPID_def)

lemma bytes_simps [simp]: "bytes [] = []" "bytes (c # s) = of_char c # bytes s"
  by (simp_all add: bytes_def)

lemma of_char_char_of_nat: "(of_char (char_of (n :: nat) :: char) :: byte) = of_nat (n mod 256)"
  by (metis of_char_of of_nat_of_char)

context backend_contract
begin

lemma runs_check_get_ro:
  assumes "ro_open tx s c" and "contents_ok c" and "i < length c" and "key_ok k"
    and "bt_get (c ! i) k = v" and "Q () s"
  shows "runs (read_ro (be_impl B) tx (check_get (DbMapId i) k v)) s Q"
proof (rule runs_read_ro [OF assms(1,2)])
  show "check_get (DbMapId i) k v ops = Ok ()" if "reads key_ok ops c" for ops
    using that assms by (simp add: check_get_Ok)
qed (rule assms)

lemma runs_check_get_rw:
  assumes "rw_open tx s b c" and "i < length c" and "key_ok k" and "bt_get (c ! i) k = v" and "Q () s"
  shows "runs (read_rw (be_impl B) tx (check_get (DbMapId i) k v)) s Q"
proof (rule runs_read_rw [OF assms(1)])
  show "check_get (DbMapId i) k v ops = Ok ()" if "reads key_ok ops c" for ops
    using that assms by (simp add: check_get_Ok)
qed (rule assms)

lemma runs_check_scan_ro:
  assumes "ro_open tx s c" and "contents_ok c" and "i < length c" and "P (bt_prefix p (c ! i))" and "Q () s"
  shows "runs (read_ro (be_impl B) tx (check_scan (DbMapId i) p P)) s Q"
proof (rule runs_read_ro [OF assms(1,2)])
  show "check_scan (DbMapId i) p P ops = Ok ()" if "reads key_ok ops c" for ops
    using that assms by (simp add: check_scan_Ok)
qed (rule assms)

lemma runs_check_scan_rw:
  assumes "rw_open tx s b c" and "i < length c" and "P (bt_prefix p (c ! i))" and "Q () s"
  shows "runs (read_rw (be_impl B) tx (check_scan (DbMapId i) p P)) s Q"
proof (rule runs_read_rw [OF assms(1)])
  show "check_scan (DbMapId i) p P ops = Ok ()" if "reads key_ok ops c" for ops
    using that assms by (simp add: check_scan_Ok)
qed (rule assms)

lemmas runs_steps = runs_bind runs_then runs_return runs_start_rw runs_start_ro runs_tx_put runs_tx_del
  runs_tx_commit runs_drop_rw runs_drop_ro runs_check_get_ro runs_check_get_rw runs_check_scan_ro
  runs_check_scan_rw

lemma short_key_ok: "k \<noteq> [] \<Longrightarrow> length k \<le> 5 \<Longrightarrow> key_ok k"
  by (rule key_ok_length) (simp_all add: Suc_le_eq)

lemma put_and_commit_Ok:
  assumes "cfg_ok cfg (suite_desc 1)"
  shows "\<exists>x. put_and_commit B cfg = Ok x"
  unfolding put_and_commit_def Let_def MAPID_simps
  by (rule with_store_Ok, rule assms)
    (assumption | rule runs_steps | simp add: short_key_ok btree_simps)+

lemma put_and_abort_Ok:
  assumes "cfg_ok cfg (suite_desc 1)"
  shows "\<exists>x. put_and_abort B cfg = Ok x"
  unfolding put_and_abort_def Let_def MAPID_simps
  by (rule with_store_Ok, rule assms)
    (assumption | rule runs_steps | simp add: short_key_ok btree_simps)+

lemma put_two_under_different_keys_Ok:
  assumes "cfg_ok cfg (suite_desc 1)"
  shows "\<exists>x. put_two_under_different_keys B cfg = Ok x"
  unfolding put_two_under_different_keys_def Let_def MAPID_simps
  by (rule with_store_Ok, rule assms)
    (assumption | rule runs_steps | simp add: short_key_ok btree_simps)+

lemma put_twice_then_commit_read_last_Ok:
  assumes "cfg_ok cfg (suite_desc 1)"
  shows "\<exists>x. put_twice_then_commit_read_last B cfg = Ok x"
  unfolding put_twice_then_commit_read_last_def Let_def MAPID_simps
  by (rule with_store_Ok, rule assms)
    (assumption | rule runs_steps | simp add: short_key_ok btree_simps)+

lemma put_iterator_count_matches_Ok:
  assumes "cfg_ok cfg (suite_desc 1)"
  shows "\<exists>x. put_iterator_count_matches B cfg = Ok x"
  unfolding put_iterator_count_matches_def Let_def MAPID_simps
  by (rule with_store_Ok, rule assms)
    (assumption | rule runs_steps | simp add: short_key_ok bt_empty_def)+

lemma put_and_iterate_over_prefixes_Ok:
  assumes "cfg_ok cfg (suite_desc 1)"
  shows "\<exists>x. put_and_iterate_over_prefixes B cfg = Ok x"
  unfolding put_and_iterate_over_prefixes_def Let_def MAPID_simps prefix_entries_def p_for.simps prod.case
    check_range_def
  by (rule with_store_Ok, rule assms)
    (assumption | rule runs_steps | simp add: short_key_ok bt_empty_def bt_prefix_def upt_conv_Cons dec_digits.simps
      of_char_char_of_nat)+

lemma runs_read_ro_seq:
  assumes "ro_open tx s c" and "contents_ok c" and "\<And>ops. reads key_ok ops c \<Longrightarrow> f ops = Ok ()" and "Q () s"
  shows "runs (read_ro (be_impl B) tx f) s Q"
  using assms by (rule runs_read_ro)

lemma runs_read_rw_seq:
  assumes "rw_open tx s b c" and "\<And>ops. reads key_ok ops c \<Longrightarrow> f ops = Ok ()" and "Q () s"
  shows "runs (read_rw (be_impl B) tx f) s Q"
  using assms by (rule runs_read_rw)

lemma check_three_Ok:
  assumes "reads key_ok ops c" and "0 < length c"
    and "bt_prefix [] (c ! 0) = map (\<lambda>(x, y). (bytes x, bytes y)) full"
    and "bt_prefix (bytes ''aa'') (c ! 0) = map (\<lambda>(x, y). (bytes x, bytes y)) aa"
    and "bt_prefix (bytes ''ac'') (c ! 0) = map (\<lambda>(x, y). (bytes x, bytes y)) ac"
  shows "check_three full aa ac ops = Ok ()"
  using check_scan_Ok [OF assms(1,2)] assms(3-5) by (simp add: check_three_def check_prefix_def)

lemma put_and_iterate_delete_some_Ok:
  assumes "cfg_ok cfg (suite_desc 1)"
  shows "\<exists>x. put_and_iterate_delete_some B cfg = Ok x"
  unfolding put_and_iterate_delete_some_def Let_def MAPID_simps expected_full_0_def p_for.simps prod.case
  by (rule with_store_Ok, rule assms)
    (assumption | rule runs_steps runs_read_ro_seq runs_read_rw_seq
      | (simp only: check_three_0_def check_three_1_def expected_full_0_def expected_full_1_def; erule check_three_Ok)
      | simp add: short_key_ok bt_empty_def bt_prefix_def)+

lemma basic_tests_Ok:
  assumes "cfg_ok cfg (suite_desc 1)"
  shows "\<forall>t \<in> set basic_tests. t B cfg = Ok ()"
  using put_and_abort_Ok [OF assms] put_and_commit_Ok [OF assms] put_and_iterate_delete_some_Ok [OF assms]
    put_and_iterate_over_prefixes_Ok [OF assms] put_iterator_count_matches_Ok [OF assms]
    put_twice_then_commit_read_last_Ok [OF assms] put_two_under_different_keys_Ok [OF assms]
  by (simp add: basic_tests_def)

end

end
