(* ===== verification/Suite_Property.thy ===== *)
theory Suite_Property
  imports Suite_Basic "HOL-Library.Product_Lexorder"
begin

text \<open>
  The property-based tests of the backend test suite
  (\<open>storage/backend-test-suite/src/property.rs\<close>). Each test takes a generated value; the generators are
  predicates that say which values can be drawn. Every test reaches its end on every such value, over
  every backend that satisfies the contract.
\<close>

section \<open>Generators\<close>

fun hex_digits :: "nat \<Rightarrow> string" where
  "hex_digits n =
     (if n < 16 then [char_of (if n < 10 then 48 + n else 87 + n)]
      else hex_digits (n div 16) @ [char_of (if n mod 16 < 10 then 48 + n mod 16 else 87 + n mod 16)])"

declare hex_digits.simps [simp del]

type_synonym entries = "(db_map_id \<times> data, data) btree"

definition gen_map_id :: "nat \<Rightarrow> db_map_id \<Rightarrow> bool" where
  "gen_map_id num_dbs i \<longleftrightarrow> as_usize i < num_dbs"

definition gen_key :: "nat \<Rightarrow> data \<Rightarrow> bool" where
  "gen_key key_cardinality k \<longleftrightarrow> (\<exists>x < key_cardinality. k = bytes (hex_digits x))"

definition gen_big_key :: "data \<Rightarrow> bool" where
  "gen_big_key k \<longleftrightarrow> 1 \<le> length k \<and> length k < 512"

definition gen_entries :: "nat \<Rightarrow> nat \<Rightarrow> entries \<Rightarrow> bool" where
  "gen_entries num_dbs num_entries es \<longleftrightarrow>
     bt_inv es \<and> length es < num_entries \<and>
     (\<forall>((i, k), v) \<in> set es. gen_map_id num_dbs i \<and> gen_big_key k)"

definition gen_action :: "nat \<Rightarrow> write_action \<Rightarrow> bool" where
  "gen_action key_cardinality a \<longleftrightarrow> gen_key key_cardinality (action_key a)"

definition gen_actions :: "nat \<Rightarrow> nat \<Rightarrow> write_action list \<Rightarrow> bool" where
  "gen_actions key_cardinality count as \<longleftrightarrow> length as < count \<and> (\<forall>a \<in> set as. gen_action key_cardinality a)"

section \<open>The tests\<close>

definition overwrite_and_abort :: "('b, 's, 'ro, 'rw) backend \<Rightarrow> 'b \<Rightarrow> data \<times> data \<times> data \<Rightarrow> unit res" where
  "overwrite_and_abort B cfg = (\<lambda>(key, val0, val1). let I = be_impl B in with_store B cfg 1 (
     p_bind (start_ro I) (\<lambda>tx.
     p_then (read_ro I tx (check_get (fst MAPID) key None)) (
     p_then (drop_ro I tx) (
     p_bind (start_rw I) (\<lambda>tx.
     p_bind (tx_put I (fst MAPID) key val0 tx) (\<lambda>tx.
     p_then (tx_commit I tx) (
     p_bind (start_ro I) (\<lambda>tx.
     p_then (read_ro I tx (check_get (fst MAPID) key (Some val0))) (
     p_then (drop_ro I tx) (
     p_bind (start_rw I) (\<lambda>tx.
     p_bind (tx_put I (fst MAPID) key val1 tx) (\<lambda>tx.
     p_then (drop_rw I tx) (
     p_bind (start_ro I) (\<lambda>tx.
     p_then (read_ro I tx (check_get (fst MAPID) key (Some val0))) (
     p_then (drop_ro I tx) (
     p_bind (start_rw I) (\<lambda>tx.
     p_bind (tx_put I (fst MAPID) key val1 tx) (\<lambda>tx.
     p_then (tx_commit I tx) (
     p_bind (start_ro I) (\<lambda>tx.
     p_then (read_ro I tx (check_get (fst MAPID) key (Some val1))) (
     drop_ro I tx))))))))))))))))))))))"

definition put_entries :: "('s, 'ro, 'rw) backend_impl \<Rightarrow> ((db_map_id \<times> data) \<times> data) list \<Rightarrow> 'rw \<Rightarrow> ('s, 'rw) prog" where
  "put_entries I = p_for (\<lambda>((db, key), val). tx_put I db key val)"

definition del_keys :: "('s, 'ro, 'rw) backend_impl \<Rightarrow> (db_map_id \<times> data) list \<Rightarrow> 'rw \<Rightarrow> ('s, 'rw) prog" where
  "del_keys I = p_for (\<lambda>(db, key). tx_del I db key)"

definition check_gets ::
    "('s, 'ro, 'rw) backend_impl \<Rightarrow> 'ro \<Rightarrow> ((db_map_id \<times> data) \<times> data option) list \<Rightarrow> ('s, unit) prog" where
  "check_gets I tx es =
     p_for (\<lambda>((db, key), expected) _. read_ro I tx (check_get db key expected)) es ()"

definition add_and_delete :: "('b, 's, 'ro, 'rw) backend \<Rightarrow> 'b \<Rightarrow> entries \<Rightarrow> unit res" where
  "add_and_delete B cfg entries = (let I = be_impl B in with_store B cfg 5 (
     p_bind (start_rw I) (\<lambda>tx.
     p_bind (put_entries I entries tx) (\<lambda>tx.
     p_then (tx_commit I tx) (
     p_bind (start_ro I) (\<lambda>tx.
     p_then (check_gets I tx (map (\<lambda>(e, val). (e, Some val)) entries)) (
     p_then (drop_ro I tx) (
     p_bind (start_rw I) (\<lambda>tx.
     p_bind (del_keys I (map fst entries) tx) (\<lambda>tx.
     p_then (tx_commit I tx) (
     p_bind (start_ro I) (\<lambda>tx.
     p_then (check_gets I tx (map (\<lambda>(e, val). (e, None)) entries)) (
     drop_ro I tx)))))))))))))"

definition last_write_wins :: "('b, 's, 'ro, 'rw) backend \<Rightarrow> 'b \<Rightarrow> data \<times> data list \<Rightarrow> unit res" where
  "last_write_wins B cfg = (\<lambda>(key, vals). let I = be_impl B in with_store B cfg 1 (
     let last_val = (if vals = [] then None else Some (last vals)) in
     p_bind (start_rw I) (\<lambda>tx.
     p_bind (p_for (\<lambda>val. tx_put I (fst MAPID) key val) vals tx) (\<lambda>tx.
     p_then (tx_commit I tx) (
     p_bind (start_ro I) (\<lambda>tx.
     p_then (read_ro I tx (check_get (fst MAPID) key last_val)) (
     drop_ro I tx)))))))"

definition add_and_delete_some ::
    "('b, 's, 'ro, 'rw) backend \<Rightarrow> 'b \<Rightarrow> entries \<times> entries \<times> (db_map_id \<times> data) list \<Rightarrow> unit res" where
  "add_and_delete_some B cfg = (\<lambda>(entries1, entries2, extra_keys). let I = be_impl B in with_store B cfg 5 (
     p_bind (start_rw I) (\<lambda>tx.
     p_bind (put_entries I (entries1 @ entries2) tx) (\<lambda>tx.
     p_then (tx_commit I tx) (
     p_bind (start_ro I) (\<lambda>tx.
     p_then (check_gets I tx (map (\<lambda>ent.
         (ent, case bt_get entries2 ent of Some v \<Rightarrow> Some v | None \<Rightarrow> bt_get entries1 ent))
       (map fst entries1 @ map fst entries2 @ extra_keys))) (
     p_then (drop_ro I tx) (
     p_bind (start_rw I) (\<lambda>tx.
     p_bind (del_keys I (map fst entries2) tx) (\<lambda>tx.
     p_then (tx_commit I tx) (
     p_bind (start_ro I) (\<lambda>tx.
     p_then (check_gets I tx (map (\<lambda>(e, val). (e, None)) entries2)) (
     p_then (check_gets I tx (map (\<lambda>(e, val). (e, Some val))
       (filter (\<lambda>e. bt_get entries2 (fst e) = None) entries1))) (
     drop_ro I tx))))))))))))))"

definition add_modify_abort_modify_commit ::
    "('b, 's, 'ro, 'rw) backend \<Rightarrow> 'b \<Rightarrow> write_action list \<times> write_action list \<times> write_action list \<Rightarrow> unit res" where
  "add_modify_abort_modify_commit B cfg = (\<lambda>(to_prepopulate, to_abort, to_commit). let I = be_impl B in
     let model = model_from_actions to_prepopulate in with_store B cfg 1 (
     p_bind (start_rw I) (\<lambda>tx.
     p_bind (apply_actions I (fst MAPID) to_prepopulate tx) (\<lambda>tx.
     p_then (tx_commit I tx) (
     p_bind (model_from_db I (fst MAPID)) (\<lambda>m.
     p_then (p_assert (model = m)) (
     let tx_model = model_extend to_abort model in
     p_bind (start_rw I) (\<lambda>tx.
     p_bind (apply_actions I (fst MAPID) to_abort tx) (\<lambda>tx.
     p_bind (read_rw I tx (\<lambda>ops. model_from_tx ops (fst MAPID))) (\<lambda>m.
     p_then (p_assert (tx_model = m)) (
     p_then (drop_rw I tx) (
     p_bind (model_from_db I (fst MAPID)) (\<lambda>m.
     p_then (p_assert (model = m)) (
     let model = model_extend to_commit model in
     p_bind (start_rw I) (\<lambda>tx.
     p_bind (apply_actions I (fst MAPID) to_commit tx) (\<lambda>tx.
     p_then (tx_commit I tx) (
     p_bind (model_from_db I (fst MAPID)) (\<lambda>m.
     p_assert (model = m)))))))))))))))))))"

definition add_modify_abort_replay_commit ::
    "('b, 's, 'ro, 'rw) backend \<Rightarrow> 'b \<Rightarrow> write_action list \<times> write_action list \<Rightarrow> unit res" where
  "add_modify_abort_replay_commit B cfg = (\<lambda>(initial, actions). let I = be_impl B in with_store B cfg 1 (
     p_bind (start_rw I) (\<lambda>tx.
     p_bind (apply_actions I (fst MAPID) initial tx) (\<lambda>tx.
     p_then (tx_commit I tx) (
     p_bind (model_from_db I (fst MAPID)) (\<lambda>initial_model.
     p_bind (start_rw I) (\<lambda>tx.
     p_bind (apply_actions I (fst MAPID) actions tx) (\<lambda>tx.
     p_bind (read_rw I tx (\<lambda>ops. model_from_tx ops (fst MAPID))) (\<lambda>modified_model.
     p_then (drop_rw I tx) (
     p_bind (model_from_db I (fst MAPID)) (\<lambda>m.
     p_then (p_assert (m = initial_model)) (
     p_bind (start_rw I) (\<lambda>tx.
     p_bind (apply_actions I (fst MAPID) actions tx) (\<lambda>tx.
     p_then (tx_commit I tx) (
     p_bind (model_from_db I (fst MAPID)) (\<lambda>m.
     p_assert (modified_model = m)))))))))))))))))"

definition db_writes_do_not_interfere ::
    "('b, 's, 'ro, 'rw) backend \<Rightarrow> 'b \<Rightarrow> write_action list \<times> write_action list \<Rightarrow> unit res" where
  "db_writes_do_not_interfere B cfg = (\<lambda>(actions0, actions1). let I = be_impl B in with_store B cfg 2 (
     p_bind (start_rw I) (\<lambda>tx.
     p_bind (apply_actions I (fst MAPID) actions0 tx) (\<lambda>tx.
     p_then (tx_commit I tx) (
     p_bind (model_from_db I (fst MAPID)) (\<lambda>model.
     p_bind (start_rw I) (\<lambda>tx.
     p_bind (apply_actions I (snd MAPID) actions1 tx) (\<lambda>tx.
     p_then (tx_commit I tx) (
     p_bind (model_from_db I (fst MAPID)) (\<lambda>m.
     p_assert (model = m)))))))))))"

definition empty_after_abort ::
    "('b, 's, 'ro, 'rw) backend \<Rightarrow> 'b \<Rightarrow> write_action list \<times> data list \<Rightarrow> unit res" where
  "empty_after_abort B cfg = (\<lambda>(actions, keys). let I = be_impl B in with_store B cfg 5 (
     let model = model_from_actions actions in
     p_bind (start_rw I) (\<lambda>tx.
     p_bind (apply_actions I (fst MAPID) actions tx) (\<lambda>tx.
     p_then (p_for (\<lambda>key _. read_rw I tx (check_get (fst MAPID) key (model_get model key))) keys ()) (
     p_then (drop_rw I tx) (
     p_bind (start_ro I) (\<lambda>tx.
     p_then (check_gets I tx (map (\<lambda>key. ((fst MAPID, key), None)) keys)) (
     drop_ro I tx))))))))"

definition scan_keys :: "db_map_id \<Rightarrow> data \<Rightarrow> read_ops \<Rightarrow> data list res" where
  "scan_keys i pfx ops = o_map (map fst) (o_unwrap (r_prefix_iter ops i pfx))"

definition prefix_iteration ::
    "('b, 's, 'ro, 'rw) backend \<Rightarrow> 'b \<Rightarrow> write_action list \<times> write_action list \<Rightarrow> unit res" where
  "prefix_iteration B cfg = (\<lambda>(actions_a, actions_b). let I = be_impl B in
     let actions_a = map (action_map_key (\<lambda>k. 0x61 # k)) actions_a in
     let actions_b = map (action_map_key (\<lambda>k. 0x62 # k)) actions_b in with_store B cfg 5 (
     p_bind (start_rw I) (\<lambda>tx.
     p_bind (apply_actions I (fst MAPID) (actions_a @ actions_b) tx) (\<lambda>tx.
     p_then (tx_commit I tx) (
     let model_a = model_from_actions actions_a in
     p_bind (start_ro I) (\<lambda>tx.
     p_then (read_ro I tx (check_scan (fst MAPID) [0x61] (\<lambda>es. model_inner model_a = es))) (
     p_then (drop_ro I tx) (
     let model_b = model_from_actions actions_b in
     p_bind (start_ro I) (\<lambda>tx.
     p_then (read_ro I tx (check_scan (fst MAPID) [0x62] (\<lambda>es. model_inner model_b = es))) (
     p_then (drop_ro I tx) (
     p_bind (start_ro I) (\<lambda>tx.
     p_then (read_ro I tx (check_scan (fst MAPID) [0x63] (\<lambda>es. es = []))) (
     p_then (drop_ro I tx) (
     p_bind (start_rw I) (\<lambda>tx.
     p_bind (read_rw I tx (scan_keys (fst MAPID) [0x61])) (\<lambda>keys_a.
     p_bind (del_keys I (map (\<lambda>key. (fst MAPID, key)) keys_a) tx) (\<lambda>tx.
     p_then (tx_commit I tx) (
     p_bind (start_ro I) (\<lambda>tx.
     p_then (read_ro I tx (check_scan (fst MAPID) [0x61] (\<lambda>es. es = []))) (
     drop_ro I tx))))))))))))))))))))"

definition post_commit_consistency :: "('b, 's, 'ro, 'rw) backend \<Rightarrow> 'b \<Rightarrow> write_action list \<Rightarrow> unit res" where
  "post_commit_consistency B cfg actions = (let I = be_impl B in with_store B cfg 1 (
     p_bind (start_rw I) (\<lambda>tx.
     p_bind (apply_actions I (fst MAPID) actions tx) (\<lambda>tx.
     p_bind (read_rw I tx (\<lambda>ops. model_from_tx ops (fst MAPID))) (\<lambda>model.
     p_then (tx_commit I tx) (
     p_bind (model_from_db I (fst MAPID)) (\<lambda>m.
     p_assert (m = model))))))))"

section \<open>They reach their end\<close>

lemma length_hex_digits: "x < 16 ^ n \<Longrightarrow> 0 < n \<Longrightarrow> 1 \<le> length (hex_digits x) \<and> length (hex_digits x) \<le> n"
proof (induction x arbitrary: n rule: hex_digits.induct)
  case (1 x)
  show ?case
  proof (cases "x < 16")
    case True
    with 1 show ?thesis by (subst (1 2) hex_digits.simps) simp
  next
    case False
    with 1(2) have "n \<noteq> 1" by auto
    with 1(3) obtain n' where n: "n = Suc n'" "0 < n'" by (cases n) auto
    with 1(2) have "x div 16 < 16 ^ n'" by (simp add: less_mult_imp_div_less)
    with 1(1) [OF False] n False show ?thesis by (subst (1 2) hex_digits.simps) simp
  qed
qed

lemma gen_key_length:
  assumes "gen_key N k" and "N \<le> 1000"
  shows "1 \<le> length k" and "length k \<le> 3"
proof -
  from assms(1) obtain x where x: "x < N" "k = bytes (hex_digits x)" by (auto simp: gen_key_def)
  with assms(2) length_hex_digits [of x 3] show "1 \<le> length k" and "length k \<le> 3"
    by (simp_all add: bytes_def)
qed

lemma prefix_of_extend:
  assumes "bt_inv m"
  shows "bt_prefix p (model_inner (model_extend as (Model m))) =
    model_inner (model_extend (filter (\<lambda>a. starts_with (action_key a) p) as) (Model (bt_prefix p m)))"
  using assms
proof (induction as arbitrary: m)
  case Nil
  show ?case by simp
next
  case (Cons a as)
  have ins: "bt_prefix p (bt_insert k v m) =
      (if starts_with k p then bt_insert k v (bt_prefix p m) else bt_prefix p m)" for k v
    using Cons.prems by (intro bt_ext) (auto simp: btree_simps fun_eq_iff)
  have del: "bt_prefix p (bt_remove k m) =
      (if starts_with k p then bt_remove k (bt_prefix p m) else bt_prefix p m)" for k
    using Cons.prems by (intro bt_ext) (auto simp: btree_simps fun_eq_iff)
  show ?case
    using Cons.prems by (cases a) (simp_all add: Cons.IH ins del)
qed

lemma filter_prefixed:
  "filter (\<lambda>a. starts_with (action_key a) [x]) (map (action_map_key (\<lambda>k. y # k)) as) =
     (if x = y then map (action_map_key (\<lambda>k. y # k)) as else [])"
proof -
  have "action_key (action_map_key (\<lambda>k. y # k) a) = y # action_key a" for a by (cases a) simp_all
  then show ?thesis by (auto simp: filter_map comp_def)
qed

lemma extend_keys:
  "k \<in> fst ` set (model_inner (model_extend as (Model m))) \<Longrightarrow> k \<in> action_key ` set as \<union> fst ` set m"
proof (induction as arbitrary: m)
  case (Cons a as)
  then show ?case
    by (cases a) (fastforce dest!: Cons.IH dest: set_bt_insert set_bt_remove)+
qed simp

lemma bt_prefix_deleted:
  assumes "bt_inv m'" and "\<And>k. bt_get m' k = (if k \<in> set (map fst (bt_prefix p m)) then None else bt_get m k)"
  shows "bt_prefix p m' = []"
proof -
  have "bt_get (bt_prefix p m') k = bt_get bt_empty k" for k
  proof (cases "starts_with k p \<and> bt_get m k \<noteq> None")
    case True
    then have "bt_get (bt_prefix p m) k \<noteq> None" by (simp add: bt_get_prefix)
    then have "k \<in> set (map fst (bt_prefix p m))"
      by (simp add: bt_get_def map_of_eq_None_iff)
    then show ?thesis using assms(2) by (simp add: bt_get_prefix)
  qed (use assms(2) in \<open>auto simp: bt_get_prefix\<close>)
  then have "bt_prefix p m' = bt_empty" using assms(1) by (intro bt_ext) auto
  then show ?thesis by (simp add: bt_empty_def)
qed

lemma bt_prefix_empty [simp]: "bt_prefix p bt_empty = bt_empty"
  by (simp add: bt_prefix_def bt_empty_def)

text \<open>The lookups over several maps, and what a series of puts or deletions does to them.\<close>

definition keys_ok :: "(data \<Rightarrow> bool) \<Rightarrow> nat \<Rightarrow> (db_map_id \<times> data) list \<Rightarrow> bool" where
  "keys_ok key_ok n ks \<longleftrightarrow> (\<forall>(i, k) \<in> set ks. as_usize i < n \<and> key_ok k)"

definition lookups :: "nat \<Rightarrow> contents \<Rightarrow> (db_map_id \<times> data \<rightharpoonup> data) \<Rightarrow> bool" where
  "lookups n c f \<longleftrightarrow> length c = n \<and> (\<forall>i < n. \<forall>k. bt_get (c ! i) k = f (DbMapId i, k))"

lemma lookups_empty: "lookups n (empty_contents n) Map.empty"
  by (simp add: lookups_def)

lemma lookups_self: "lookups (length c) c (\<lambda>(i, k). bt_get (c ! as_usize i) k)"
  by (simp add: lookups_def)

lemma lookups_put:
  assumes "lookups n c f" and "contents_ok c" and "i < n"
  shows "lookups n (contents_put i k v c) (f((DbMapId i, k) \<mapsto> v))"
  using assms contents_ok_nth [of c i] by (auto simp: lookups_def btree_simps)

lemma lookups_del:
  assumes "lookups n c f" and "contents_ok c" and "i < n"
  shows "lookups n (contents_del i k c) (f((DbMapId i, k) := None))"
  using assms contents_ok_nth [of c i] by (auto simp: lookups_def btree_simps)

context backend_contract
begin

lemma gen_key_ok: "gen_key N k \<Longrightarrow> N \<le> 1000 \<Longrightarrow> key_ok k"
  by (rule key_ok_length) (auto dest: gen_key_length(1) gen_key_length(2))

lemma gen_action_ok: "gen_actions N n as \<Longrightarrow> N \<le> 1000 \<Longrightarrow> \<forall>a \<in> set as. key_ok (action_key a)"
  by (auto simp: gen_actions_def gen_action_def intro: gen_key_ok)

lemma gen_big_key_ok: "gen_big_key k \<Longrightarrow> key_ok k"
  by (rule key_ok_length) (simp_all add: gen_big_key_def)

lemma gen_entries_ok: "gen_entries n count es \<Longrightarrow> keys_ok key_ok n (map fst es)"
  by (fastforce simp: gen_entries_def gen_map_id_def keys_ok_def dest: gen_big_key_ok)

lemma runs_put_entries:
  assumes "rw_open tx s b c" and "lookups n c f" and "keys_ok key_ok n (map fst es)"
    and "\<And>tx' s' c'. rw_open tx' s' b c' \<Longrightarrow> lookups n c' (f ++ map_of (rev es)) \<Longrightarrow> Q tx' s'"
  shows "runs (put_entries (be_impl B) es tx) s Q"
  unfolding put_entries_def using assms
proof (induction es arbitrary: tx s c f)
  case Nil
  then show ?case by (auto intro: runs_return)
next
  case (Cons x es)
  obtain i k v where x: "x = ((DbMapId i, k), v)" by (metis db_map_id.exhaust prod.exhaust)
  have ik: "i < length c" "key_ok k" using Cons.prems(2,3) x by (simp_all add: keys_ok_def lookups_def)
  have "runs (tx_put (be_impl B) (DbMapId i) k v tx) s
      (\<lambda>tx s. runs (p_for (\<lambda>((db, key), val). tx_put (be_impl B) db key val) es tx) s Q)"
  proof (rule runs_tx_put [OF Cons.prems(1) ik])
    fix tx' s' assume op: "rw_open tx' s' b (contents_put i k v c)"
    have L: "lookups n (contents_put i k v c) (f((DbMapId i, k) \<mapsto> v))"
      using Cons.prems(1,2) ik(1) by (intro lookups_put) (auto simp: lookups_def intro: rw_open_ok)
    have K: "keys_ok key_ok n (map fst es)" using Cons.prems(3) by (simp add: keys_ok_def)
    have eq: "f((DbMapId i, k) \<mapsto> v) ++ map_of (rev es) = f ++ map_of (rev (x # es))"
      by (simp add: x)
    show "runs (p_for (\<lambda>((db, key), val). tx_put (be_impl B) db key val) es tx') s' Q"
      by (rule Cons.IH [OF op L K]) (rule Cons.prems(4), assumption, simp only: eq)
  qed
  then show ?case by (auto simp: x intro: runs_bind)
qed

lemma runs_del_keys:
  assumes "rw_open tx s b c" and "lookups n c f" and "keys_ok key_ok n ks"
    and "\<And>tx' s' c'. rw_open tx' s' b c' \<Longrightarrow> lookups n c' (f |` (- set ks)) \<Longrightarrow> Q tx' s'"
  shows "runs (del_keys (be_impl B) ks tx) s Q"
  unfolding del_keys_def using assms
proof (induction ks arbitrary: tx s c f)
  case Nil
  then show ?case by (auto intro: runs_return)
next
  case (Cons x ks)
  obtain i k where x: "x = (DbMapId i, k)" by (metis db_map_id.exhaust prod.exhaust)
  have ik: "i < length c" "key_ok k" using Cons.prems(2,3) x by (simp_all add: keys_ok_def lookups_def)
  have "runs (tx_del (be_impl B) (DbMapId i) k tx) s
      (\<lambda>tx s. runs (p_for (\<lambda>(db, key). tx_del (be_impl B) db key) ks tx) s Q)"
  proof (rule runs_tx_del [OF Cons.prems(1) ik])
    fix tx' s' assume op: "rw_open tx' s' b (contents_del i k c)"
    have L: "lookups n (contents_del i k c) (f((DbMapId i, k) := None))"
      using Cons.prems(1,2) ik(1) by (intro lookups_del) (auto simp: lookups_def intro: rw_open_ok)
    have K: "keys_ok key_ok n ks" using Cons.prems(3) by (simp add: keys_ok_def)
    have eq: "f((DbMapId i, k) := None) |` (- set ks) = f |` (- set (x # ks))"
      by (auto simp: x restrict_map_def fun_eq_iff)
    show "runs (p_for (\<lambda>(db, key). tx_del (be_impl B) db key) ks tx') s' Q"
      by (rule Cons.IH [OF op L K]) (rule Cons.prems(4), assumption, simp only: eq)
  qed
  then show ?case by (auto simp: x intro: runs_bind)
qed

lemma runs_check_gets:
  assumes "ro_open tx s c" and "contents_ok c" and "lookups n c f" and "keys_ok key_ok n (map fst es)"
    and "\<forall>(e, v) \<in> set es. f e = v" and "Q () s"
  shows "runs (check_gets (be_impl B) tx es) s Q"
  unfolding check_gets_def
proof (rule runs_for [where J = "\<lambda>rest _ s'. s' = s \<and> set rest \<subseteq> set es"])
  fix x xs a s'
  assume *: "s' = s \<and> set (x # xs) \<subseteq> set es"
  obtain i k v where x: "x = ((DbMapId i, k), v)" by (metis db_map_id.exhaust prod.exhaust)
  from * x have mem: "((DbMapId i, k), v) \<in> set es" by simp
  have "f (DbMapId i, k) = v" using bspec [OF assms(5) mem] by simp
  moreover have "i < n" "key_ok k" using assms(4) mem by (fastforce simp: keys_ok_def)+
  ultimately have "i < length c" "key_ok k" "bt_get (c ! i) k = v"
    using assms(3) by (auto simp: lookups_def)
  with * assms(1,2) show "runs ((\<lambda>((db, key), expected) _. read_ro (be_impl B) tx (check_get db key expected)) x a) s'
      (\<lambda>_ s'. s' = s \<and> set xs \<subseteq> set es)"
    by (simp add: x runs_check_get_ro)
qed (use assms(6) in auto)

lemmas runs_loops = runs_put_entries runs_del_keys runs_check_gets

lemma overwrite_and_abort_Ok:
  assumes "cfg_ok cfg (suite_desc 1)" and "gen_key 100 key"
  shows "\<exists>x. overwrite_and_abort B cfg (key, val0, val1) = Ok x"
proof -
  have key: "key_ok key" using assms(2) by (rule gen_key_ok) simp
  show ?thesis
    unfolding overwrite_and_abort_def Let_def MAPID_simps prod.case
    by (rule with_store_Ok, rule assms)
      (assumption | rule runs_steps key | simp add: btree_simps)+
qed

lemma deleted_none: "\<forall>(e, v) \<in> set (map (\<lambda>(e, val). (e, None)) es). (f |` (- set (map fst es))) e = v"
proof -
  have "(f |` (- fst ` set es)) (fst x) = None" if "x \<in> set es" for x
    using that by (simp add: restrict_map_def)
  then show ?thesis by (auto simp del: restrict_out)
qed

lemma add_and_delete_Ok:
  assumes "cfg_ok cfg (suite_desc 5)" and es: "gen_entries 5 20 es"
  shows "\<exists>x. add_and_delete B cfg es = Ok x"
proof -
  have keys: "keys_ok key_ok 5 (map fst es)" using es by (rule gen_entries_ok)
  then have keys': "keys_ok key_ok 5 (map fst (map (\<lambda>(e, val). (e, Some val)) es))"
    "keys_ok key_ok 5 (map fst (map (\<lambda>(e, val). (e, None :: data option)) es))"
    by (simp_all add: comp_def case_prod_beta')
  have inv: "bt_inv es" using es by (simp add: gen_entries_def)
  have added: "\<forall>(e, v) \<in> set (map (\<lambda>(e, val). (e, Some val)) es). (Map.empty ++ map_of (rev es)) e = v"
    using inv by (auto simp: map_of_rev_btree bt_get_in_set)
  have gone: "\<forall>(e, v) \<in> set (map (\<lambda>(e, val). (e, None)) es).
      ((Map.empty ++ map_of (rev es)) |` (- set (map fst es))) e = v"
    by (rule deleted_none)
  show ?thesis
    unfolding add_and_delete_def Let_def
    by (rule with_store_Ok, rule assms(1))
      (assumption | rule runs_steps runs_loops lookups_empty keys keys' added gone TrueI)+
qed

lemma runs_put_values:
  assumes "rw_open tx s b c" and "i < length c" and "key_ok k"
    and "\<And>tx' s' c'. rw_open tx' s' b c' \<Longrightarrow> length c' = length c \<Longrightarrow>
      bt_get (c' ! i) k = (if vals = [] then bt_get (c ! i) k else Some (last vals)) \<Longrightarrow> Q tx' s'"
  shows "runs (p_for (\<lambda>val. tx_put (be_impl B) (DbMapId i) k val) vals tx) s Q"
  using assms
proof (induction vals arbitrary: tx s c)
  case Nil
  then show ?case by (auto intro: runs_return)
next
  case (Cons v vals)
  have "runs (tx_put (be_impl B) (DbMapId i) k v tx) s
      (\<lambda>tx s. runs (p_for (\<lambda>val. tx_put (be_impl B) (DbMapId i) k val) vals tx) s Q)"
  proof (rule runs_tx_put [OF Cons.prems(1-3)])
    fix tx' s' assume op: "rw_open tx' s' b (contents_put i k v c)"
    have get: "bt_get (contents_put i k v c ! i) k = Some v"
      using Cons.prems(1,2) contents_ok_nth [OF rw_open_ok [OF Cons.prems(1)] Cons.prems(2)]
      by (simp add: btree_simps)
    show "runs (p_for (\<lambda>val. tx_put (be_impl B) (DbMapId i) k val) vals tx') s' Q"
      by (rule Cons.IH [OF op]) (use Cons.prems get in auto)
  qed
  then show ?case by (auto intro: runs_bind)
qed

lemma runs_read_each:
  assumes "rw_open tx s b c" and "\<And>x ops. x \<in> set xs \<Longrightarrow> reads key_ok ops c \<Longrightarrow> f x ops = Ok ()"
    and "Q () s"
  shows "runs (p_for (\<lambda>x _. read_rw (be_impl B) tx (f x)) xs ()) s Q"
proof (rule runs_for [where J = "\<lambda>rest _ s'. s' = s \<and> set rest \<subseteq> set xs"])
  fix x rest a s'
  assume "s' = s \<and> set (x # rest) \<subseteq> set xs"
  with assms(1,2) show "runs (read_rw (be_impl B) tx (f x)) s' (\<lambda>_ s'. s' = s \<and> set rest \<subseteq> set xs)"
    by (auto intro: runs_read_rw)
qed (use assms(3) in auto)

lemma runs_read_model:
  assumes "rw_open tx s b c" and "i < length c" and "Q (Model (c ! i)) s"
  shows "runs (read_rw (be_impl B) tx (\<lambda>ops. model_from_tx ops (DbMapId i))) s Q"
  using assms by (auto intro: runs_read_rw model_from_tx_Ok)

lemmas runs_models = runs_apply_actions runs_model_from_db runs_assert runs_read_model

lemma last_write_wins_Ok:
  assumes "cfg_ok cfg (suite_desc 1)" and "gen_key 1000 key"
  shows "\<exists>x. last_write_wins B cfg (key, vals) = Ok x"
proof -
  have key: "key_ok key" using assms(2) by (rule gen_key_ok) simp
  show ?thesis
    unfolding last_write_wins_def Let_def MAPID_simps prod.case
    by (rule with_store_Ok, rule assms)
      (assumption | rule runs_bind runs_put_values runs_steps key | simp)+
qed

lemma graph_of: "(\<And>x. f x = g x) \<Longrightarrow> \<forall>(x, y) \<in> set (map (\<lambda>x. (x, g x)) xs). f x = y"
  by (simp add: image_iff)

lemma add_and_delete_some_Ok:
  assumes "cfg_ok cfg (suite_desc 5)" and e1: "gen_entries 5 20 e1" and e2: "gen_entries 5 20 e2"
    and extra: "\<forall>(i, k) \<in> set extra. gen_map_id 5 i \<and> gen_big_key k"
  shows "\<exists>x. add_and_delete_some B cfg (e1, e2, extra) = Ok x"
proof -
  have "keys_ok key_ok 5 (map fst e1)" "keys_ok key_ok 5 (map fst e2)"
    using e1 e2 by (simp_all add: gen_entries_ok)
  moreover have "keys_ok key_ok 5 extra"
    using extra by (auto simp: keys_ok_def gen_map_id_def dest: gen_big_key_ok)
  ultimately have keys: "keys_ok key_ok 5 (map fst (e1 @ e2))" "keys_ok key_ok 5 (map fst e2)"
    "keys_ok key_ok 5 (map fst (map (\<lambda>ent. (ent, g ent)) (map fst e1 @ map fst e2 @ extra)))"
    "keys_ok key_ok 5 (map fst (map (\<lambda>(e, val). (e, None :: data option)) e2))"
    "keys_ok key_ok 5 (map fst (map (\<lambda>(e, val). (e, Some val)) (filter (\<lambda>e. bt_get e2 (fst e) = None) e1)))"
    for g :: "db_map_id \<times> data \<Rightarrow> data option"
    by (auto simp: keys_ok_def)
  have inv: "bt_inv e1" "bt_inv e2" using e1 e2 by (simp_all add: gen_entries_def)
  let ?f = "Map.empty ++ map_of (rev (e1 @ e2))"
  have f: "?f ent = (case bt_get e2 ent of Some v \<Rightarrow> Some v | None \<Rightarrow> bt_get e1 ent)" for ent
    using inv by (simp add: map_of_rev_btree map_add_def split: option.split)
  have added: "\<forall>(e, v) \<in> set (map (\<lambda>ent. (ent, case bt_get e2 ent of Some v \<Rightarrow> Some v | None \<Rightarrow> bt_get e1 ent))
      (map fst e1 @ map fst e2 @ extra)). ?f e = v"
    by (rule graph_of) (rule f)
  have gone: "\<forall>(e, v) \<in> set (map (\<lambda>(e, val). (e, None)) e2). (?f |` (- set (map fst e2))) e = v"
    by (rule deleted_none)
  have left: "\<forall>(e, v) \<in> set (map (\<lambda>(e, val). (e, Some val)) (filter (\<lambda>e. bt_get e2 (fst e) = None) e1)).
      (?f |` (- set (map fst e2))) e = v"
  proof -
    have "(?f |` (- set (map fst e2))) (fst x) = Some (snd x)"
      if x: "x \<in> set e1" "bt_get e2 (fst x) = None" for x
    proof -
      have "bt_get e1 (fst x) = Some (snd x)" using inv x(1) by (simp add: bt_get_in_set)
      moreover have "fst x \<notin> set (map fst e2)"
        using x(2) by (simp add: bt_get_def map_of_eq_None_iff)
      ultimately show ?thesis using f [of "fst x"] x(2) by (simp add: restrict_map_def)
    qed
    then show ?thesis by (simp add: case_prod_beta')
  qed
  show ?thesis
    unfolding add_and_delete_some_def Let_def prod.case
    by (rule with_store_Ok, rule assms(1))
      (assumption | rule runs_steps runs_loops lookups_empty keys added gone left TrueI)+
qed

lemma add_modify_abort_modify_commit_Ok:
  assumes "cfg_ok cfg (suite_desc 1)"
    and "gen_actions 100 20 pre" and "gen_actions 100 20 ab" and "gen_actions 100 20 com"
  shows "\<exists>x. add_modify_abort_modify_commit B cfg (pre, ab, com) = Ok x"
proof -
  have keys: "\<forall>a \<in> set pre. key_ok (action_key a)" "\<forall>a \<in> set ab. key_ok (action_key a)"
    "\<forall>a \<in> set com. key_ok (action_key a)"
    using assms(2-4) by (simp_all add: gen_action_ok)
  show ?thesis
    unfolding add_modify_abort_modify_commit_def Let_def MAPID_simps prod.case
    by (rule with_store_Ok, rule assms(1))
      (assumption | rule runs_models runs_steps keys | simp add: model_from_actions_def model_new_def)+
qed

lemma add_modify_abort_replay_commit_Ok:
  assumes "cfg_ok cfg (suite_desc 1)" and "gen_actions 100 20 pre" and "gen_actions 100 20 as"
  shows "\<exists>x. add_modify_abort_replay_commit B cfg (pre, as) = Ok x"
proof -
  have keys: "\<forall>a \<in> set pre. key_ok (action_key a)" "\<forall>a \<in> set as. key_ok (action_key a)"
    using assms(2-3) by (simp_all add: gen_action_ok)
  show ?thesis
    unfolding add_modify_abort_replay_commit_def Let_def MAPID_simps prod.case
    by (rule with_store_Ok, rule assms(1))
      (assumption | rule runs_models runs_steps keys | simp)+
qed

lemma db_writes_do_not_interfere_Ok:
  assumes "cfg_ok cfg (suite_desc 2)" and "gen_actions 100 20 as0" and "gen_actions 100 20 as1"
  shows "\<exists>x. db_writes_do_not_interfere B cfg (as0, as1) = Ok x"
proof -
  have keys: "\<forall>a \<in> set as0. key_ok (action_key a)" "\<forall>a \<in> set as1. key_ok (action_key a)"
    using assms(2-3) by (simp_all add: gen_action_ok)
  show ?thesis
    unfolding db_writes_do_not_interfere_def Let_def MAPID_simps prod.case
    by (rule with_store_Ok, rule assms(1))
      (assumption | rule runs_models runs_steps keys | simp)+
qed

lemma post_commit_consistency_Ok:
  assumes "cfg_ok cfg (suite_desc 1)" and "gen_actions 100 50 as"
  shows "\<exists>x. post_commit_consistency B cfg as = Ok x"
proof -
  have keys: "\<forall>a \<in> set as. key_ok (action_key a)" using assms(2) by (simp add: gen_action_ok)
  show ?thesis
    unfolding post_commit_consistency_def Let_def MAPID_simps prod.case
    by (rule with_store_Ok, rule assms(1))
      (assumption | rule runs_models runs_steps keys | simp)+
qed

lemma empty_after_abort_Ok:
  assumes "cfg_ok cfg (suite_desc 5)" and "gen_actions 100 20 as" and "\<forall>k \<in> set keys. gen_key 100 k"
  shows "\<exists>x. empty_after_abort B cfg (as, keys) = Ok x"
proof -
  have acts: "\<forall>a \<in> set as. key_ok (action_key a)" using assms(2) by (simp add: gen_action_ok)
  have keys: "key_ok k" if "k \<in> set keys" for k
    using assms(3) that by (auto intro: gen_key_ok)
  have rw: "check_get (DbMapId 0) k (model_get (model_from_actions as) k) ops = Ok ()"
    if "k \<in> set keys" "reads key_ok ops (contents_apply 0 as (empty_contents 5))" for k ops
    using check_get_Ok [OF that(2) _ keys [OF that(1)]]
    by (simp add: model_get_def model_from_actions_def model_new_def)
  have ro: "keys_ok key_ok 5 (map fst (map (\<lambda>k. ((DbMapId 0, k), None :: data option)) keys))"
    using keys by (auto simp: keys_ok_def)
  have none: "\<forall>(e, v) \<in> set (map (\<lambda>k. ((DbMapId 0, k), None)) keys). Map.empty e = v"
    by auto
  show ?thesis
    unfolding empty_after_abort_def Let_def MAPID_simps prod.case
    by (rule with_store_Ok, rule assms(1))
      (assumption | rule runs_models runs_steps runs_read_each runs_check_gets acts rw lookups_empty ro none TrueI
        | simp)+
qed

lemma runs_scan_keys:
  assumes "rw_open tx s b c" and "i < length c" and "Q (map fst (bt_prefix p (c ! i))) s"
  shows "runs (read_rw (be_impl B) tx (scan_keys (DbMapId i) p)) s Q"
  using assms by (auto intro!: runs_read_rw simp: scan_keys_def reads_def)

text \<open>Deleting the keys of a scan leaves nothing to scan.\<close>

lemma runs_del_scanned:
  assumes "rw_open tx s b c" and "i < length c" and "\<forall>k \<in> fst ` set (c ! i). key_ok k"
    and "\<And>tx' s' c'. rw_open tx' s' b c' \<Longrightarrow> length c' = length c \<Longrightarrow> bt_prefix p (c' ! i) = [] \<Longrightarrow> Q tx' s'"
  shows "runs (del_keys (be_impl B) (map (\<lambda>k. (DbMapId i, k)) (map fst (bt_prefix p (c ! i)))) tx) s Q"
proof (rule runs_del_keys [OF assms(1) lookups_self [of c]])
  show "keys_ok key_ok (length c) (map (\<lambda>k. (DbMapId i, k)) (map fst (bt_prefix p (c ! i))))"
    using assms(2,3) by (auto simp: keys_ok_def bt_prefix_def)
next
  fix tx' s' c'
  assume op: "rw_open tx' s' b c'"
    and look: "lookups (length c) c' ((\<lambda>(i, k). bt_get (c ! as_usize i) k) |`
      (- set (map (\<lambda>k. (DbMapId i, k)) (map fst (bt_prefix p (c ! i))))))"
  have len: "length c' = length c" using look by (simp add: lookups_def)
  have "bt_get (c' ! i) k = (if k \<in> set (map fst (bt_prefix p (c ! i))) then None else bt_get (c ! i) k)" for k
    using look assms(2) by (auto simp: lookups_def restrict_map_def)
  moreover have "bt_inv (c' ! i)"
    using rw_open_ok [OF op] assms(2) len by (simp add: contents_ok_nth)
  ultimately have "bt_prefix p (c' ! i) = []" by (intro bt_prefix_deleted)
  with op len show "Q tx' s'" by (rule assms(4))
qed

lemma prefix_iteration_Ok:
  assumes "cfg_ok cfg (suite_desc 5)" and "gen_actions 100 20 as" and "gen_actions 100 20 bs"
  shows "\<exists>x. prefix_iteration B cfg (as, bs) = Ok x"
proof -
  let ?as = "map (action_map_key (\<lambda>k. 0x61 # k)) as" and ?bs = "map (action_map_key (\<lambda>k. 0x62 # k)) bs"
  let ?m = "model_inner (model_extend (?as @ ?bs) (Model bt_empty))"
  have pre: "key_ok (x # k)" if "gen_key 100 k" for x k
    using gen_key_length [OF that] by (intro key_ok_length) simp_all
  have "action_key (action_map_key f a) = f (action_key a)" for f a by (cases a) simp_all
  then have keys: "\<forall>a \<in> set (?as @ ?bs). key_ok (action_key a)"
    using assms(2,3) by (auto simp: gen_actions_def gen_action_def intro!: pre)
  have ma: "model_inner (model_from_actions ?as) = bt_prefix [0x61] ?m"
    and mb: "model_inner (model_from_actions ?bs) = bt_prefix [0x62] ?m"
    and mc: "bt_prefix [0x63] ?m = []"
    by (simp_all add: model_from_actions_def model_new_def prefix_of_extend filter_prefixed del: starts_with_Cons)
      (simp add: bt_empty_def)
  have m_keys: "\<forall>k \<in> fst ` set ?m. key_ok k"
  proof (rule ballI)
    fix k assume "k \<in> fst ` set ?m"
    from extend_keys [OF this] have "k \<in> action_key ` set (?as @ ?bs)" by (simp only: bt_empty_def) simp
    then show "key_ok k" by (rule imageE) (drule bspec [OF keys], simp only:)
  qed
  show ?thesis
    unfolding prefix_iteration_def Let_def MAPID_simps prod.case
    by (rule with_store_Ok, rule assms(1))
      (assumption | rule runs_models runs_steps runs_scan_keys runs_del_scanned keys
        | simp add: ma mb mc m_keys del: append_assoc map_append)+
qed

lemma property_tests_Ok:
  assumes "cfg_ok cfg (suite_desc 1)" and "cfg_ok cfg (suite_desc 2)" and "cfg_ok cfg (suite_desc 5)"
  shows "gen_key 100 key \<Longrightarrow> overwrite_and_abort B cfg (key, val0, val1) = Ok ()"
    and "gen_entries 5 20 es \<Longrightarrow> add_and_delete B cfg es = Ok ()"
    and "gen_key 1000 key \<Longrightarrow> last_write_wins B cfg (key, vals) = Ok ()"
    and "gen_entries 5 20 es \<Longrightarrow> gen_entries 5 20 es' \<Longrightarrow>
      \<forall>(i, k) \<in> set extra. gen_map_id 5 i \<and> gen_big_key k \<Longrightarrow>
      add_and_delete_some B cfg (es, es', extra) = Ok ()"
    and "gen_actions 100 20 as \<Longrightarrow> gen_actions 100 20 bs \<Longrightarrow> gen_actions 100 20 cs \<Longrightarrow>
      add_modify_abort_modify_commit B cfg (as, bs, cs) = Ok ()"
    and "gen_actions 100 20 as \<Longrightarrow> gen_actions 100 20 bs \<Longrightarrow>
      add_modify_abort_replay_commit B cfg (as, bs) = Ok ()"
    and "gen_actions 100 20 as \<Longrightarrow> gen_actions 100 20 bs \<Longrightarrow>
      db_writes_do_not_interfere B cfg (as, bs) = Ok ()"
    and "gen_actions 100 20 as \<Longrightarrow> \<forall>k \<in> set keys. gen_key 100 k \<Longrightarrow>
      empty_after_abort B cfg (as, keys) = Ok ()"
    and "gen_actions 100 20 as \<Longrightarrow> gen_actions 100 20 bs \<Longrightarrow> prefix_iteration B cfg (as, bs) = Ok ()"
    and "gen_actions 100 50 as \<Longrightarrow> post_commit_consistency B cfg as = Ok ()"
  using overwrite_and_abort_Ok [OF assms(1)] add_and_delete_Ok [OF assms(3)] last_write_wins_Ok [OF assms(1)]
    add_and_delete_some_Ok [OF assms(3)] add_modify_abort_modify_commit_Ok [OF assms(1)]
    add_modify_abort_replay_commit_Ok [OF assms(1)] db_writes_do_not_interfere_Ok [OF assms(2)]
    empty_after_abort_Ok [OF assms(3)] prefix_iteration_Ok [OF assms(3)] post_commit_consistency_Ok [OF assms(1)]
  by simp_all

end

end
