(* ===== verification/Schema.thy ===== *)
theory Schema
  imports Core_Types
begin

text \<open>
  Database schemas (\<open>storage/src/schema.rs\<close>). In Rust a schema is a type: the empty schema is the unit
  type, a schema with a first map \<open>M\<close> is the pair of \<open>M\<close> and the rest, and the trait \<open>HasDbMap<M, I>\<close>
  finds the index of \<open>M\<close>, with the position as the type \<open>I\<close>. Here the types are values of datatypes
  of the same shape.
\<close>

record db_map =
  NAME :: string
  SIZE_HINT :: "usize \<times> usize"

datatype schema = SchemaUnit | SchemaPair db_map schema

fun desc_iter :: "schema \<Rightarrow> db_map_desc list" where
  "desc_iter SchemaUnit = []"
| "desc_iter (SchemaPair m rest) = new_with_details (NAME m) (SIZE_HINT m) # desc_iter rest"

text \<open>The position types: \<open>()\<close> for the head, \<open>(I,)\<close> for position \<open>I\<close> of the tail.\<close>

datatype position = Head | Tail position

fun has_db_map :: "db_map \<Rightarrow> position \<Rightarrow> schema \<Rightarrow> bool" where
  "has_db_map m Head (SchemaPair m' rest) = (m = m')"
| "has_db_map m (Tail i) (SchemaPair m' rest) = has_db_map m i rest"
| "has_db_map m i SchemaUnit = False"

fun map_INDEX :: "position \<Rightarrow> db_map_id" where
  "map_INDEX Head = DbMapId 0"
| "map_INDEX (Tail i) = DbMapId (as_usize (map_INDEX i) + 1)"

text \<open>The macro \<open>decl_schema\<close>: one map per name with the default size hint, nested to the right.\<close>

definition decl_map :: "string \<Rightarrow> db_map" where
  "decl_map n = \<lparr>NAME = n, SIZE_HINT = (0, usize_max)\<rparr>"

fun decl_schema :: "string list \<Rightarrow> schema" where
  "decl_schema [] = SchemaUnit"
| "decl_schema (n # ns) = SchemaPair (decl_map n) (decl_schema ns)"

text \<open>
  The documentation the macro attaches to a schema, for the stringified names, keys and values of its maps.
\<close>

definition map_doc :: "string \<Rightarrow> string \<Rightarrow> string \<Rightarrow> string" where
  "map_doc name key val = ''[`'' @ name @ ''`]: '' @ key @ '' -> '' @ val @ ''`''"

definition schema_doc :: "string \<Rightarrow> (string \<times> string \<times> string) list \<Rightarrow> string list" where
  "schema_doc schema maps =
     [[CHR 0x0A, CHR 0x0A] @ ''Database schema `'' @ schema @ ''`'' @ [CHR 0x0A, CHR 0x0A],
      ''## Key-value mappings'',
      concat (map (\<lambda>(name, key, val). ''* '' @ map_doc name key val @ [CHR 0x0A]) maps)]"

definition schema_names :: "schema \<Rightarrow> string list" where
  "schema_names sch = map desc_name (desc_iter sch)"

lemma map_INDEX_desc:
  "has_db_map m i sch \<Longrightarrow>
     as_usize (map_INDEX i) < length (desc_iter sch) \<and>
     desc_iter sch ! as_usize (map_INDEX i) = new_with_details (NAME m) (SIZE_HINT m)"
  by (induction m i sch rule: has_db_map.induct) auto

lemma desc_name_details [simp]: "desc_name (new_with_details n h) = n"
  by (simp add: new_with_details_def)

lemma schema_names_decl [simp]: "schema_names (decl_schema ns) = ns"
  by (induction ns) (simp_all add: schema_names_def decl_map_def)

lemma schema_desc:
  "distinct (schema_names sch) \<Longrightarrow>
     construct_db_desc (desc_iter sch) = Ok \<lparr>map_descs = DbMapsData (desc_iter sch)\<rparr>"
  by (simp add: schema_names_def)

lemma schema_desc_duplicate:
  "\<not> distinct (schema_names sch) \<Longrightarrow>
     construct_db_desc (desc_iter sch) = Panic ''Duplicate map names found''"
  by (simp add: schema_names_def construct_db_desc_def assert_names_unique_iff)

text \<open>With unique names there is one position per map.\<close>

lemma map_INDEX_unique:
  assumes "distinct (schema_names sch)" and "has_db_map m i sch" and "has_db_map m j sch"
  shows "map_INDEX i = map_INDEX j"
proof -
  let ?i = "as_usize (map_INDEX i)" and ?j = "as_usize (map_INDEX j)"
  have "?i < length (schema_names sch)" and "?j < length (schema_names sch)"
    and "schema_names sch ! ?i = schema_names sch ! ?j"
    using map_INDEX_desc [OF assms(2)] map_INDEX_desc [OF assms(3)] by (simp_all add: schema_names_def)
  with assms(1) have "?i = ?j" by (simp add: nth_eq_iff_index_eq)
  then show ?thesis by (simp add: db_map_id.expand)
qed

end
