(* ===== verification/Serialization.thy ===== *)
theory Serialization
  imports Core_Util Core_Error
begin

text \<open>
  Encoded values (\<open>serialization/src/encoded.rs\<close>). The SCALE codec itself is the crate
  \<open>parity-scale-codec\<close>, re-exported by \<open>serialization/core/src/lib.rs\<close> and not part of this
  repository: a type's codec is a parameter, a record of its encoder and its decoder, and the
  locales state what the code relies on. \<open>dec\<close> reads one value from the front of an input and returns
  the rest; \<open>DecodeAll\<close> requires that nothing is left.
\<close>

record 'a codec =
  enc :: "'a \<Rightarrow> data"
  dec :: "data \<Rightarrow> ('a \<times> data) option"

definition decode_all :: "'a codec \<Rightarrow> data \<Rightarrow> 'a option" where
  "decode_all C b = (case dec C b of Some (x, []) \<Rightarrow> Some x | _ \<Rightarrow> None)"

section \<open>Encoded\<close>

text \<open>The second field of the Rust type is phantom data, as the type argument is here.\<close>

datatype 'a encoded = Encoded (encoded_bytes: data)

definition encoded_new :: "'a codec \<Rightarrow> 'a \<Rightarrow> 'a encoded" where
  "encoded_new C x = Encoded (enc C x)"

text \<open>
  The check is a \<open>debug_assert\<close>; the workspace enables debug assertions in its release and test
  profiles too.
\<close>

definition from_bytes_unchecked :: "'a codec \<Rightarrow> data \<Rightarrow> ('a encoded, 'e) outcome" where
  "from_bytes_unchecked C b =
     (if decode_all C b \<noteq> None then Ok (Encoded b)
      else Panic ''assertion failed: T::decode_all(&mut this.bytes()).is_ok()'')"

definition take_bytes :: "'a encoded \<Rightarrow> data" where
  "take_bytes e = encoded_bytes e"

definition encoded_as_ref :: "'a encoded \<Rightarrow> data" where
  "encoded_as_ref self = encoded_bytes self"

definition encoded_get_bytes :: "'a encoded \<Rightarrow> data" where
  "encoded_get_bytes self = encoded_as_ref self"

definition encoded_decode :: "'a codec \<Rightarrow> 'a encoded \<Rightarrow> ('a, 'e) outcome" where
  "encoded_decode C e =
     (case decode_all C (encoded_bytes e) of
        Some x \<Rightarrow> Ok x
      | None \<Rightarrow> Panic ''to be a valid encoding'')"

section \<open>What the code relies on\<close>

locale scale_codec =
  fixes C :: "'a codec"
  assumes dec_enc: "dec C (enc C x @ rest) = Some (x, rest)"
begin

lemma decode_all_enc: "decode_all C (enc C x) = Some x"
  using dec_enc [of x "[]"] by (simp add: decode_all_def)

lemma from_bytes_enc: "from_bytes_unchecked C (enc C x) = Ok (Encoded (enc C x))"
  by (simp add: from_bytes_unchecked_def decode_all_enc)

lemma decode_enc: "encoded_decode C (Encoded (enc C x)) = Ok x"
  by (simp add: encoded_decode_def decode_all_enc [of x])

lemma enc_inj: "enc C x = enc C y \<longleftrightarrow> x = y"
proof
  assume "enc C x = enc C y"
  then have "Some x = Some y" using dec_enc [of x "[]"] dec_enc [of y "[]"] by simp
  then show "x = y" by simp
qed simp

text \<open>No encoding is a proper prefix of another one.\<close>

lemma enc_prefix_free:
  assumes "enc C x @ r = enc C y @ s"
  shows "x = y \<and> r = s"
proof -
  have "dec C (enc C x @ r) = dec C (enc C y @ s)" using assms by (rule arg_cong)
  then have "Some (x, r) = Some (y, s)" by (simp only: dec_enc)
  then show ?thesis by simp
qed

end

text \<open>
  A decoder reads its input from the front: what it returns does not depend on the bytes it leaves, also on
  inputs that no encoder produces.
\<close>

locale streaming_codec = scale_codec +
  assumes dec_append: "dec C b = Some (x, r) \<Longrightarrow> dec C (b @ s) = Some (x, r @ s)"
begin

text \<open>Nothing may follow an encoding, and none of its end may be missing.\<close>

lemma decode_all_trailing: "rest \<noteq> [] \<Longrightarrow> decode_all C (enc C x @ rest) = None"
  by (simp add: decode_all_def dec_enc split: list.split)

lemma decode_all_append:
  assumes "decode_all C b = Some x" and "rest \<noteq> []"
  shows "decode_all C (b @ rest) = None"
proof -
  have "dec C b = Some (x, [])" using assms(1) by (auto simp: decode_all_def split: option.splits list.splits)
  from dec_append [OF this, of rest] assms(2) show ?thesis by (simp add: decode_all_def split: list.split)
qed

lemma decode_all_truncated:
  assumes "enc C x = b @ rest" and "rest \<noteq> []"
  shows "decode_all C b = None"
proof (rule ccontr)
  assume "decode_all C b \<noteq> None"
  then obtain y where "decode_all C b = Some y" by blast
  from decode_all_append [OF this assms(2)] show False using decode_all_enc [of x] assms(1) by simp
qed

end

text \<open>A key type whose encoding starts with the encoding of its part of type \<open>'p\<close>.\<close>

locale encoding_prefix = P: scale_codec CP + K: scale_codec CK
  for CP :: "'p codec" and CK :: "'k codec" +
  fixes part :: "'k \<Rightarrow> 'p"
  assumes enc_part: "starts_with (enc CK k) (enc CP (part k))"
begin

lemma starts_with_enc_iff: "starts_with (enc CK k) (enc CP p) \<longleftrightarrow> part k = p"
  using enc_part [of k] by (auto simp: starts_with_iff dest: P.enc_prefix_free)

end

section \<open>Codecs with this behaviour\<close>

text \<open>
  The documented encodings of \<open>()\<close>, \<open>u8\<close>, little endian \<open>u16\<close> and pairs; they instantiate the
  parameters.
\<close>

definition unit_codec :: "unit codec" where
  "unit_codec = \<lparr>enc = (\<lambda>_. []), dec = (\<lambda>b. Some ((), b))\<rparr>"

definition u8_codec :: "byte codec" where
  "u8_codec =
     \<lparr>enc = (\<lambda>x. [x]),
      dec = (\<lambda>b. case b of [] \<Rightarrow> None | x # r \<Rightarrow> Some (x, r))\<rparr>"

definition u16_codec :: "16 word codec" where
  "u16_codec =
     \<lparr>enc = (\<lambda>x. [ucast x, ucast (drop_bit 8 x)]),
      dec = (\<lambda>b. case b of lo # hi # r \<Rightarrow> Some (ucast lo + push_bit 8 (ucast hi), r) | _ \<Rightarrow> None)\<rparr>"

definition pair_codec :: "'a codec \<Rightarrow> 'b codec \<Rightarrow> ('a \<times> 'b) codec" where
  "pair_codec A B =
     \<lparr>enc = (\<lambda>(x, y). enc A x @ enc B y),
      dec = (\<lambda>b. case dec A b of
               None \<Rightarrow> None
             | Some (x, r) \<Rightarrow> (case dec B r of None \<Rightarrow> None | Some (y, r') \<Rightarrow> Some ((x, y), r')))\<rparr>"

interpretation unit_codec: streaming_codec unit_codec
  by unfold_locales (simp_all add: unit_codec_def)

interpretation u8_codec: streaming_codec u8_codec
  by unfold_locales (auto simp: u8_codec_def split: list.splits)

lemma u16_split: "ucast (ucast x :: byte) + push_bit 8 (ucast (ucast (drop_bit 8 x) :: byte)) = (x :: 16 word)"
proof -
  have "ucast (ucast x :: byte) = (take_bit 8 x :: 16 word)"
    by (rule bit_eqI) (auto simp: bit_simps)
  moreover have "ucast (ucast (drop_bit 8 x) :: byte) = (drop_bit 8 x :: 16 word)"
    by (rule bit_eqI) (auto simp: bit_simps dest: bit_imp_le_length)
  moreover have "push_bit 8 (drop_bit 8 x) + take_bit 8 x = x" by (rule bits_ident)
  ultimately show ?thesis by (simp add: add.commute)
qed

interpretation u16_codec: streaming_codec u16_codec
  by unfold_locales (auto simp: u16_codec_def u16_split split: list.splits)

lemma pair_codec_scale:
  assumes "scale_codec A" and "scale_codec B"
  shows "scale_codec (pair_codec A B)"
proof
  fix x :: "'a \<times> 'b" and rest
  show "dec (pair_codec A B) (enc (pair_codec A B) x @ rest) = Some (x, rest)"
    by (cases x) (simp add: pair_codec_def scale_codec.dec_enc [OF assms(1)] scale_codec.dec_enc [OF assms(2)])
qed

lemma pair_codec_streaming:
  assumes "streaming_codec A" and "streaming_codec B"
  shows "streaming_codec (pair_codec A B)"
proof (intro streaming_codec.intro pair_codec_scale streaming_codec_axioms.intro)
  fix b s r and x :: "'a \<times> 'b"
  assume "dec (pair_codec A B) b = Some (x, r)"
  then obtain r1 where "dec A b = Some (fst x, r1)" "dec B r1 = Some (snd x, r)"
    by (auto simp: pair_codec_def split: option.splits)
  then show "dec (pair_codec A B) (b @ s) = Some (x, r @ s)"
    by (simp add: pair_codec_def streaming_codec.dec_append [OF assms(1)] streaming_codec.dec_append [OF assms(2)])
qed (use assms in \<open>auto intro: streaming_codec.axioms(1)\<close>)

lemma pair_codec_first:
  assumes "scale_codec A" and "scale_codec B"
  shows "encoding_prefix A (pair_codec A B) fst"
proof (intro encoding_prefix.intro encoding_prefix_axioms.intro)
  fix k :: "'a \<times> 'b"
  show "starts_with (enc (pair_codec A B) k) (enc A (fst k))"
    by (cases k) (simp add: pair_codec_def starts_with_iff)
qed (simp_all add: assms pair_codec_scale)

interpretation u8_u16: encoding_prefix u8_codec "pair_codec u8_codec u16_codec" fst
  by (intro pair_codec_first) (rule u8_codec.scale_codec_axioms u16_codec.scale_codec_axioms)+

text \<open>The unit value is a prefix of every key.\<close>

lemma unit_prefix:
  assumes "scale_codec K"
  shows "encoding_prefix unit_codec K (\<lambda>_. ())"
proof (intro encoding_prefix.intro encoding_prefix_axioms.intro)
  fix k
  show "starts_with (enc K k) (enc unit_codec ())"
    by (simp add: unit_codec_def starts_with_iff)
qed (simp_all add: assms unit_codec.scale_codec_axioms)

end
