(* ===== verification/Database.thy ===== *)
theory Database
  imports Backend Schema Serialization
begin

text \<open>
  The typed storage interface of \<open>storage/src/database/mod.rs\<close> and \<open>internal.rs\<close>: a storage is a
  backend opened with the description of a schema, a transaction gives access to one map of the
  schema, and keys and values pass through their codecs. A Rust iterator whose items may panic when
  they are produced is the list of the items' outcomes.
\<close>

text \<open>The associated types \<open>Key\<close> and \<open>Value\<close> of a \<open>DbMap\<close>, as their codecs.\<close>

record ('k, 'v) map_types =
  key_codec :: "'k codec"
  value_codec :: "'v codec"

section \<open>internal.rs\<close>

definition internal_get ::
    "('k, 'v) map_types \<Rightarrow> read_ops \<Rightarrow> db_map_id \<Rightarrow> 'k \<Rightarrow> 'v encoded option res" where
  "internal_get M dbtx map_id key =
     o_bind (r_get dbtx map_id (enc (key_codec M) key)) (\<lambda>x.
       case x of
         None \<Rightarrow> Ok None
       | Some b \<Rightarrow> o_map Some (from_bytes_unchecked (value_codec M) b))"

definition internal_prefix_iter ::
    "('k, 'v) map_types \<Rightarrow> read_ops \<Rightarrow> db_map_id \<Rightarrow> data \<Rightarrow> ('k \<times> 'v encoded) res list res" where
  "internal_prefix_iter M dbtx map_id pfx =
     o_map (map (\<lambda>(k, v).
         o_bind (o_bind (from_bytes_unchecked (key_codec M) k) (encoded_decode (key_codec M))) (\<lambda>key.
         o_bind (from_bytes_unchecked (value_codec M) v) (\<lambda>val. Ok (key, val)))))
       (r_prefix_iter dbtx map_id pfx)"

definition internal_prefix_iter_keys ::
    "('k, 'v) map_types \<Rightarrow> read_ops \<Rightarrow> db_map_id \<Rightarrow> data \<Rightarrow> 'k res list res" where
  "internal_prefix_iter_keys M dbtx map_id pfx =
     o_map (map (\<lambda>(k, _).
         o_bind (from_bytes_unchecked (key_codec M) k) (encoded_decode (key_codec M))))
       (r_prefix_iter dbtx map_id pfx)"

section \<open>Storage\<close>

text \<open>The schema parameter of the Rust type is a field.\<close>

record 's storage =
  sto_backend :: 's
  sto_schema :: schema

definition storage_new :: "('b, 's, 'ro, 'rw) backend \<Rightarrow> 'b \<Rightarrow> schema \<Rightarrow> 's storage res" where
  "storage_new B cfg sch =
     o_bind (construct_db_desc (desc_iter sch)) (\<lambda>desc.
     o_bind (be_open B cfg desc) (\<lambda>s. Ok \<lparr>sto_backend = s, sto_schema = sch\<rparr>))"

definition storage_transaction_ro ::
    "('s, 'ro, 'rw) backend_impl \<Rightarrow> 's storage \<Rightarrow> 'ro res \<times> 's storage" where
  "storage_transaction_ro I st =
     (case transaction_ro I (sto_backend st) of (r, s) \<Rightarrow> (r, st\<lparr>sto_backend := s\<rparr>))"

definition storage_transaction_rw ::
    "('s, 'ro, 'rw) backend_impl \<Rightarrow> 's storage \<Rightarrow> usize option \<Rightarrow> 'rw res \<times> 's storage" where
  "storage_transaction_rw I st sz =
     (case transaction_rw I (sto_backend st) sz of (r, s) \<Rightarrow> (r, st\<lparr>sto_backend := s\<rparr>))"

text \<open>\<open>close\<close> and \<open>abort\<close> have empty bodies: the transaction is dropped.\<close>

definition transaction_close :: "('s, 'ro, 'rw) backend_impl \<Rightarrow> 'ro \<Rightarrow> 's storage \<Rightarrow> 's storage" where
  "transaction_close I tx st = st\<lparr>sto_backend := ro_drop I tx (sto_backend st)\<rparr>"

definition transaction_abort :: "('s, 'ro, 'rw) backend_impl \<Rightarrow> 'rw \<Rightarrow> 's storage \<Rightarrow> 's storage" where
  "transaction_abort I tx st = st\<lparr>sto_backend := rw_drop I tx (sto_backend st)\<rparr>"

definition transaction_commit ::
    "('s, 'ro, 'rw) backend_impl \<Rightarrow> 'rw \<Rightarrow> 's storage \<Rightarrow> unit res \<times> 's storage" where
  "transaction_commit I tx st =
     (case rw_commit I tx (sto_backend st) of (r, s) \<Rightarrow> (r, st\<lparr>sto_backend := s\<rparr>))"

section \<open>Map access\<close>

record ('k, 'v) map_ref =
  ref_dbtx :: read_ops
  ref_map_id :: db_map_id
  ref_types :: "('k, 'v) map_types"

definition map_ref_new :: "read_ops \<Rightarrow> db_map_id \<Rightarrow> ('k, 'v) map_types \<Rightarrow> ('k, 'v) map_ref" where
  "map_ref_new dbtx map_id M = \<lparr>ref_dbtx = dbtx, ref_map_id = map_id, ref_types = M\<rparr>"

definition tx_ro_map ::
    "('s, 'ro, 'rw) backend_impl \<Rightarrow> 'ro \<Rightarrow> 's storage \<Rightarrow> position \<Rightarrow> ('k, 'v) map_types \<Rightarrow> ('k, 'v) map_ref" where
  "tx_ro_map I tx st pos M = map_ref_new (ro_ops I tx (sto_backend st)) (map_INDEX pos) M"

definition tx_rw_map ::
    "('s, 'ro, 'rw) backend_impl \<Rightarrow> 'rw \<Rightarrow> 's storage \<Rightarrow> position \<Rightarrow> ('k, 'v) map_types \<Rightarrow> ('k, 'v) map_ref" where
  "tx_rw_map I tx st pos M = map_ref_new (rw_ops I tx (sto_backend st)) (map_INDEX pos) M"

definition map_ref_get :: "('k, 'v) map_ref \<Rightarrow> 'k \<Rightarrow> 'v encoded option res" where
  "map_ref_get m key = internal_get (ref_types m) (ref_dbtx m) (ref_map_id m) key"

definition map_ref_prefix_iter ::
    "('k, 'v) map_ref \<Rightarrow> 'p codec \<Rightarrow> 'p \<Rightarrow> ('k \<times> 'v encoded) res list res" where
  "map_ref_prefix_iter m P pfx =
     internal_prefix_iter (ref_types m) (ref_dbtx m) (ref_map_id m) (enc P pfx)"

definition map_ref_prefix_iter_keys :: "('k, 'v) map_ref \<Rightarrow> 'p codec \<Rightarrow> 'p \<Rightarrow> 'k res list res" where
  "map_ref_prefix_iter_keys m P pfx =
     internal_prefix_iter_keys (ref_types m) (ref_dbtx m) (ref_map_id m) (enc P pfx)"

definition map_ref_prefix_iter_decoded ::
    "('k, 'v) map_ref \<Rightarrow> 'p codec \<Rightarrow> 'p \<Rightarrow> ('k \<times> 'v) res list res" where
  "map_ref_prefix_iter_decoded m P pfx =
     o_map (map (\<lambda>item. o_bind item (\<lambda>(k, v). o_map (Pair k) (encoded_decode (value_codec (ref_types m)) v))))
       (map_ref_prefix_iter m P pfx)"

text \<open>
  \<open>MapMut\<close> borrows the transaction mutably: its writes return the transaction and the storage, which
  are arguments of its operations. Its reads are those of \<open>MapRef\<close> on the same transaction.
\<close>

record ('k, 'v) map_mut =
  mut_map_id :: db_map_id
  mut_types :: "('k, 'v) map_types"

definition map_mut_new :: "db_map_id \<Rightarrow> ('k, 'v) map_types \<Rightarrow> ('k, 'v) map_mut" where
  "map_mut_new map_id M = \<lparr>mut_map_id = map_id, mut_types = M\<rparr>"

definition get_mut :: "position \<Rightarrow> ('k, 'v) map_types \<Rightarrow> ('k, 'v) map_mut" where
  "get_mut pos M = map_mut_new (map_INDEX pos) M"

lemma get_mut_simps [simp]: "mut_map_id (get_mut pos M) = map_INDEX pos" "mut_types (get_mut pos M) = M"
  by (simp_all add: get_mut_def map_mut_new_def)

definition map_mut_put ::
    "('s, 'ro, 'rw) backend_impl \<Rightarrow> ('k, 'v) map_mut \<Rightarrow> 'k \<Rightarrow> 'v \<Rightarrow> 'rw \<Rightarrow> 's storage \<Rightarrow>
       unit res \<times> 'rw \<times> 's storage" where
  "map_mut_put I m key val tx st =
     (case rw_put I tx (sto_backend st) (mut_map_id m) (enc (key_codec (mut_types m)) key)
             (enc (value_codec (mut_types m)) val) of
        (r, tx', s) \<Rightarrow> (r, tx', st\<lparr>sto_backend := s\<rparr>))"

definition map_mut_del ::
    "('s, 'ro, 'rw) backend_impl \<Rightarrow> ('k, 'v) map_mut \<Rightarrow> 'k \<Rightarrow> 'rw \<Rightarrow> 's storage \<Rightarrow>
       unit res \<times> 'rw \<times> 's storage" where
  "map_mut_del I m key tx st =
     (case rw_del I tx (sto_backend st) (mut_map_id m) (enc (key_codec (mut_types m)) key) of
        (r, tx', s) \<Rightarrow> (r, tx', st\<lparr>sto_backend := s\<rparr>))"

definition map_mut_get ::
    "('s, 'ro, 'rw) backend_impl \<Rightarrow> ('k, 'v) map_mut \<Rightarrow> 'k \<Rightarrow> 'rw \<Rightarrow> 's storage \<Rightarrow> 'v encoded option res" where
  "map_mut_get I m key tx st = internal_get (mut_types m) (rw_ops I tx (sto_backend st)) (mut_map_id m) key"

definition map_mut_prefix_iter ::
    "('s, 'ro, 'rw) backend_impl \<Rightarrow> ('k, 'v) map_mut \<Rightarrow> 'p codec \<Rightarrow> 'p \<Rightarrow> 'rw \<Rightarrow> 's storage \<Rightarrow>
       ('k \<times> 'v encoded) res list res" where
  "map_mut_prefix_iter I m P pfx tx st =
     internal_prefix_iter (mut_types m) (rw_ops I tx (sto_backend st)) (mut_map_id m) (enc P pfx)"

text \<open>Reads through \<open>MapMut\<close> and through a \<open>MapRef\<close> of the same transaction agree.\<close>

lemma map_mut_reads_eq_ref:
  "map_mut_get I (get_mut pos M) key tx st = map_ref_get (tx_rw_map I tx st pos M) key"
  "map_mut_prefix_iter I (get_mut pos M) P pfx tx st = map_ref_prefix_iter (tx_rw_map I tx st pos M) P pfx"
  by (simp_all add: map_mut_get_def map_mut_prefix_iter_def map_ref_get_def map_ref_prefix_iter_def tx_rw_map_def
      map_ref_new_def)

section \<open>HasPrefix\<close>

text \<open>
  The prefixes of a key type: nothing, the first component of a pair or a triple, the first two
  components of a triple. A tuple of one element is encoded as its element, a triple as its components
  one after the other. Each is the part of the key that the prefix encodes.
\<close>

definition triple_codec :: "'a codec \<Rightarrow> 'b codec \<Rightarrow> 'c codec \<Rightarrow> ('a \<times> 'b \<times> 'c) codec" where
  "triple_codec A B C = pair_codec A (pair_codec B C)"

definition has_prefix_unit :: "'a \<Rightarrow> unit" where
  "has_prefix_unit k = ()"

definition has_prefix_pair :: "'t \<times> 'u \<Rightarrow> 't" where
  "has_prefix_pair k = fst k"

definition has_prefix_triple :: "'t \<times> 'u \<times> 'w \<Rightarrow> 't" where
  "has_prefix_triple k = fst k"

definition has_prefix_triple_pair :: "'t \<times> 'u \<times> 'w \<Rightarrow> 't \<times> 'u" where
  "has_prefix_triple_pair k = (fst k, fst (snd k))"

lemma has_prefix_encodings:
  assumes "scale_codec A" and "scale_codec B" and "scale_codec C"
  shows "encoding_prefix unit_codec A has_prefix_unit"
    and "encoding_prefix A (pair_codec A B) has_prefix_pair"
    and "encoding_prefix A (triple_codec A B C) has_prefix_triple"
    and "encoding_prefix (pair_codec A B) (triple_codec A B C) has_prefix_triple_pair"
proof -
  show "encoding_prefix unit_codec A has_prefix_unit"
    using unit_prefix [OF assms(1)] by (simp add: has_prefix_unit_def [abs_def])
  show "encoding_prefix A (pair_codec A B) has_prefix_pair"
    using pair_codec_first [OF assms(1,2)] by (simp add: has_prefix_pair_def [abs_def])
  show "encoding_prefix A (triple_codec A B C) has_prefix_triple"
    using pair_codec_first [OF assms(1) pair_codec_scale [OF assms(2,3)]]
    by (simp add: has_prefix_triple_def [abs_def] triple_codec_def)
  show "encoding_prefix (pair_codec A B) (triple_codec A B C) has_prefix_triple_pair"
  proof (intro encoding_prefix.intro encoding_prefix_axioms.intro)
    fix k :: "'a \<times> 'b \<times> 'c"
    show "starts_with (enc (triple_codec A B C) k) (enc (pair_codec A B) (has_prefix_triple_pair k))"
      by (cases k) (simp add: triple_codec_def pair_codec_def has_prefix_triple_pair_def starts_with_iff)
  qed (simp_all add: assms pair_codec_scale triple_codec_def)
qed

section \<open>Handles\<close>

text \<open>
  Both clones of a storage are handles on the same backend state; \<open>clone\<close> is how the backend clones its
  own handle.
\<close>

definition storage_clone :: "('s \<Rightarrow> 's) \<Rightarrow> 's storage \<Rightarrow> 's storage" where
  "storage_clone clone self = \<lparr>sto_backend = clone (sto_backend self), sto_schema = sto_schema self\<rparr>"

definition storage_shallow_clone :: "('s \<Rightarrow> 's) \<Rightarrow> 's storage \<Rightarrow> 's storage" where
  "storage_shallow_clone shallow_clone self =
     \<lparr>sto_backend = shallow_clone (sto_backend self), sto_schema = sto_schema self\<rparr>"

section \<open>The typed view of a map\<close>

text \<open>
  A map all of whose writes went through the codecs holds encodings only; then it stands for a
  partial function from keys to values.
\<close>

definition typed_ok :: "('k, 'v) map_types \<Rightarrow> (data, data) btree \<Rightarrow> bool" where
  "typed_ok M m \<longleftrightarrow>
     (\<forall>(k, v) \<in> set m. k \<in> range (enc (key_codec M)) \<and> v \<in> range (enc (value_codec M)))"

definition typed_get :: "('k, 'v) map_types \<Rightarrow> (data, data) btree \<Rightarrow> 'k \<Rightarrow> 'v option" where
  "typed_get M m key = Option.bind (bt_get m (enc (key_codec M) key)) (decode_all (value_codec M))"

definition decode_entry :: "('k, 'v) map_types \<Rightarrow> data \<times> data \<Rightarrow> 'k \<times> 'v" where
  "decode_entry M = (\<lambda>(k, v). (the (decode_all (key_codec M) k), the (decode_all (value_codec M) v)))"

locale typed_map =
  K: scale_codec "key_codec M" + V: scale_codec "value_codec M"
  for M :: "('k, 'v) map_types"
begin

lemma typed_ok_empty: "typed_ok M bt_empty"
  by (simp add: typed_ok_def bt_empty_def)

lemma typed_ok_get:
  "typed_ok M m \<Longrightarrow> bt_get m b = Some v \<Longrightarrow> \<exists>x y. b = enc (key_codec M) x \<and> v = enc (value_codec M) y"
  unfolding bt_get_def typed_ok_def by (fastforce dest: map_of_SomeD)

lemma typed_get_empty: "typed_get M bt_empty key = None"
  by (simp add: typed_get_def)

lemma typed_get_put:
  assumes "bt_inv m"
  shows "typed_get M (bt_insert (enc (key_codec M) k) (enc (value_codec M) v) m) = (typed_get M m)(k \<mapsto> v)"
  using assms by (auto simp: typed_get_def bt_get_insert K.enc_inj V.decode_all_enc fun_eq_iff)

lemma typed_get_del:
  assumes "bt_inv m"
  shows "typed_get M (bt_remove (enc (key_codec M) k) m) = (typed_get M m)(k := None)"
  using assms by (auto simp: typed_get_def bt_get_remove K.enc_inj fun_eq_iff)

lemma item_Ok:
  assumes "(b, v) \<in> set m" and "typed_ok M m"
  shows "from_bytes_unchecked (key_codec M) b = Ok (Encoded b)"
    and "encoded_decode (key_codec M) (Encoded b) = Ok (fst (decode_entry M (b, v)))"
    and "from_bytes_unchecked (value_codec M) v = Ok (Encoded v)"
    and "encoded_decode (value_codec M) (Encoded v) = Ok (snd (decode_entry M (b, v)))"
  using assms
  by (auto simp: typed_ok_def decode_entry_def K.decode_all_enc V.decode_all_enc
      K.from_bytes_enc V.from_bytes_enc K.decode_enc V.decode_enc)

lemma typed_ok_prefix: "typed_ok M m \<Longrightarrow> typed_ok M (bt_prefix p m)"
  by (auto simp: typed_ok_def bt_prefix_def)

lemma typed_ok_put:
  assumes "bt_inv m" and "typed_ok M m"
  shows "typed_ok M (bt_insert (enc (key_codec M) k) (enc (value_codec M) v) m)"
  using assms by (auto simp: typed_ok_def dest!: set_bt_insert)

lemma typed_ok_del:
  assumes "typed_ok M m"
  shows "typed_ok M (bt_remove b m)"
  using assms by (auto simp: typed_ok_def dest: set_bt_remove)

text \<open>What a typed read makes of the bytes it finds.\<close>

lemma internal_get_typed:
  assumes "r_get ops i (enc (key_codec M) k) = Ok (bt_get m (enc (key_codec M) k))"
    and "typed_ok M m"
  shows "internal_get M ops i k = Ok (map_option (\<lambda>v. Encoded (enc (value_codec M) v)) (typed_get M m k))"
proof (cases "bt_get m (enc (key_codec M) k)")
  case None
  with assms show ?thesis by (simp add: internal_get_def typed_get_def)
next
  case (Some b)
  with assms(2) obtain v where "b = enc (value_codec M) v" using typed_ok_get by blast
  with assms Some show ?thesis
    by (simp add: internal_get_def typed_get_def V.from_bytes_enc V.decode_all_enc)
qed

lemma internal_iter_typed:
  assumes "r_prefix_iter ops i p = Ok m" and "typed_ok M m"
  shows "internal_prefix_iter M ops i p =
      Ok (map (\<lambda>e. Ok (fst (decode_entry M e), Encoded (snd e))) m)"
  and "internal_prefix_iter_keys M ops i p = Ok (map (\<lambda>e. Ok (fst (decode_entry M e))) m)"
  using assms
  by (auto simp: internal_prefix_iter_def internal_prefix_iter_keys_def item_Ok)

lemma prefix_iter_decoded_typed:
  assumes "r_prefix_iter ops i (enc P p) = Ok m" and "typed_ok M m"
  shows "map_ref_prefix_iter_decoded (map_ref_new ops i M) P p = Ok (map (\<lambda>e. Ok (decode_entry M e)) m)"
proof -
  have "o_map (Pair (fst (decode_entry M e))) (encoded_decode (value_codec M) (Encoded (snd e))) =
      (Ok (decode_entry M e) :: ('k \<times> 'v) res)" if "e \<in> set m" for e
    by (subst item_Ok(4) [of "fst e" "snd e" m]) (simp_all add: that assms(2))
  then show ?thesis
    using internal_iter_typed [OF assms]
    by (simp add: map_ref_prefix_iter_decoded_def map_ref_prefix_iter_def map_ref_new_def)
qed

text \<open>A decoded scan has the entries of the typed view.\<close>

lemma decode_entries:
  assumes "bt_inv m" and "typed_ok M m"
  shows "set (map (decode_entry M) m) = {(k, v). typed_get M m k = Some v}"
proof (intro equalityI subsetI)
  fix e assume "e \<in> set (map (decode_entry M) m)"
  then obtain b w where bw: "(b, w) \<in> set m" "e = decode_entry M (b, w)" by auto
  with assms(2) obtain k v where "b = enc (key_codec M) k" "w = enc (value_codec M) v"
    by (auto simp: typed_ok_def)
  moreover have "bt_get m b = Some w" using bw(1) assms(1) by (simp add: bt_get_in_set)
  ultimately show "e \<in> {(k, v). typed_get M m k = Some v}"
    using bw(2) by (simp add: typed_get_def decode_entry_def K.decode_all_enc V.decode_all_enc)
next
  fix e assume "e \<in> {(k, v). typed_get M m k = Some v}"
  then obtain k v where e: "e = (k, v)" "typed_get M m k = Some v" by auto
  then obtain w where w: "bt_get m (enc (key_codec M) k) = Some w" "decode_all (value_codec M) w = Some v"
    by (auto simp: typed_get_def bind_eq_Some_conv)
  then have "(enc (key_codec M) k, w) \<in> set m" using assms(1) by (simp add: bt_get_in_set)
  moreover have "decode_entry M (enc (key_codec M) k, w) = e"
    using e w by (simp add: decode_entry_def K.decode_all_enc)
  ultimately show "e \<in> set (map (decode_entry M) m)" by (metis image_eqI list.set_map)
qed

end

end
