(* ===== verification/Typed_Storage.thy ===== *)
theory Typed_Storage
  imports Database In_Memory
begin

text \<open>
  Typed storage over any backend that keeps the contract: one map of a schema, read and written through
  its codecs, behaves as a partial function from keys to values, inside a transaction, after a commit
  and after an abort. Interpreted on the in-memory backend with the documented codecs.
\<close>

text \<open>A series of typed writes, \<open>None\<close> for a deletion; the first that fails ends it.\<close>

fun typed_writes ::
    "('s, 'ro, 'rw) backend_impl \<Rightarrow> position \<Rightarrow> ('k, 'v) map_types \<Rightarrow> ('k \<times> 'v option) list \<Rightarrow> 'rw \<Rightarrow>
       's storage \<Rightarrow> unit res \<times> 'rw \<times> 's storage" where
  "typed_writes I pos M [] tx st = (Ok (), tx, st)"
| "typed_writes I pos M ((k, w) # ws) tx st =
     (case (case w of Some v \<Rightarrow> map_mut_put I (get_mut pos M) k v tx st | None \<Rightarrow> map_mut_del I (get_mut pos M) k tx st) of
        (Ok _, tx', st') \<Rightarrow> typed_writes I pos M ws tx' st'
      | (r, tx', st') \<Rightarrow> (r, tx', st'))"

text \<open>The typed view of the map at a position.\<close>

definition typed_view :: "('k, 'v) map_types \<Rightarrow> position \<Rightarrow> contents \<Rightarrow> 'k \<Rightarrow> 'v option" where
  "typed_view M pos c = typed_get M (c ! as_usize (map_INDEX pos))"

definition typed_at :: "('k, 'v) map_types \<Rightarrow> position \<Rightarrow> contents \<Rightarrow> bool" where
  "typed_at M pos c \<longleftrightarrow>
     as_usize (map_INDEX pos) < length c \<and> typed_ok M (c ! as_usize (map_INDEX pos))"

lemma typed_at_index: "typed_at M pos c \<Longrightarrow> as_usize (map_INDEX pos) < length c"
  by (simp add: typed_at_def)

locale typed_storage =
  backend_contract B cfg_ok key_ok idle ro_open rw_open + typed_map M
  for B :: "('b, 's, 'ro, 'rw) backend" and cfg_ok key_ok idle ro_open rw_open
    and M :: "('k, 'v) map_types"
begin

lemma map_mut_put_spec:
  assumes "rw_open tx (sto_backend st) b c" and "typed_at M pos c"
    and "key_ok (enc (key_codec M) k)"
  obtains tx' st' c' where "map_mut_put (be_impl B) (get_mut pos M) k v tx st = (Ok (), tx', st')"
    and "rw_open tx' (sto_backend st') b c'" and "sto_schema st' = sto_schema st" and "typed_at M pos c'"
    and "typed_view M pos c' = (typed_view M pos c)(k \<mapsto> v)"
    and "\<And>j. j \<noteq> as_usize (map_INDEX pos) \<Longrightarrow> c' ! j = c ! j"
proof -
  let ?i = "as_usize (map_INDEX pos)"
  let ?c = "contents_put ?i (enc (key_codec M) k) (enc (value_codec M) v) c"
  have i: "?i < length c" using assms(2) by (rule typed_at_index)
  have inv: "bt_inv (c ! ?i)" using contents_ok_nth [OF rw_open_ok [OF assms(1)] i] .
  from rw_put_spec [OF assms(1) i assms(3), of "enc (value_codec M) v"] obtain tx' s' where
    "rw_put (be_impl B) tx (sto_backend st) (map_INDEX pos) (enc (key_codec M) k) (enc (value_codec M) v) =
      (Ok (), tx', s')" "rw_open tx' s' b ?c" by auto
  moreover have "typed_at M pos ?c" using assms(2) i inv by (simp add: typed_at_def typed_ok_put)
  moreover have "typed_view M pos ?c = (typed_view M pos c)(k \<mapsto> v)"
    using i inv by (simp add: typed_view_def typed_get_put)
  ultimately show thesis
    using i by (intro that [of tx' "st\<lparr>sto_backend := s'\<rparr>" ?c]) (simp_all add: map_mut_put_def)
qed

lemma map_mut_del_spec:
  assumes "rw_open tx (sto_backend st) b c" and "typed_at M pos c"
    and "key_ok (enc (key_codec M) k)"
  obtains tx' st' c' where "map_mut_del (be_impl B) (get_mut pos M) k tx st = (Ok (), tx', st')"
    and "rw_open tx' (sto_backend st') b c'" and "sto_schema st' = sto_schema st" and "typed_at M pos c'"
    and "typed_view M pos c' = (typed_view M pos c)(k := None)"
    and "\<And>j. j \<noteq> as_usize (map_INDEX pos) \<Longrightarrow> c' ! j = c ! j"
proof -
  let ?i = "as_usize (map_INDEX pos)"
  let ?c = "contents_del ?i (enc (key_codec M) k) c"
  have i: "?i < length c" using assms(2) by (rule typed_at_index)
  have inv: "bt_inv (c ! ?i)" using contents_ok_nth [OF rw_open_ok [OF assms(1)] i] .
  from rw_del_spec [OF assms(1) i assms(3)] obtain tx' s' where
    "rw_del (be_impl B) tx (sto_backend st) (map_INDEX pos) (enc (key_codec M) k) = (Ok (), tx', s')"
    "rw_open tx' s' b ?c" by auto
  moreover have "typed_at M pos ?c" using assms(2) i by (simp add: typed_at_def typed_ok_del)
  moreover have "typed_view M pos ?c = (typed_view M pos c)(k := None)"
    using i inv by (simp add: typed_view_def typed_get_del)
  ultimately show thesis
    using i by (intro that [of tx' "st\<lparr>sto_backend := s'\<rparr>" ?c]) (simp_all add: map_mut_del_def)
qed

lemma typed_writes_spec:
  assumes "rw_open tx (sto_backend st) b c" and "typed_at M pos c"
    and "\<forall>(k, w) \<in> set ws. key_ok (enc (key_codec M) k)"
  shows "\<exists>tx' st' c'. typed_writes (be_impl B) pos M ws tx st = (Ok (), tx', st') \<and>
    rw_open tx' (sto_backend st') b c' \<and> sto_schema st' = sto_schema st \<and> typed_at M pos c' \<and>
    typed_view M pos c' = overlay (map_of (rev ws)) (typed_view M pos c) \<and>
    (\<forall>j. j \<noteq> as_usize (map_INDEX pos) \<longrightarrow> c' ! j = c ! j)"
  using assms
proof (induction ws arbitrary: tx st c)
  case (Cons e ws)
  obtain k w where e: "e = (k, w)" by (cases e)
  with Cons.prems(3) have k: "key_ok (enc (key_codec M) k)" by simp
  obtain tx1 st1 c1 where 1:
    "(case w of Some v \<Rightarrow> map_mut_put (be_impl B) (get_mut pos M) k v tx st
      | None \<Rightarrow> map_mut_del (be_impl B) (get_mut pos M) k tx st) = (Ok (), tx1, st1)"
    "rw_open tx1 (sto_backend st1) b c1" "sto_schema st1 = sto_schema st" "typed_at M pos c1"
    "typed_view M pos c1 = (typed_view M pos c)(k := w)"
    "\<And>j. j \<noteq> as_usize (map_INDEX pos) \<Longrightarrow> c1 ! j = c ! j"
  proof (cases w)
    case None
    with map_mut_del_spec [OF Cons.prems(1,2) k] that show thesis by (metis option.simps(4))
  next
    case (Some v)
    with map_mut_put_spec [OF Cons.prems(1,2) k, of v] that show thesis by (metis option.simps(5))
  qed
  have ov: "overlay (map_of (rev ws)) ((typed_view M pos c)(k := w)) =
      overlay (map_of (rev (e # ws))) (typed_view M pos c)"
    by (simp add: e overlay_def map_add_def fun_eq_iff split: option.splits)
  have "\<forall>(k, w) \<in> set ws. key_ok (enc (key_codec M) k)" using Cons.prems(3) by simp
  from Cons.IH [OF 1(2,4) this] show ?case
    unfolding 1(3,5) ov using 1(1,6) e by simp
qed auto

lemma map_ref_get_rw_spec:
  assumes "rw_open tx (sto_backend st) b c" and "typed_at M pos c" and "key_ok (enc (key_codec M) k)"
  shows "map_ref_get (tx_rw_map (be_impl B) tx st pos M) k =
    Ok (map_option (\<lambda>v. Encoded (enc (value_codec M) v)) (typed_view M pos c k))"
  unfolding map_ref_get_def tx_rw_map_def map_ref_new_def typed_view_def map_ref.simps
  using rw_get_spec [OF assms(1) typed_at_index [OF assms(2)] assms(3)] assms(2)
  by (intro internal_get_typed) (simp_all add: rw_ops_def typed_at_def)

lemma map_ref_get_ro_spec:
  assumes "ro_open tx (sto_backend st) c" and "typed_at M pos c" and "key_ok (enc (key_codec M) k)"
  shows "map_ref_get (tx_ro_map (be_impl B) tx st pos M) k =
    Ok (map_option (\<lambda>v. Encoded (enc (value_codec M) v)) (typed_view M pos c k))"
  unfolding map_ref_get_def tx_ro_map_def map_ref_new_def typed_view_def map_ref.simps
  using ro_get_spec [OF assms(1) typed_at_index [OF assms(2)] assms(3)] assms(2)
  by (intro internal_get_typed) (simp_all add: ro_ops_def typed_at_def)

text \<open>The entries of a typed scan by a prefix type, in the order of the encoded keys.\<close>

lemma scan_entries:
  assumes "encoding_prefix P (key_codec M) part" and "bt_inv m" and "typed_ok M m"
  shows "set (map (decode_entry M) (bt_prefix (enc P p) m)) =
      {(k, v). typed_get M m k = Some v \<and> part k = p}"
    and "sorted_wrt (<) (map (enc (key_codec M) \<circ> fst \<circ> decode_entry M) (bt_prefix (enc P p) m))"
proof -
  have pre: "starts_with (enc (key_codec M) k) (enc P p) \<longleftrightarrow> part k = p" for k
    using encoding_prefix.starts_with_enc_iff [OF assms(1)] .
  have "typed_get M (bt_prefix (enc P p) m) k = (if part k = p then typed_get M m k else None)" for k
    by (simp add: typed_get_def bt_get_prefix pre)
  with decode_entries [of "bt_prefix (enc P p) m"] assms(2,3)
  show "set (map (decode_entry M) (bt_prefix (enc P p) m)) =
      {(k, v). typed_get M m k = Some v \<and> part k = p}"
    by (auto simp: typed_ok_prefix split: if_splits)
  have "enc (key_codec M) (fst (decode_entry M e)) = fst e" if "e \<in> set (bt_prefix (enc P p) m)" for e
  proof -
    from that assms(3) obtain k where "fst e = enc (key_codec M) k"
      by (auto simp: typed_ok_def bt_prefix_def)
    then show ?thesis by (cases e) (simp add: decode_entry_def K.decode_all_enc)
  qed
  then have "map (enc (key_codec M) \<circ> fst \<circ> decode_entry M) (bt_prefix (enc P p) m) =
      map fst (bt_prefix (enc P p) m)" by simp
  moreover have "bt_inv (bt_prefix (enc P p) m)" using assms(2) by simp
  ultimately show "sorted_wrt (<) (map (enc (key_codec M) \<circ> fst \<circ> decode_entry M) (bt_prefix (enc P p) m))"
    unfolding bt_inv_def by (simp only:)
qed

lemma map_ref_scan_ro_spec:
  assumes "ro_open tx (sto_backend st) c" and "contents_ok c" and "typed_at M pos c"
    and "encoding_prefix P (key_codec M) part"
  shows "\<exists>es. map_ref_prefix_iter_decoded (tx_ro_map (be_impl B) tx st pos M) P p = Ok (map Ok es) \<and>
    map_ref_prefix_iter_keys (tx_ro_map (be_impl B) tx st pos M) P p = Ok (map (Ok \<circ> fst) es) \<and>
    set es = {(k, v). typed_view M pos c k = Some v \<and> part k = p} \<and>
    sorted_wrt (<) (map (enc (key_codec M) \<circ> fst) es)"
proof -
  let ?m = "c ! as_usize (map_INDEX pos)"
  let ?es = "map (decode_entry M) (bt_prefix (enc P p) ?m)"
  have m: "bt_inv ?m" "typed_ok M ?m"
    using assms(2,3) by (simp_all add: typed_at_def contents_ok_nth)
  have scan: "r_prefix_iter (ro_ops (be_impl B) tx (sto_backend st)) (map_INDEX pos) (enc P p) =
      Ok (bt_prefix (enc P p) ?m)"
    using ro_iter_spec [OF assms(1) typed_at_index [OF assms(3)], of "enc P p"] by (simp add: ro_ops_def)
  from prefix_iter_decoded_typed [OF scan typed_ok_prefix [OF m(2)]]
  have "map_ref_prefix_iter_decoded (tx_ro_map (be_impl B) tx st pos M) P p = Ok (map Ok ?es)"
    by (simp add: tx_ro_map_def comp_def)
  moreover from internal_iter_typed(2) [OF scan typed_ok_prefix [OF m(2)]]
  have "map_ref_prefix_iter_keys (tx_ro_map (be_impl B) tx st pos M) P p = Ok (map (Ok \<circ> fst) ?es)"
    by (simp add: tx_ro_map_def map_ref_prefix_iter_keys_def map_ref_new_def comp_def)
  moreover have "sorted_wrt (<) (map (enc (key_codec M) \<circ> fst) ?es)"
    using scan_entries(2) [OF assms(4) m, of p] by (simp add: comp_assoc)
  ultimately show ?thesis
    using scan_entries(1) [OF assms(4) m, of p] unfolding typed_view_def by blast
qed

text \<open>Whole transactions.\<close>

lemma typed_commit_spec:
  assumes "idle (sto_backend st) c" and "typed_at M pos c"
    and "\<forall>(k, w) \<in> set ws. key_ok (enc (key_codec M) k)"
  shows "\<exists>tx st1 tx' st2 st3 ro st4 c'.
    storage_transaction_rw (be_impl B) st sz = (Ok tx, st1) \<and>
    typed_writes (be_impl B) pos M ws tx st1 = (Ok (), tx', st2) \<and>
    transaction_commit (be_impl B) tx' st2 = (Ok (), st3) \<and>
    storage_transaction_ro (be_impl B) st3 = (Ok ro, st4) \<and> sto_schema st4 = sto_schema st \<and>
    ro_open ro (sto_backend st4) c' \<and> typed_at M pos c' \<and>
    typed_view M pos c' = overlay (map_of (rev ws)) (typed_view M pos c) \<and>
    length c' = length c \<and> (\<forall>j. j \<noteq> as_usize (map_INDEX pos) \<longrightarrow> c' ! j = c ! j)"
proof -
  obtain tx s1 where 1: "transaction_rw (be_impl B) (sto_backend st) sz = (Ok tx, s1)" "rw_open tx s1 c c"
    using begin_rw_spec [OF assms(1)] by blast
  let ?st1 = "st\<lparr>sto_backend := s1\<rparr>"
  from typed_writes_spec [of tx ?st1 c c pos ws] 1(2) assms(2,3) obtain tx' st2 c' where 2:
    "typed_writes (be_impl B) pos M ws tx ?st1 = (Ok (), tx', st2)"
    "rw_open tx' (sto_backend st2) c c'" "sto_schema st2 = sto_schema st" "typed_at M pos c'"
    "typed_view M pos c' = overlay (map_of (rev ws)) (typed_view M pos c)"
    "\<forall>j. j \<noteq> as_usize (map_INDEX pos) \<longrightarrow> c' ! j = c ! j" by auto
  have "length c' = length c" using rw_open_length [OF 2(2)] .
  obtain s3 where 3: "rw_commit (be_impl B) tx' (sto_backend st2) = (Ok (), s3)" "idle s3 c'"
    using rw_commit_spec [OF 2(2)] by blast
  obtain ro s4 where 4: "transaction_ro (be_impl B) s3 = (Ok ro, s4)" "ro_open ro s4 c'"
    using begin_ro_spec [OF 3(2)] by blast
  from 1 2 3 4 \<open>length c' = length c\<close> show ?thesis
    by (intro exI [of _ tx] exI [of _ ?st1] exI [of _ tx'] exI [of _ st2] exI [of _ "st2\<lparr>sto_backend := s3\<rparr>"]
        exI [of _ ro] exI [of _ "st2\<lparr>sto_backend := s4\<rparr>"] exI [of _ c'])
      (simp add: storage_transaction_rw_def transaction_commit_def storage_transaction_ro_def)
qed

end

text \<open>Maps keyed by pairs, scanned by the first component.\<close>

definition pair_map :: "(byte \<times> 16 word, byte) map_types" where
  "pair_map = \<lparr>key_codec = pair_codec u8_codec u16_codec, value_codec = u8_codec\<rparr>"

interpretation im_typed: typed_storage "in_memory_backend join_ref" "\<lambda>_ _. True" "\<lambda>_. True"
  "lk_idle maps_view maps_valid" "lk_ro maps_view maps_valid" "lk_rw maps_view maps_valid" pair_map
  by (intro typed_storage.intro im.backend_contract_axioms typed_map.intro)
    (simp_all add: pair_map_def u8_codec.scale_codec_axioms u8_u16.K.scale_codec_axioms)

end
