(* ===== verification/Raw.thy ===== *)
theory Raw
  imports Database
begin

text \<open>
  The raw view of a storage (\<open>storage/src/database/raw.rs\<close>): map identifiers that are in range for a
  schema, the dump of a whole storage, and \<open>Storage::new_from_dump\<close> of \<open>mod.rs\<close>, which loads one.
  The schema parameter of the identifier type is an argument of its operations.
\<close>

section \<open>Identifiers\<close>

datatype raw_map_id = RawMapId (raw_idx: db_map_id)

definition raw_id_cmp :: "raw_map_id \<Rightarrow> raw_map_id \<Rightarrow> ordering" where
  "raw_id_cmp self other = db_map_id_cmp (raw_idx self) (raw_idx other)"

definition raw_id_partial_cmp :: "raw_map_id \<Rightarrow> raw_map_id \<Rightarrow> ordering option" where
  "raw_id_partial_cmp self other = Some (raw_id_cmp self other)"

instantiation raw_map_id :: linorder
begin

definition less_eq_raw_map_id :: "raw_map_id \<Rightarrow> raw_map_id \<Rightarrow> bool" where
  "less_eq_raw_map_id a b \<longleftrightarrow> raw_id_cmp a b \<noteq> Greater"

definition less_raw_map_id :: "raw_map_id \<Rightarrow> raw_map_id \<Rightarrow> bool" where
  "less_raw_map_id a b \<longleftrightarrow> raw_id_partial_cmp a b = Some Less"

instance
  by standard (auto simp: less_eq_raw_map_id_def less_raw_map_id_def raw_id_partial_cmp_def raw_id_cmp_def
      db_map_id_cmp_def raw_map_id.expand db_map_id.expand)

end

lemma less_RawMapId [simp]: "RawMapId i < RawMapId j \<longleftrightarrow> i < j"
  by (simp add: less_raw_map_id_def raw_id_partial_cmp_def raw_id_cmp_def less_db_map_id_def)

definition from_usize_unchecked :: "usize \<Rightarrow> raw_map_id" where
  "from_usize_unchecked idx = RawMapId (DbMapId idx)"

definition raw_as_usize :: "raw_map_id \<Rightarrow> usize" where
  "raw_as_usize i = as_usize (raw_idx i)"

definition raw_id_idx :: "raw_map_id \<Rightarrow> db_map_id" where
  "raw_id_idx i = raw_idx i"

text \<open>Equality, copies and the debug text are those of the index, whatever the schema.\<close>

definition raw_id_eq :: "raw_map_id \<Rightarrow> raw_map_id \<Rightarrow> bool" where
  "raw_id_eq self other \<longleftrightarrow> raw_idx self = raw_idx other"

definition raw_id_clone :: "raw_map_id \<Rightarrow> raw_map_id" where
  "raw_id_clone self = self"

definition raw_id_debug :: "raw_map_id \<Rightarrow> string" where
  "raw_id_debug self = ''DbMapId('' @ dec_digits (as_usize (raw_idx self)) @ '')''"

lemma raw_id_eq_iff: "raw_id_eq i j \<longleftrightarrow> i = j" "raw_id_clone i = i"
  by (auto simp: raw_id_eq_def raw_id_clone_def intro: raw_map_id.expand)

definition raw_id_new :: "position \<Rightarrow> raw_map_id" where
  "raw_id_new pos = RawMapId (map_INDEX pos)"

definition raw_from_usize :: "schema \<Rightarrow> usize \<Rightarrow> raw_map_id option" where
  "raw_from_usize sch idx =
     (if idx < length (desc_iter sch) then Some (from_usize_unchecked idx) else None)"

text \<open>\<open>Iterator::position\<close>.\<close>

fun iter_position :: "('a \<Rightarrow> bool) \<Rightarrow> 'a list \<Rightarrow> usize option" where
  "iter_position P [] = None"
| "iter_position P (x # xs) = (if P x then Some 0 else map_option Suc (iter_position P xs))"

definition raw_from_name :: "schema \<Rightarrow> string \<Rightarrow> raw_map_id option" where
  "raw_from_name sch n =
     map_option from_usize_unchecked (iter_position (\<lambda>desc. desc_name desc = n) (desc_iter sch))"

definition raw_info :: "schema \<Rightarrow> raw_map_id \<Rightarrow> (db_map_desc, 'e) outcome" where
  "raw_info sch i =
     (if raw_as_usize i < length (desc_iter sch) then Ok (desc_iter sch ! raw_as_usize i)
      else Panic ''index to be in range due to schema'')"

definition raw_name :: "schema \<Rightarrow> raw_map_id \<Rightarrow> (string, 'e) outcome" where
  "raw_name sch i = o_map desc_name (raw_info sch i)"

lemma iter_position_Some:
  "iter_position P xs = Some i \<longleftrightarrow> i < length xs \<and> P (xs ! i) \<and> (\<forall>j < i. \<not> P (xs ! j))"
  by (induction xs arbitrary: i) (auto simp: nth_Cons less_Suc_eq_0_disj split: nat.splits)

lemma iter_position_None: "iter_position P xs = None \<longleftrightarrow> (\<forall>x \<in> set xs. \<not> P x)"
  by (induction xs) auto

section \<open>Dumping\<close>

type_synonym map_contents = "(data, data) btree"
type_synonym storage_contents = "(raw_map_id, map_contents) btree"

definition dump_storage :: "schema \<Rightarrow> read_ops \<Rightarrow> storage_contents res" where
  "dump_storage sch dbtx =
     o_map bt_collect (o_collect (map (\<lambda>(idx, _).
         let idx = DbMapId idx
         in o_bind (r_prefix_iter dbtx idx []) (\<lambda>items. Ok (RawMapId idx, bt_collect items)))
       (enumerate 0 (desc_iter sch))))"

definition tx_dump_raw :: "('s, 'ro, 'rw) backend_impl \<Rightarrow> 'ro \<Rightarrow> 's storage \<Rightarrow> storage_contents res" where
  "tx_dump_raw I tx st = dump_storage (sto_schema st) (ro_ops I tx (sto_backend st))"

section \<open>Loading a dump\<close>

text \<open>The two loops of \<open>new_from_dump\<close>; the first write that fails ends both.\<close>

fun dump_put_map ::
    "('s, 'ro, 'rw) backend_impl \<Rightarrow> db_map_id \<Rightarrow> (data \<times> data) list \<Rightarrow> 'rw \<Rightarrow> 's \<Rightarrow> unit res \<times> 'rw \<times> 's" where
  "dump_put_map I idx [] tx s = (Ok (), tx, s)"
| "dump_put_map I idx ((key, val) # kvs) tx s =
     (case rw_put I tx s idx key val of
        (Ok _, tx', s') \<Rightarrow> dump_put_map I idx kvs tx' s'
      | (r, tx', s') \<Rightarrow> (r, tx', s'))"

fun dump_put_maps ::
    "('s, 'ro, 'rw) backend_impl \<Rightarrow> storage_contents \<Rightarrow> 'rw \<Rightarrow> 's \<Rightarrow> unit res \<times> 'rw \<times> 's" where
  "dump_put_maps I [] tx s = (Ok (), tx, s)"
| "dump_put_maps I ((map_id, map_values) # rest) tx s =
     (case dump_put_map I (raw_idx map_id) map_values tx s of
        (Ok _, tx', s') \<Rightarrow> dump_put_maps I rest tx' s'
      | (r, tx', s') \<Rightarrow> (r, tx', s'))"

definition new_from_dump ::
    "('b, 's, 'ro, 'rw) backend \<Rightarrow> 'b \<Rightarrow> schema \<Rightarrow> storage_contents \<Rightarrow> 's storage res" where
  "new_from_dump B cfg sch dump =
     o_bind (construct_db_desc (desc_iter sch)) (\<lambda>desc.
     o_bind (be_open B cfg desc) (\<lambda>s.
     case transaction_rw (be_impl B) s None of (r, s) \<Rightarrow>
       o_bind r (\<lambda>tx.
       case dump_put_maps (be_impl B) dump tx s of (r, tx, s) \<Rightarrow>
         o_bind r (\<lambda>_.
         case rw_commit (be_impl B) tx s of (r, s) \<Rightarrow>
           o_bind r (\<lambda>_. Ok \<lparr>sto_backend = s, sto_schema = sch\<rparr>)))))"

lemma new_from_dump_schema: "new_from_dump B cfg sch dump = Ok st \<Longrightarrow> sto_schema st = sch"
  unfolding new_from_dump_def case_prod_beta by (auto simp: o_bind_eq_Ok)

section \<open>Dumps of contents\<close>

definition contents_dump :: "contents \<Rightarrow> storage_contents" where
  "contents_dump c = map (\<lambda>i. (RawMapId (DbMapId i), c ! i)) [0..<length c]"

lemma bt_inv_contents_dump [simp]: "bt_inv (contents_dump c)"
  by (auto simp: bt_inv_def contents_dump_def sorted_wrt_map comp_def
      intro: sorted_wrt_mono_rel [OF _ sorted_wrt_upt])

fun restore_map :: "nat \<Rightarrow> (data \<times> data) list \<Rightarrow> contents \<Rightarrow> contents" where
  "restore_map i [] c = c"
| "restore_map i ((k, v) # kvs) c = restore_map i kvs (contents_put i k v c)"

fun restore_maps :: "storage_contents \<Rightarrow> contents \<Rightarrow> contents" where
  "restore_maps [] c = c"
| "restore_maps ((i, m) # rest) c = restore_maps rest (restore_map (raw_as_usize i) m c)"

lemma restore_map_eq:
  "i < length c \<Longrightarrow> restore_map i kvs c = c[i := foldl (\<lambda>m (k, v). bt_insert k v m) (c ! i) kvs]"
  by (induction kvs arbitrary: c) (auto simp: contents_put_def)

lemma length_restore_map [simp]: "length (restore_map i kvs c) = length c"
  by (induction i kvs c rule: restore_map.induct) auto

lemma restore_maps_append: "restore_maps (xs @ ys) c = restore_maps ys (restore_maps xs c)"
  by (induction xs c rule: restore_maps.induct) auto

lemma restore_contents_dump:
  assumes "contents_ok c"
  shows "restore_maps (contents_dump c) (empty_contents (length c)) = c"
proof -
  have "restore_maps (map (\<lambda>i. (RawMapId (DbMapId i), c ! i)) [0..<j]) (empty_contents (length c)) =
      take j c @ empty_contents (length c - j)" if "j \<le> length c" for j
    using that
  proof (induction j)
    case (Suc j)
    then have j: "j < length c" by simp
    let ?d = "take j c @ empty_contents (length c - j)"
    have "restore_map j (c ! j) ?d = ?d[j := bt_collect (c ! j)]"
      using j by (simp add: restore_map_eq bt_collect_def nth_append)
    also have "\<dots> = ?d[j := c ! j]" using assms j by (simp add: contents_ok_nth)
    also have "\<dots> = take (Suc j) c @ empty_contents (length c - Suc j)"
      using j by (simp add: list_update_append take_Suc_conv_app_nth Suc_diff_Suc [symmetric])
    finally show ?case using Suc by (simp add: restore_maps_append raw_as_usize_def)
  qed simp
  from this [of "length c"] show ?thesis by (simp add: contents_dump_def)
qed

context backend_contract
begin

lemma dump_put_map_spec:
  assumes "rw_open w s b c" and "i < length c" and "\<forall>(k, v) \<in> set kvs. key_ok k"
  shows "\<exists>w' s'. dump_put_map (be_impl B) (DbMapId i) kvs w s = (Ok (), w', s') \<and>
    rw_open w' s' b (restore_map i kvs c)"
  using assms
proof (induction kvs arbitrary: w s c)
  case (Cons e kvs)
  obtain k v where e: "e = (k, v)" by (cases e)
  with Cons.prems(3) have "key_ok k" by simp
  then obtain w' s' where step:
    "rw_put (be_impl B) w s (DbMapId i) k v = (Ok (), w', s')" "rw_open w' s' b (contents_put i k v c)"
    using rw_put_spec [OF Cons.prems(1,2), of k v] by blast
  from Cons.IH [OF this(2)] Cons.prems e step(1) show ?case by simp
qed simp

lemma dump_put_maps_spec:
  assumes "rw_open w s b c"
    and "\<forall>(i, m) \<in> set d. raw_as_usize i < length c \<and> (\<forall>(k, v) \<in> set m. key_ok k)"
  shows "\<exists>w' s'. dump_put_maps (be_impl B) d w s = (Ok (), w', s') \<and> rw_open w' s' b (restore_maps d c)"
  using assms
proof (induction d arbitrary: w s c)
  case (Cons e d)
  obtain i m where e: "e = (i, m)" by (cases e)
  have i: "raw_idx i = DbMapId (raw_as_usize i)" by (simp add: raw_as_usize_def)
  obtain w' s' where step:
    "dump_put_map (be_impl B) (raw_idx i) m w s = (Ok (), w', s')"
    "rw_open w' s' b (restore_map (raw_as_usize i) m c)"
    using dump_put_map_spec [OF Cons.prems(1), of "raw_as_usize i" m] Cons.prems(2) e
    unfolding i by auto
  from Cons.IH [OF step(2)] Cons.prems(2) e step(1) show ?case by simp
qed simp

lemma new_from_dump_contents:
  assumes "cfg_ok cfg \<lparr>map_descs = DbMapsData (desc_iter sch)\<rparr>" and "distinct (schema_names sch)" and "contents_ok c"
    and "length c = length (desc_iter sch)" and "\<forall>m \<in> set c. \<forall>(k, v) \<in> set m. key_ok k"
  shows "\<exists>st. new_from_dump B cfg sch (contents_dump c) = Ok st \<and> idle (sto_backend st) c"
proof -
  let ?d = "\<lparr>map_descs = DbMapsData (desc_iter sch)\<rparr>"
  have desc: "construct_db_desc (desc_iter sch) = (Ok ?d :: db_desc res)"
    using assms(2) by (rule schema_desc)
  obtain s where op: "be_open B cfg ?d = Ok s" "idle s (empty_contents (length c))"
    using open_spec [OF assms(1)] assms(2,4)
    by (auto simp: schema_names_def desc_map_count_def maps_map_count_def)
  obtain w s1 where rw: "transaction_rw (be_impl B) s None = (Ok w, s1)"
    "rw_open w s1 (empty_contents (length c)) (empty_contents (length c))"
    using begin_rw_spec [OF op(2)] by blast
  have "\<forall>(i, m) \<in> set (contents_dump c).
      raw_as_usize i < length (empty_contents (length c)) \<and> (\<forall>(k, v) \<in> set m. key_ok k)"
    using assms(5) by (auto simp: contents_dump_def raw_as_usize_def)
  from dump_put_maps_spec [OF rw(2) this] obtain w' s2 where puts:
    "dump_put_maps (be_impl B) (contents_dump c) w s1 = (Ok (), w', s2)"
    "rw_open w' s2 (empty_contents (length c)) c"
    using assms(3) by (auto simp: restore_contents_dump)
  obtain s3 where "rw_commit (be_impl B) w' s2 = (Ok (), s3)" "idle s3 c"
    using rw_commit_spec [OF puts(2)] by blast
  with desc op(1) rw(1) puts(1) show ?thesis by (simp add: new_from_dump_def)
qed

lemma dump_storage_contents:
  assumes "ro_open t s c" and "contents_ok c" and "length c = length (desc_iter sch)"
  shows "dump_storage sch (ro_ops (be_impl B) t s) = Ok (contents_dump c)"
proof -
  have "map (\<lambda>(idx, _).
      let idx = DbMapId idx
      in o_bind (r_prefix_iter (ro_ops (be_impl B) t s) idx []) (\<lambda>items. Ok (RawMapId idx, bt_collect items)))
      (enumerate 0 (desc_iter sch)) =
    map (\<lambda>i. Ok (RawMapId (DbMapId i), c ! i)) [0..<length c]"
    using assms
    by (intro nth_equalityI)
      (auto simp: nth_enumerate_eq ro_ops_def ro_iter_spec contents_ok_nth Let_def)
  then show ?thesis
    unfolding dump_storage_def by (simp add: contents_dump_def [symmetric])
qed

end

end
