(* ===== verification/Storage_Properties.thy ===== *)
theory Storage_Properties
  imports Typed_Storage Raw
begin

text \<open>
  Properties of the typed storage: opening, the index of a map, transactions over typed maps, scans by a
  key prefix, encoded values, raw identifiers and dumps.
\<close>

text \<open>The in-memory storage of one empty map, on which the witnesses run.\<close>

definition one_map_storage :: "storage_maps lock_impl storage" where
  "one_map_storage =
     \<lparr>sto_backend =
        \<lparr>li_db = \<lparr>rw_cell = StorageMaps (DbMapsData [bt_empty]), rw_readers = 0, rw_writer = False,
           rw_poisoned = False\<rparr>, li_num_maps = DbMapCount 1\<rparr>,
      sto_schema = decl_schema [''scores'']\<rparr>"

lemma one_map_idle: "lk_idle maps_view maps_valid (sto_backend one_map_storage) [bt_empty]"
  by (simp add: lk_idle_def one_map_storage_def lock_free_def locked_db_def maps_valid_def maps_view_def
      contents_ok_def)

lemma one_map_typed: "typed_at pair_map Head [bt_empty]"
  by (simp add: typed_at_def typed_ok_def bt_empty_def)

lemma one_map_view: "typed_view pair_map Head [bt_empty] = Map.empty"
  by (simp add: typed_view_def im_typed.typed_get_empty fun_eq_iff)

section \<open>Typed transactions\<close>

text \<open>
  C6. A committed transaction over a typed map is durable: after it, every read-only transaction finds
  under each key the value last written to it, nothing when it was last deleted, and the previous
  value when it was not written. This holds for every backend that keeps the contract.
\<close>

theorem typed_commit_durable:
  assumes "typed_storage B cfg_ok key_ok idle ro_open rw_open M"
    and "idle (sto_backend st) c" and "typed_at M pos c"
    and "\<forall>(k, w) \<in> set ws. key_ok (enc (key_codec M) k)" and "key_ok (enc (key_codec M) key)"
  shows "\<exists>tx st1 tx' st2 st3 ro st4.
    storage_transaction_rw (be_impl B) st sz = (Ok tx, st1) \<and>
    typed_writes (be_impl B) pos M ws tx st1 = (Ok (), tx', st2) \<and>
    transaction_commit (be_impl B) tx' st2 = (Ok (), st3) \<and>
    storage_transaction_ro (be_impl B) st3 = (Ok ro, st4) \<and>
    map_ref_get (tx_ro_map (be_impl B) ro st4 pos M) key =
      Ok (map_option (\<lambda>v. Encoded (enc (value_codec M) v))
        (overlay (map_of (rev ws)) (typed_view M pos c) key))"
proof -
  from typed_storage.typed_commit_spec [OF assms(1-4), of sz] obtain tx st1 tx' st2 st3 ro st4 c' where run:
    "storage_transaction_rw (be_impl B) st sz = (Ok tx, st1)"
    "typed_writes (be_impl B) pos M ws tx st1 = (Ok (), tx', st2)"
    "transaction_commit (be_impl B) tx' st2 = (Ok (), st3)"
    "storage_transaction_ro (be_impl B) st3 = (Ok ro, st4)"
    and c': "ro_open ro (sto_backend st4) c'" "typed_at M pos c'"
      "typed_view M pos c' = overlay (map_of (rev ws)) (typed_view M pos c)" by blast
  from typed_storage.map_ref_get_ro_spec [OF assms(1) c'(1,2) assms(5)] run c'(3) show ?thesis by auto
qed

theorem typed_commit_durable_witness:
  "\<exists>tx st1 tx' st2 st3 ro st4.
    storage_transaction_rw (be_impl (in_memory_backend join_ref)) one_map_storage None = (Ok tx, st1) \<and>
    typed_writes (be_impl (in_memory_backend join_ref)) Head pair_map
      [((1, 2), Some 7), ((1, 3), Some 8), ((1, 2), Some 9), ((1, 3), None)] tx st1 = (Ok (), tx', st2) \<and>
    transaction_commit (be_impl (in_memory_backend join_ref)) tx' st2 = (Ok (), st3) \<and>
    storage_transaction_ro (be_impl (in_memory_backend join_ref)) st3 = (Ok ro, st4) \<and>
    map_ref_get (tx_ro_map (be_impl (in_memory_backend join_ref)) ro st4 Head pair_map) (1, 2) =
      Ok (Some (Encoded [9]))"
  using typed_commit_durable [OF im_typed.typed_storage_axioms, OF one_map_idle one_map_typed,
      where ws = "[((1, 2), Some 7), ((1, 3), Some 8), ((1, 2), Some 9), ((1, 3), None)]" and key = "(1, 2)"
        and sz = None]
  by (simp add: overlay_def) (simp add: pair_map_def u8_codec_def)

text \<open>
  C20. Inside a transaction over a typed map every lookup sees the transaction's own writes; when it is
  aborted, a later read-only transaction sees the map as it was before.
\<close>

theorem typed_abort_restores:
  assumes "typed_storage B cfg_ok key_ok idle ro_open rw_open M"
    and "idle (sto_backend st) c" and "typed_at M pos c"
    and "\<forall>(k, w) \<in> set ws. key_ok (enc (key_codec M) k)" and "key_ok (enc (key_codec M) key)"
  shows "\<exists>tx st1 tx' st2 ro st3.
    storage_transaction_rw (be_impl B) st sz = (Ok tx, st1) \<and>
    typed_writes (be_impl B) pos M ws tx st1 = (Ok (), tx', st2) \<and>
    map_ref_get (tx_rw_map (be_impl B) tx' st2 pos M) key =
      Ok (map_option (\<lambda>v. Encoded (enc (value_codec M) v))
        (overlay (map_of (rev ws)) (typed_view M pos c) key)) \<and>
    storage_transaction_ro (be_impl B) (transaction_abort (be_impl B) tx' st2) = (Ok ro, st3) \<and>
    map_ref_get (tx_ro_map (be_impl B) ro st3 pos M) key =
      Ok (map_option (\<lambda>v. Encoded (enc (value_codec M) v)) (typed_view M pos c key))"
proof -
  have contract: "backend_contract B cfg_ok key_ok idle ro_open rw_open"
    using assms(1) by (rule typed_storage.axioms)
  obtain tx s1 where 1: "transaction_rw (be_impl B) (sto_backend st) sz = (Ok tx, s1)" "rw_open tx s1 c c"
    using backend_contract.begin_rw_spec [OF contract assms(2)] by blast
  let ?st1 = "st\<lparr>sto_backend := s1\<rparr>"
  have "rw_open tx (sto_backend ?st1) c c" using 1(2) by simp
  from typed_storage.typed_writes_spec [OF assms(1) this assms(3,4)] obtain tx' st2 c' where 2:
    "typed_writes (be_impl B) pos M ws tx ?st1 = (Ok (), tx', st2)"
    "rw_open tx' (sto_backend st2) c c'" "typed_at M pos c'"
    "typed_view M pos c' = overlay (map_of (rev ws)) (typed_view M pos c)" by blast
  have "idle (sto_backend (transaction_abort (be_impl B) tx' st2)) c"
    using backend_contract.rw_drop_spec [OF contract 2(2)] by (simp add: transaction_abort_def)
  then obtain ro s3 where 3:
    "transaction_ro (be_impl B) (sto_backend (transaction_abort (be_impl B) tx' st2)) = (Ok ro, s3)"
    "ro_open ro s3 c"
    using backend_contract.begin_ro_spec [OF contract] by blast
  let ?st3 = "(transaction_abort (be_impl B) tx' st2)\<lparr>sto_backend := s3\<rparr>"
  have "ro_open ro (sto_backend ?st3) c" using 3(2) by simp
  from typed_storage.map_ref_get_ro_spec [OF assms(1) this assms(3,5)]
    typed_storage.map_ref_get_rw_spec [OF assms(1) 2(2,3) assms(5)] 1(1) 2(1,4) 3(1)
  show ?thesis
    by (intro exI [of _ tx] exI [of _ ?st1] exI [of _ tx'] exI [of _ st2] exI [of _ ro] exI [of _ ?st3])
      (simp add: storage_transaction_rw_def storage_transaction_ro_def)
qed

theorem typed_abort_restores_witness:
  "\<exists>tx st1 tx' st2 ro st3.
    storage_transaction_rw (be_impl (in_memory_backend join_ref)) one_map_storage None = (Ok tx, st1) \<and>
    typed_writes (be_impl (in_memory_backend join_ref)) Head pair_map [((1, 2), Some 7)] tx st1 = (Ok (), tx', st2) \<and>
    map_ref_get (tx_rw_map (be_impl (in_memory_backend join_ref)) tx' st2 Head pair_map) (1, 2) =
      Ok (Some (Encoded [7])) \<and>
    storage_transaction_ro (be_impl (in_memory_backend join_ref))
      (transaction_abort (be_impl (in_memory_backend join_ref)) tx' st2) = (Ok ro, st3) \<and>
    map_ref_get (tx_ro_map (be_impl (in_memory_backend join_ref)) ro st3 Head pair_map) (1, 2) = Ok None"
  using typed_abort_restores [OF im_typed.typed_storage_axioms, OF one_map_idle one_map_typed,
      where ws = "[((1, 2), Some 7)]" and key = "(1, 2)" and sz = None]
  by (simp add: overlay_def one_map_view) (simp add: pair_map_def u8_codec_def)

text \<open>
  C7. A decoded scan of a typed map by a prefix of its key type delivers, without an error or a panic,
  exactly the entries of the map whose key has that prefix, each once, ordered by the encoded keys;
  the scan of the keys delivers their keys in the same order.
\<close>

theorem typed_scan_by_prefix:
  assumes "typed_storage B cfg_ok key_ok idle ro_open rw_open M"
    and "ro_open tx (sto_backend st) c" and "contents_ok c" and "typed_at M pos c"
    and "encoding_prefix P (key_codec M) part"
  shows "\<exists>es. map_ref_prefix_iter_decoded (tx_ro_map (be_impl B) tx st pos M) P p = Ok (map Ok es) \<and>
    map_ref_prefix_iter_keys (tx_ro_map (be_impl B) tx st pos M) P p = Ok (map (Ok \<circ> fst) es) \<and>
    set es = {(k, v). typed_view M pos c k = Some v \<and> part k = p} \<and>
    sorted_wrt (<) (map (enc (key_codec M) \<circ> fst) es)"
  using assms by (rule typed_storage.map_ref_scan_ro_spec)

theorem typed_scan_by_prefix_witness:
  "\<exists>es. map_ref_prefix_iter_decoded
      (tx_ro_map (be_impl (in_memory_backend join_ref)) TxRo
        \<lparr>sto_backend = \<lparr>li_db = \<lparr>rw_cell = StorageMaps (DbMapsData [[([1, 2, 0], [5]), ([2, 2, 0], [6])]]),
           rw_readers = 1, rw_writer = False, rw_poisoned = False\<rparr>, li_num_maps = DbMapCount 1\<rparr>,
         sto_schema = decl_schema [''scores'']\<rparr> Head pair_map) u8_codec 2 = Ok (map Ok es) \<and>
    set es = {(k, v). typed_view pair_map Head [[([1, 2, 0], [5]), ([2, 2, 0], [6])]] k = Some v \<and> fst k = 2}"
proof -
  let ?c = "[[([1, 2, 0], [5]), ([2, 2, 0], [6])]] :: contents"
  let ?st = "\<lparr>sto_backend = \<lparr>li_db = \<lparr>rw_cell = StorageMaps (DbMapsData ?c),
           rw_readers = 1, rw_writer = False, rw_poisoned = False\<rparr>, li_num_maps = DbMapCount 1\<rparr>,
         sto_schema = decl_schema [''scores'']\<rparr>"
  have ok: "contents_ok ?c" by (simp add: contents_ok_def bt_inv_def)
  have ro: "lk_ro maps_view maps_valid TxRo (sto_backend ?st) ?c"
    using ok by (simp add: lk_ro_def locked_db_def maps_valid_def maps_view_def)
  have "[1, 2, 0] = enc (key_codec pair_map) (1, 2)" "[2, 2, 0] = enc (key_codec pair_map) (2, 2)"
    "[5] = enc (value_codec pair_map) 5" "[6] = enc (value_codec pair_map) 6"
    by (simp_all add: pair_map_def pair_codec_def u8_codec_def u16_codec_def)
  then have "typed_at pair_map Head ?c" by (auto simp: typed_at_def typed_ok_def)
  from typed_scan_by_prefix [OF im_typed.typed_storage_axioms, OF ro ok this, of u8_codec fst 2]
  show ?thesis using u8_u16.encoding_prefix_axioms by (auto simp: pair_map_def)
qed

text \<open>
  C8. Types are kept: in a storage two of whose maps are well typed, that is, hold nothing but encodings
  of their key and value types, a committed transaction of typed writes to one of them leaves both
  well typed and the other map as it was; so a later typed read of the other map, at types of its own,
  finds its old value and decodes it without a panic.
\<close>

theorem typed_writes_keep_types:
  assumes "typed_storage B cfg_ok key_ok idle ro_open rw_open M"
    and "typed_storage B cfg_ok key_ok idle ro_open rw_open N"
    and "idle (sto_backend st) c" and "typed_at M pos c" and "typed_at N pos' c"
    and "map_INDEX pos' \<noteq> map_INDEX pos"
    and "\<forall>(k, w) \<in> set ws. key_ok (enc (key_codec M) k)" and "key_ok (enc (key_codec N) key)"
  shows "\<exists>tx st1 tx' st2 st3 ro st4 c'.
    storage_transaction_rw (be_impl B) st sz = (Ok tx, st1) \<and>
    typed_writes (be_impl B) pos M ws tx st1 = (Ok (), tx', st2) \<and>
    transaction_commit (be_impl B) tx' st2 = (Ok (), st3) \<and>
    storage_transaction_ro (be_impl B) st3 = (Ok ro, st4) \<and>
    ro_open ro (sto_backend st4) c' \<and> typed_at M pos c' \<and> typed_at N pos' c' \<and>
    typed_view N pos' c' = typed_view N pos' c \<and>
    (case map_ref_get (tx_ro_map (be_impl B) ro st4 pos' N) key of
       Ok None \<Rightarrow> typed_view N pos' c key = None
     | Ok (Some e) \<Rightarrow> \<exists>v. encoded_decode (value_codec N) e = (Ok v :: 'v res) \<and> typed_view N pos' c key = Some v
     | _ \<Rightarrow> False)"
proof -
  from typed_storage.typed_commit_spec [OF assms(1,3,4,7), of sz] obtain tx st1 tx' st2 st3 ro st4 c' where run:
    "storage_transaction_rw (be_impl B) st sz = (Ok tx, st1)"
    "typed_writes (be_impl B) pos M ws tx st1 = (Ok (), tx', st2)"
    "transaction_commit (be_impl B) tx' st2 = (Ok (), st3)"
    "storage_transaction_ro (be_impl B) st3 = (Ok ro, st4)" "ro_open ro (sto_backend st4) c'" "typed_at M pos c'"
    and c': "length c' = length c" "\<forall>j. j \<noteq> as_usize (map_INDEX pos) \<longrightarrow> c' ! j = c ! j" by blast
  have "c' ! as_usize (map_INDEX pos') = c ! as_usize (map_INDEX pos')"
    using c'(2) assms(6) by (cases "map_INDEX pos", cases "map_INDEX pos'") simp
  then have N: "typed_at N pos' c'" "typed_view N pos' c' = typed_view N pos' c"
    using assms(5) c'(1) by (simp_all add: typed_at_def typed_view_def)
  have "scale_codec (value_codec N)" using assms(2) typed_map.axioms(2) typed_storage.axioms(2) by blast
  note decode = scale_codec.decode_enc [OF this]
  from typed_storage.map_ref_get_ro_spec [OF assms(2) run(5) N(1) assms(8)] run N show ?thesis
    by (cases "typed_view N pos' c key") (auto simp: decode)
qed

text \<open>Writes to the map of pairs leave the flag in the second map alone.\<close>

definition two_map_storage :: "storage_maps lock_impl storage" where
  "two_map_storage =
     \<lparr>sto_backend =
        \<lparr>li_db = \<lparr>rw_cell = StorageMaps (DbMapsData [bt_empty, [([1], [2, 3])]]), rw_readers = 0, rw_writer = False,
           rw_poisoned = False\<rparr>, li_num_maps = DbMapCount 2\<rparr>,
      sto_schema = decl_schema [''scores'', ''flags'']\<rparr>"

definition flag_map :: "(byte, 16 word) map_types" where
  "flag_map = \<lparr>key_codec = u8_codec, value_codec = u16_codec\<rparr>"

interpretation im_flags: typed_storage "in_memory_backend join_ref" "\<lambda>_ _. True" "\<lambda>_. True"
  "lk_idle maps_view maps_valid" "lk_ro maps_view maps_valid" "lk_rw maps_view maps_valid" flag_map
  by (intro typed_storage.intro im.backend_contract_axioms typed_map.intro)
    (simp_all add: flag_map_def u8_codec.scale_codec_axioms u16_codec.scale_codec_axioms)

theorem typed_writes_keep_types_witness:
  "\<exists>tx st1 tx' st2 st3 ro st4.
    storage_transaction_rw (be_impl (in_memory_backend join_ref)) two_map_storage None = (Ok tx, st1) \<and>
    typed_writes (be_impl (in_memory_backend join_ref)) Head pair_map [((1, 2), Some 7)] tx st1 = (Ok (), tx', st2) \<and>
    transaction_commit (be_impl (in_memory_backend join_ref)) tx' st2 = (Ok (), st3) \<and>
    storage_transaction_ro (be_impl (in_memory_backend join_ref)) st3 = (Ok ro, st4)"
proof -
  let ?c = "[bt_empty, [([1], [2, 3])]] :: contents"
  have "lk_idle maps_view maps_valid (sto_backend two_map_storage) ?c"
    by (simp add: lk_idle_def two_map_storage_def lock_free_def locked_db_def maps_valid_def maps_view_def
        contents_ok_def bt_inv_def bt_empty_def)
  moreover have "typed_at pair_map Head ?c" by (simp add: typed_at_def typed_ok_def bt_empty_def)
  moreover have "[1] = enc u8_codec 1" "[2, 3] = enc u16_codec 0x302" by (simp_all add: u8_codec_def u16_codec_def)
  then have "typed_at flag_map (Tail Head) ?c" unfolding typed_at_def typed_ok_def flag_map_def by simp
  moreover have "map_INDEX (Tail Head) \<noteq> map_INDEX Head" by simp
  ultimately show ?thesis
    using typed_writes_keep_types [OF im_typed.typed_storage_axioms im_flags.typed_storage_axioms,
        where st = two_map_storage and c = ?c and pos = Head and pos' = "Tail Head" and ws = "[((1, 2), Some 7)]"
          and key = 1 and sz = None] by blast
qed

section \<open>Opening a storage\<close>

text \<open>
  C31. A schema with distinct map names opens as an empty storage on every backend that keeps the
  contract; a schema that uses a name twice panics before the backend is opened, with or without a
  dump to load.
\<close>

theorem storage_new_opens:
  assumes "backend_contract B cfg_ok key_ok idle ro_open rw_open"
    and "cfg_ok cfg \<lparr>map_descs = DbMapsData (desc_iter sch)\<rparr>"
  shows "if distinct (schema_names sch)
    then \<exists>st. storage_new B cfg sch = Ok st \<and> sto_schema st = sch \<and>
      idle (sto_backend st) (empty_contents (length (desc_iter sch)))
    else storage_new B cfg sch = Panic ''Duplicate map names found'' \<and>
      new_from_dump B cfg sch dump = Panic ''Duplicate map names found''"
proof (cases "distinct (schema_names sch)")
  case True
  from backend_contract.open_spec [OF assms(1,2)] True obtain s where
    "be_open B cfg \<lparr>map_descs = DbMapsData (desc_iter sch)\<rparr> = Ok s"
    "idle s (empty_contents (length (desc_iter sch)))"
    by (auto simp: schema_names_def desc_map_count_def maps_map_count_def)
  then show ?thesis using True by (simp add: storage_new_def schema_desc)
next
  case False
  then show ?thesis by (simp add: storage_new_def new_from_dump_def schema_desc_duplicate)
qed

theorem storage_new_opens_witness:
  "(\<exists>st. storage_new (in_memory_backend join_ref) in_memory_new (decl_schema [''a'', ''b'']) = Ok st \<and>
      lk_idle maps_view maps_valid (sto_backend st) [bt_empty, bt_empty]) \<and>
   storage_new (in_memory_backend join_ref) in_memory_new (decl_schema [''a'', ''b'', ''a'']) =
     Panic ''Duplicate map names found''"
proof -
  have len: "length (desc_iter (decl_schema [''a'', ''b''])) = 2" by simp
  show ?thesis
    using storage_new_opens [OF im.backend_contract_axioms,
        where cfg = in_memory_new and sch = "decl_schema [''a'', ''b'']" and dump = bt_empty]
      storage_new_opens [OF im.backend_contract_axioms,
        where cfg = in_memory_new and sch = "decl_schema [''a'', ''b'', ''a'']" and dump = bt_empty]
    unfolding len schema_names_decl by (auto simp: numeral_2_eq_2)
qed

text \<open>
  C34. The index the schema computes for a map is that of its description in the database
  description, so a typed access reads and writes the map of that name; with distinct names a map has
  one index.
\<close>

theorem map_index_designates_map:
  assumes "has_db_map m pos sch"
  shows "as_usize (map_INDEX pos) < length (desc_iter sch) \<and>
    desc_name (desc_iter sch ! as_usize (map_INDEX pos)) = NAME m \<and>
    raw_from_usize sch (as_usize (map_INDEX pos)) = Some (raw_id_new pos) \<and>
    raw_name sch (raw_id_new pos) = (Ok (NAME m) :: string res) \<and>
    (distinct (schema_names sch) \<and> has_db_map m pos' sch \<longrightarrow> map_INDEX pos' = map_INDEX pos)"
proof -
  have "distinct (schema_names sch) \<and> has_db_map m pos' sch \<longrightarrow> map_INDEX pos' = map_INDEX pos"
    using map_INDEX_unique [of sch m pos' pos] assms by blast
  with map_INDEX_desc [OF assms] show ?thesis
    by (simp add: raw_from_usize_def raw_id_new_def raw_name_def raw_info_def raw_as_usize_def
        from_usize_unchecked_def)
qed

theorem map_index_designates_map_witness:
  "raw_name (decl_schema [''a'', ''b'']) (raw_id_new (Tail Head)) = (Ok ''b'' :: string res)"
  using map_index_designates_map [of "decl_map ''b''" "Tail Head" "decl_schema [''a'', ''b'']"]
  by (simp add: decl_map_def)

section \<open>Dumps\<close>

text \<open>
  C21. Loading a dump and dumping the storage again gives the same dump: for every backend that keeps
  the contract and every dump with one ordered map of acceptable keys per map of the schema,
  \<open>new_from_dump\<close> succeeds and a transaction on the result dumps what was loaded.
\<close>

theorem dump_roundtrip:
  assumes "backend_contract B cfg_ok key_ok idle ro_open rw_open"
    and "cfg_ok cfg \<lparr>map_descs = DbMapsData (desc_iter sch)\<rparr>" and "distinct (schema_names sch)"
    and "contents_ok c" and "length c = length (desc_iter sch)"
    and "\<forall>m \<in> set c. \<forall>(k, v) \<in> set m. key_ok k"
  shows "\<exists>st ro st'. new_from_dump B cfg sch (contents_dump c) = Ok st \<and>
    storage_transaction_ro (be_impl B) st = (Ok ro, st') \<and>
    tx_dump_raw (be_impl B) ro st' = Ok (contents_dump c)"
proof -
  from backend_contract.new_from_dump_contents [OF assms] obtain st where
    st: "new_from_dump B cfg sch (contents_dump c) = Ok st" "idle (sto_backend st) c" by blast
  have sch: "sto_schema st = sch"
    using st(1) by (rule new_from_dump_schema)
  obtain ro s where ro: "transaction_ro (be_impl B) (sto_backend st) = (Ok ro, s)" "ro_open ro s c"
    using backend_contract.begin_ro_spec [OF assms(1) st(2)] by blast
  from backend_contract.dump_storage_contents [OF assms(1) ro(2) assms(4,5)]
  have "tx_dump_raw (be_impl B) ro (st\<lparr>sto_backend := s\<rparr>) = Ok (contents_dump c)"
    by (simp add: tx_dump_raw_def sch)
  with st(1) ro(1) show ?thesis
    by (intro exI [of _ st] exI [of _ ro] exI [of _ "st\<lparr>sto_backend := s\<rparr>"])
      (simp add: storage_transaction_ro_def)
qed

theorem dump_roundtrip_witness:
  "\<exists>st ro st'. new_from_dump (in_memory_backend join_ref) in_memory_new (decl_schema [''a'', ''b''])
      [(RawMapId (DbMapId 0), [([1], [2])]), (RawMapId (DbMapId 1), [([3], [4]), ([5], [])])] = Ok st \<and>
    storage_transaction_ro (be_impl (in_memory_backend join_ref)) st = (Ok ro, st') \<and>
    tx_dump_raw (be_impl (in_memory_backend join_ref)) ro st' =
      Ok [(RawMapId (DbMapId 0), [([1], [2])]), (RawMapId (DbMapId 1), [([3], [4]), ([5], [])])]"
proof -
  let ?c = "[[([1], [2])], [([3], [4]), ([5], [])]] :: contents"
  have "contents_ok ?c" by (simp add: contents_ok_def bt_inv_def)
  with dump_roundtrip [OF im.backend_contract_axioms,
      where cfg = in_memory_new and sch = "decl_schema [''a'', ''b'']" and c = ?c]
  show ?thesis unfolding schema_names_decl by (simp add: contents_dump_def)
qed

text \<open>
  With distinct map names the raw identifier found by name is the one that has the name, and every
  name of the schema is found; an identifier made from an index exists exactly for the indices in
  range.
\<close>

lemma raw_name_lookup:
  assumes "distinct (schema_names sch)"
  shows "(raw_from_name sch n = Some i) = (raw_name sch i = (Ok n :: string res)) \<and>
    (raw_from_name sch n = None) = (n \<notin> set (schema_names sch)) \<and>
    (raw_from_usize sch j = Some i) = (raw_as_usize i = j \<and> j < length (desc_iter sch))"
proof (intro conjI)
  let ?P = "\<lambda>desc. desc_name desc = n" and ?ds = "desc_iter sch"
  obtain k where i: "i = RawMapId (DbMapId k)" by (metis db_map_id.exhaust raw_map_id.exhaust)
  have "iter_position ?P ?ds = Some k \<longleftrightarrow> k < length ?ds \<and> desc_name (?ds ! k) = n"
  proof
    assume k: "k < length ?ds \<and> desc_name (?ds ! k) = n"
    moreover have "\<not> ?P (?ds ! l)" if "l < k" for l
      using assms k that by (auto simp: schema_names_def distinct_conv_nth)
    ultimately show "iter_position ?P ?ds = Some k" by (simp add: iter_position_Some)
  qed (simp add: iter_position_Some)
  then show "(raw_from_name sch n = Some i) = (raw_name sch i = (Ok n :: string res))"
    by (auto simp: i raw_from_name_def raw_name_def raw_info_def raw_as_usize_def from_usize_unchecked_def)
  show "(raw_from_name sch n = None) = (n \<notin> set (schema_names sch))"
    by (auto simp: raw_from_name_def iter_position_None schema_names_def)
  show "(raw_from_usize sch j = Some i) = (raw_as_usize i = j \<and> j < length ?ds)"
    by (auto simp: i raw_from_usize_def raw_as_usize_def from_usize_unchecked_def)
qed

section \<open>Encoded values\<close>

text \<open>
  C35. An \<open>Encoded\<close> holds one whole encoding, with nothing before, after or missing. A value decodes to
  itself and its bytes are accepted again; bytes with something after an encoding, or only the beginning of
  one, make \<open>from_bytes_unchecked\<close> panic, and so does decoding them; whatever is accepted keeps its bytes
  and decodes without a panic, and of two byte strings that are accepted none is the beginning of the
  other. The decoder is only known to read the encodings from the front of its input.
\<close>

theorem encoded_holds_one_encoding:
  assumes "streaming_codec C"
  shows "encoded_decode C (encoded_new C x) = (Ok x :: 'a res) \<and>
    from_bytes_unchecked C (take_bytes (encoded_new C x)) = (Ok (encoded_new C x) :: 'a encoded res) \<and>
    (rest \<noteq> [] \<and> (b = take_bytes (encoded_new C x) @ rest \<or> take_bytes (encoded_new C x) = b @ rest) \<longrightarrow>
      is_panic (from_bytes_unchecked C b :: 'a encoded res) \<and> is_panic (encoded_decode C (Encoded b) :: 'a res)) \<and>
    (case from_bytes_unchecked C b :: 'a encoded res of
       Ok e \<Rightarrow> take_bytes e = b \<and> (\<exists>y. encoded_decode C e = (Ok y :: 'a res)) \<and>
         (\<forall>b'. starts_with b' b \<and> from_bytes_unchecked C b' = (Ok (Encoded b') :: 'a encoded res) \<longrightarrow> b' = b)
     | Panic m \<Rightarrow> True
     | Err e \<Rightarrow> False | Blocked \<Rightarrow> False)"
proof -
  note scale = streaming_codec.axioms(1) [OF assms]
  have "decode_all C b = None"
    if "rest \<noteq> []" and "b = take_bytes (encoded_new C x) @ rest \<or> take_bytes (encoded_new C x) = b @ rest"
    using that streaming_codec.decode_all_trailing [OF assms] streaming_codec.decode_all_truncated [OF assms]
    by (auto simp: encoded_new_def take_bytes_def)
  moreover have "b' = b" if "decode_all C b = Some y" and "decode_all C b' = Some z" and "starts_with b' b" for b' y z
    using that streaming_codec.decode_all_append [OF assms that(1)] by (fastforce simp: starts_with_iff)
  ultimately show ?thesis
    using scale_codec.decode_enc [OF scale, of x] scale_codec.from_bytes_enc [OF scale, of x]
    by (auto simp: encoded_new_def take_bytes_def from_bytes_unchecked_def encoded_decode_def)
qed

theorem encoded_holds_one_encoding_witness:
  "encoded_decode u16_codec (encoded_new u16_codec 0x1234) = (Ok 0x1234 :: 16 word res) \<and>
   is_panic (from_bytes_unchecked u16_codec [0x34, 0x12, 0] :: 16 word encoded res) \<and>
   is_panic (from_bytes_unchecked u16_codec [0x34] :: 16 word encoded res)"
proof -
  note holds = encoded_holds_one_encoding [OF u16_codec.streaming_codec_axioms, of "0x1234"]
  have "take_bytes (encoded_new u16_codec 0x1234) = [0x34, 0x12]"
    by (simp add: take_bytes_def encoded_new_def u16_codec_def)
  with holds [of "[0]" "[0x34, 0x12, 0]"] holds [of "[0x12]" "[0x34]"] show ?thesis by simp
qed

end
