(* ===== verification/Storage_Tests.thy ===== *)
theory Storage_Tests
  imports Storage_Properties Suite_Model "HOL-Library.Product_Lexorder"
begin

text \<open>
  The tests of the typed storage, in \<open>storage/src/test.rs\<close> and \<open>storage/src/database/raw.rs\<close>, and the
  example of the crate documentation in \<open>storage/src/lib.rs\<close>, as programs over a backend and the codecs
  of their types. A \<open>String\<close> is its UTF-8 bytes. They reach their end on every backend that keeps the
  contract.
\<close>

section \<open>Programs over a typed storage\<close>

text \<open>The description of the database that a declared schema with these map names opens.\<close>

definition decl_desc :: "string list \<Rightarrow> db_desc" where
  "decl_desc names = \<lparr>map_descs = DbMapsData (desc_iter (decl_schema names))\<rparr>"

definition st_begin_ro :: "('s, 'ro, 'rw) backend_impl \<Rightarrow> ('s storage, 'ro) prog" where
  "st_begin_ro I = storage_transaction_ro I"

definition st_begin_rw :: "('s, 'ro, 'rw) backend_impl \<Rightarrow> ('s storage, 'rw) prog" where
  "st_begin_rw I = (\<lambda>st. storage_transaction_rw I st None)"

definition st_put ::
    "('s, 'ro, 'rw) backend_impl \<Rightarrow> position \<Rightarrow> ('k, 'v) map_types \<Rightarrow> 'k \<Rightarrow> 'v \<Rightarrow> 'rw \<Rightarrow> ('s storage, 'rw) prog" where
  "st_put I pos M k v tx = (\<lambda>st. case map_mut_put I (get_mut pos M) k v tx st of (r, tx', st') \<Rightarrow> (o_map (\<lambda>_. tx') r, st'))"

definition st_del ::
    "('s, 'ro, 'rw) backend_impl \<Rightarrow> position \<Rightarrow> ('k, 'v) map_types \<Rightarrow> 'k \<Rightarrow> 'rw \<Rightarrow> ('s storage, 'rw) prog" where
  "st_del I pos M k tx = (\<lambda>st. case map_mut_del I (get_mut pos M) k tx st of (r, tx', st') \<Rightarrow> (o_map (\<lambda>_. tx') r, st'))"

definition st_commit :: "('s, 'ro, 'rw) backend_impl \<Rightarrow> 'rw \<Rightarrow> ('s storage, unit) prog" where
  "st_commit I tx = transaction_commit I tx"

definition st_close :: "('s, 'ro, 'rw) backend_impl \<Rightarrow> 'ro \<Rightarrow> ('s storage, unit) prog" where
  "st_close I tx = (\<lambda>st. (Ok (), transaction_close I tx st))"

definition st_abort :: "('s, 'ro, 'rw) backend_impl \<Rightarrow> 'rw \<Rightarrow> ('s storage, unit) prog" where
  "st_abort I tx = (\<lambda>st. (Ok (), transaction_abort I tx st))"

text \<open>Reads through \<open>get\<close> of either kind of transaction.\<close>

definition st_map_ro ::
    "('s, 'ro, 'rw) backend_impl \<Rightarrow> 'ro \<Rightarrow> position \<Rightarrow> ('k, 'v) map_types \<Rightarrow> (('k, 'v) map_ref \<Rightarrow> 'a res) \<Rightarrow>
       ('s storage, 'a) prog" where
  "st_map_ro I tx pos M f = (\<lambda>st. (f (tx_ro_map I tx st pos M), st))"

definition st_map_rw ::
    "('s, 'ro, 'rw) backend_impl \<Rightarrow> 'rw \<Rightarrow> position \<Rightarrow> ('k, 'v) map_types \<Rightarrow> (('k, 'v) map_ref \<Rightarrow> 'a res) \<Rightarrow>
       ('s storage, 'a) prog" where
  "st_map_rw I tx pos M f = (\<lambda>st. (f (tx_rw_map I tx st pos M), st))"

definition unw :: "('s, 'a) prog \<Rightarrow> ('s, 'a) prog" where
  "unw p = (\<lambda>s. case p s of (r, s') \<Rightarrow> (o_unwrap r, s'))"

definition with_storage ::
    "('b, 's, 'ro, 'rw) backend \<Rightarrow> 'b \<Rightarrow> string list \<Rightarrow> (('s, 'ro, 'rw) backend_impl \<Rightarrow> ('s storage, unit) prog) \<Rightarrow>
       unit res" where
  "with_storage B cfg names body =
     o_bind (o_unwrap (storage_new B cfg (decl_schema names))) (\<lambda>st. fst (body (be_impl B) st))"

section \<open>storage/src/test.rs\<close>

definition empty_ro :: "('b, 's, 'ro, 'rw) backend \<Rightarrow> 'b \<Rightarrow> (data, data) map_types \<Rightarrow> unit res" where
  "empty_ro B cfg M1 = with_storage B cfg [''Map1''] (\<lambda>I.
     p_bind (unw (st_begin_ro I)) (\<lambda>tx.
     p_bind (st_map_ro I tx Head M1 (\<lambda>m. Ok (map_ref_get m (bytes ''foo'')))) (\<lambda>r.
     p_then (p_assert (r = Ok None)) (st_close I tx))))"

definition empty_rw :: "('b, 's, 'ro, 'rw) backend \<Rightarrow> 'b \<Rightarrow> (data, data) map_types \<Rightarrow> unit res" where
  "empty_rw B cfg M1 = with_storage B cfg [''Map1''] (\<lambda>I.
     p_bind (unw (st_begin_rw I)) (\<lambda>tx.
     p_bind (st_map_rw I tx Head M1 (\<lambda>m. Ok (map_ref_get m (bytes ''foo'')))) (\<lambda>r.
     p_then (p_assert (r = Ok None)) (st_abort I tx))))"

type_synonym compound = "(data \<times> 16 word, 64 word) map_types"

definition test_values :: "((data \<times> 16 word) \<times> 64 word) list" where
  "test_values =
     [((bytes ''foo'', 12), 0), ((bytes ''foo'', 1), 1), ((bytes ''foo'', 2), 2),
      ((bytes ''bar'', 42), 3), ((bytes ''bar'', 43), 4), ((bytes ''hello'', 1337), 6)]"

definition expected :: "(16 word \<times> 64 word) list" where
  "expected = [(1, 1), (2, 2), (12, 0)]"

definition test_values_sorted :: "((data \<times> 16 word) \<times> 64 word) list" where
  "test_values_sorted = sort test_values"

text \<open>Iterating and decoding each value; the items of \<open>prefix_iter_decoded\<close> are decoded already.\<close>

definition decode_items :: "compound \<Rightarrow> ((data \<times> 16 word) \<times> 64 word encoded) res list res \<Rightarrow>
    ((data \<times> 16 word) \<times> 64 word) list res" where
  "decode_items M2 items =
     o_bind (o_unwrap items) (\<lambda>items. o_collect (map (\<lambda>item.
       o_bind item (\<lambda>(k, v). o_map (Pair k) (encoded_decode (value_codec M2) v))) items))"

definition decoded_items :: "((data \<times> 16 word) \<times> 64 word) res list res \<Rightarrow>
    ((data \<times> 16 word) \<times> 64 word) list res" where
  "decoded_items items = o_bind (o_unwrap items) o_collect"

definition drop_string :: "(data \<times> 16 word) \<times> 64 word \<Rightarrow> 16 word \<times> 64 word" where
  "drop_string = (\<lambda>((_, k), v). (k, v))"

definition scan_and_check ::
    "('s, 'ro, 'rw) backend_impl \<Rightarrow> compound \<Rightarrow> (compound \<Rightarrow> (data \<times> 16 word, 64 word) map_ref \<Rightarrow>
       ((data \<times> 16 word) \<times> 64 word) list res) \<Rightarrow> (((data \<times> 16 word) \<times> 64 word) list \<Rightarrow> bool) \<Rightarrow>
       ('s storage, unit) prog" where
  "scan_and_check I M2 scan ok =
     p_bind (unw (st_begin_ro I)) (\<lambda>dbtx.
     p_bind (st_map_ro I dbtx Head M2 (scan M2)) (\<lambda>items.
     p_then (p_assert (ok items)) (st_close I dbtx)))"

definition prefix_iteration_test ::
    "('b, 's, 'ro, 'rw) backend \<Rightarrow> 'b \<Rightarrow> compound \<Rightarrow> data codec \<Rightarrow> unit res" where
  "prefix_iteration_test B cfg M2 String1 = with_storage B cfg [''Map2''] (\<lambda>I.
     p_bind (unw (st_begin_rw I)) (\<lambda>dbtx.
     p_bind (p_for (\<lambda>(key, val) dbtx. unw (st_put I Head M2 key val dbtx)) test_values dbtx) (\<lambda>dbtx.
     p_then (unw (st_commit I dbtx)) (
     p_then (scan_and_check I M2 (\<lambda>M2 m. decode_items M2 (map_ref_prefix_iter m String1 (bytes ''foo'')))
       (\<lambda>items. map drop_string items = expected)) (
     p_then (scan_and_check I M2 (\<lambda>M2 m. decoded_items (map_ref_prefix_iter_decoded m String1 (bytes ''foo'')))
       (\<lambda>items. map drop_string items = expected)) (
     p_then (scan_and_check I M2 (\<lambda>M2 m. decode_items M2 (map_ref_prefix_iter m unit_codec ()))
       (\<lambda>items. items = test_values_sorted))
     (scan_and_check I M2 (\<lambda>M2 m. decoded_items (map_ref_prefix_iter_decoded m unit_codec ()))
       (\<lambda>items. items = test_values_sorted))))))))"

section \<open>The tests of raw.rs\<close>

definition test_schema :: schema where
  "test_schema = decl_schema [''Db0'', ''Db1'']"

definition indices :: bool where
  "indices \<longleftrightarrow>
     (let idx0 = from_usize_unchecked 0; idx1 = from_usize_unchecked 1
      in raw_id_new Head = idx0 \<and> raw_id_new (Tail Head) = idx1 \<and>
         raw_from_usize test_schema 0 = Some idx0 \<and> raw_from_usize test_schema 1 = Some idx1 \<and>
         raw_from_usize test_schema 2 = None \<and>
         raw_from_name test_schema ''Db0'' = Some idx0 \<and> raw_from_name test_schema ''Db1'' = Some idx1 \<and>
         raw_from_name test_schema ''DbX'' = None)"

text \<open>Indexing a \<open>BTreeMap\<close> panics when the key is missing.\<close>

definition bt_index :: "('k, 'v) btree \<Rightarrow> 'k \<Rightarrow> 'v res" where
  "bt_index m k = (case bt_get m k of None \<Rightarrow> Panic ''no entry found for key'' | Some v \<Rightarrow> Ok v)"

definition dump_now :: "('s, 'ro, 'rw) backend_impl \<Rightarrow> ('s storage, storage_contents) prog" where
  "dump_now I =
     p_bind (unw (st_begin_ro I)) (\<lambda>tx.
     p_bind (\<lambda>st. (o_unwrap (tx_dump_raw I tx st), st)) (\<lambda>raw_db.
     p_then (st_close I tx) (p_return raw_db)))"

text \<open>\<open>assert_eq!(raw_db[&db].len(), n)\<close> and \<open>assert_eq!(raw_db[&db][key], val)\<close>.\<close>

definition check_len :: "raw_map_id \<Rightarrow> usize \<Rightarrow> storage_contents \<Rightarrow> ('s, unit) prog" where
  "check_len db n raw_db = p_bind (\<lambda>s. (bt_index raw_db db, s)) (\<lambda>m. p_assert (length m = n))"

definition check_item :: "raw_map_id \<Rightarrow> data \<Rightarrow> data \<Rightarrow> storage_contents \<Rightarrow> ('s, unit) prog" where
  "check_item db key val raw_db =
     p_bind (\<lambda>s. (o_bind (bt_index raw_db db) (\<lambda>m. bt_index m key), s)) (\<lambda>v. p_assert (v = val))"

definition basic_dump ::
    "('b, 's, 'ro, 'rw) backend \<Rightarrow> 'b \<Rightarrow> (32 word, 32 word) map_types \<Rightarrow> (16 word, data) map_types \<Rightarrow> unit res" where
  "basic_dump B cfg Db0 Db1 = with_storage B cfg [''Db0'', ''Db1''] (\<lambda>I.
     let db1 = raw_id_new Head; db2 = raw_id_new (Tail Head) in
     p_bind (dump_now I) (\<lambda>raw_db.
     p_then (p_assert (length raw_db = 2)) (
     p_then (p_assert (list_all (\<lambda>x. snd x = bt_empty) raw_db)) (
     p_bind (unw (st_begin_rw I)) (\<lambda>dbtx.
     p_bind (unw (st_put I Head Db0 42 1337 dbtx)) (\<lambda>dbtx.
     p_bind (unw (st_put I (Tail Head) Db1 21 [1, 2, 3, 4] dbtx)) (\<lambda>dbtx.
     p_then (unw (st_commit I dbtx)) (
     p_bind (dump_now I) (\<lambda>raw_db.
     p_then (check_len db1 1 raw_db) (
     p_then (check_item db1 [42, 0, 0, 0] [57, 5, 0, 0] raw_db) (
     p_then (check_len db2 1 raw_db) (
     p_then (check_item db2 [21, 0] [push_bit 2 4, 1, 2, 3, 4] raw_db) (
     p_bind (unw (st_begin_rw I)) (\<lambda>dbtx.
     p_bind (unw (st_del I Head Db0 42 dbtx)) (\<lambda>dbtx.
     p_bind (unw (st_put I (Tail Head) Db1 22 [1, 2] dbtx)) (\<lambda>dbtx.
     p_then (unw (st_commit I dbtx)) (
     p_bind (dump_now I) (\<lambda>raw_db.
     p_then (check_len db1 0 raw_db) (
     p_then (check_len db2 2 raw_db) (
     p_then (check_item db2 [21, 0] [push_bit 2 4, 1, 2, 3, 4] raw_db)
       (check_item db2 [22, 0] [push_bit 2 2, 1, 2] raw_db)))))))))))))))))))))"

section \<open>The example of the documentation\<close>

text \<open>The question mark operator hands an error on; \<open>test().unwrap()\<close> panics on it.\<close>

definition decode_found :: "(data, 64 word) map_types \<Rightarrow> 64 word encoded option res \<Rightarrow> 64 word option res" where
  "decode_found MyMap r =
     o_bind r (\<lambda>val. case val of
       None \<Rightarrow> Ok None
     | Some x \<Rightarrow> o_map Some (encoded_decode (value_codec MyMap) x))"

definition get_decoded :: "(data, 64 word) map_types \<Rightarrow> data \<Rightarrow> (data, 64 word) map_ref \<Rightarrow> 64 word option res" where
  "get_decoded MyMap key m = decode_found MyMap (map_ref_get m key)"

text \<open>A read through the handle that \<open>get_mut\<close> returns.\<close>

definition get_mut_decoded ::
    "('s, 'ro, 'rw) backend_impl \<Rightarrow> (data, 64 word) map_types \<Rightarrow> data \<Rightarrow> 'rw \<Rightarrow> ('s storage, 64 word option) prog" where
  "get_mut_decoded I MyMap key tx =
     (\<lambda>st. (decode_found MyMap (map_mut_get I (get_mut Head MyMap) key tx st), st))"

lemma get_mut_decoded_eq: "get_mut_decoded I M key tx = st_map_rw I tx Head M (get_decoded M key)"
  by (simp add: get_mut_decoded_def st_map_rw_def get_decoded_def map_mut_reads_eq_ref)

definition doc_example :: "('b, 's, 'ro, 'rw) backend \<Rightarrow> 'b \<Rightarrow> (data, 64 word) map_types \<Rightarrow> unit res" where
  "doc_example B cfg MyMap =
     o_unwrap (o_bind (storage_new B cfg (decl_schema [''MyMap''])) (\<lambda>store.
       let I = be_impl B in fst ((
       p_bind (st_begin_rw I) (\<lambda>tx.
       p_bind (st_put I Head MyMap (bytes ''foo'') 1337 tx) (\<lambda>tx.
       p_bind (get_mut_decoded I MyMap (bytes ''foo'') tx) (\<lambda>val.
       p_then (p_assert (val = Some 1337)) (
       p_then (st_commit I tx) (
       p_bind (st_begin_rw I) (\<lambda>tx.
       p_bind (st_put I Head MyMap (bytes ''baz'') 42 tx) (\<lambda>tx.
       p_then (st_abort I tx) (
       p_bind (st_begin_ro I) (\<lambda>tx.
       p_bind (st_map_ro I tx Head MyMap (\<lambda>m. map_ref_get m (bytes ''baz''))) (\<lambda>val.
       p_then (p_assert (val = None)) (
       p_then (st_close I tx) (
       p_bind (st_begin_ro I) (\<lambda>tx.
       p_bind (st_map_ro I tx Head MyMap (get_decoded MyMap (bytes ''foo''))) (\<lambda>val.
       p_then (p_assert (val = Some 1337))
         (st_close I tx)))))))))))))))) store)))"

end
