(* ===== verification/Scale_Encodings.thy ===== *)
theory Scale_Encodings
  imports Serialization
begin

text \<open>
  The documented SCALE encodings of the types the typed storage is tested with: byte vectors and strings
  of fewer than 64 bytes, after one byte with four times the length, and the unsigned integers, in
  little endian order. \<open>scale_encodings\<close> is what the tests rely on; codecs defined here interpret it.
\<close>

section \<open>Little endian integers\<close>

unbundle bit_operations_syntax

fun le_bytes :: "nat \<Rightarrow> 'a::len word \<Rightarrow> data" where
  "le_bytes 0 x = []"
| "le_bytes (Suc n) x = ucast x # le_bytes n (drop_bit 8 x)"

fun le_word :: "data \<Rightarrow> 'a::len word" where
  "le_word [] = 0"
| "le_word (b # bs) = ucast b OR push_bit 8 (le_word bs)"

lemma length_le_bytes [simp]: "length (le_bytes n x) = n"
  by (induction n arbitrary: x) simp_all

lemma le_bytes_numeral [simp]: "le_bytes (numeral n) x = ucast x # le_bytes (pred_numeral n) (drop_bit 8 x)"
  by (simp add: numeral_eq_Suc)

lemma le_word_bytes: "le_word (le_bytes n x) = take_bit (8 * n) x"
proof (induction n arbitrary: x)
  case (Suc n)
  show ?case
    by (rule bit_eqI) (auto simp: Suc bit_simps)
qed simp

definition le_codec :: "nat \<Rightarrow> 'a::len word codec" where
  "le_codec n =
     \<lparr>enc = le_bytes n,
      dec = (\<lambda>b. if length b < n then None else Some (le_word (take n b), drop n b))\<rparr>"

lemma le_codec_streaming: "LENGTH('a) \<le> 8 * n \<Longrightarrow> streaming_codec (le_codec n :: 'a::len word codec)"
  by unfold_locales (auto simp: le_codec_def le_word_bytes take_bit_word_eq_self split: if_splits)

lemma le_codec_scale: "LENGTH('a) \<le> 8 * n \<Longrightarrow> scale_codec (le_codec n :: 'a::len word codec)"
  by (intro streaming_codec.axioms(1) le_codec_streaming)

section \<open>What the tests rely on\<close>

locale scale_encodings =
  Bytes: scale_codec byte_vec + U16: scale_codec u16c + U32: scale_codec u32c + U64: scale_codec u64c
  for byte_vec :: "data codec" and u16c :: "16 word codec" and u32c :: "32 word codec" and u64c :: "64 word codec" +
  assumes enc_bytes: "length b < 64 \<Longrightarrow> enc byte_vec b = push_bit 2 (of_nat (length b)) # b"
    and enc_u16: "enc u16c x = le_bytes 2 x"
    and enc_u32: "enc u32c y = le_bytes 4 y"

section \<open>Codecs with this behaviour\<close>

text \<open>A longer vector is written byte by byte, each announced by a one, and closed by a zero.\<close>

fun long_bytes :: "data \<Rightarrow> data" where
  "long_bytes [] = [0]"
| "long_bytes (x # xs) = 1 # x # long_bytes xs"

fun long_read :: "data \<Rightarrow> (data \<times> data) option" where
  "long_read (a # b) =
     (if a = 0 then Some ([], b)
      else case b of [] \<Rightarrow> None | x # r \<Rightarrow> map_option (\<lambda>(xs, r'). (x # xs, r')) (long_read r))"
| "long_read [] = None"

lemma long_read_bytes: "long_read (long_bytes xs @ r) = Some (xs, r)"
  by (induction xs) simp_all

lemma long_read_append: "long_read b = Some (x, r) \<Longrightarrow> long_read (b @ s) = Some (x, r @ s)"
  by (induction b arbitrary: x rule: long_read.induct) (auto split: if_splits list.splits)

definition bytes_codec :: "data codec" where
  "bytes_codec =
     \<lparr>enc = (\<lambda>b. if length b < 64 then push_bit 2 (of_nat (length b)) # b else 255 # long_bytes b),
      dec = (\<lambda>b. case b of
               [] \<Rightarrow> None
             | n # r \<Rightarrow> if n = 255 then long_read r
                 else if unat (drop_bit 2 n) \<le> length r
                 then Some (take (unat (drop_bit 2 n)) r, drop (unat (drop_bit 2 n)) r) else None)\<rparr>"

lemma short_length:
  assumes "n < 64"
  shows "push_bit 2 (of_nat n) \<noteq> (255 :: byte)" and "unat (drop_bit 2 (push_bit 2 (of_nat n) :: byte)) = n"
proof -
  have "push_bit 2 (of_nat n) = (of_nat (4 * n) :: byte)" by (simp add: push_bit_eq_mult)
  moreover have "unat (of_nat (4 * n) :: byte) = 4 * n" using assms by (simp only: unat_of_nat) simp
  ultimately have val: "unat (push_bit 2 (of_nat n) :: byte) = 4 * n" by metis
  have "4 * n \<noteq> unat (255 :: byte)" by simp presburger
  with val show "push_bit 2 (of_nat n) \<noteq> (255 :: byte)" by metis
  show "unat (drop_bit 2 (push_bit 2 (of_nat n) :: byte)) = n"
    unfolding unat_drop_bit_eq val by (simp add: drop_bit_eq_div)
qed

interpretation bytes_codec: streaming_codec bytes_codec
  by unfold_locales
    (auto simp: bytes_codec_def long_read_bytes long_read_append short_length split: list.splits if_splits)

interpretation tests: scale_encodings bytes_codec "le_codec 2" "le_codec 4" "le_codec 8"
  by (intro scale_encodings.intro scale_encodings_axioms.intro bytes_codec.scale_codec_axioms le_codec_scale)
    (simp_all add: bytes_codec_def le_codec_def)

end
