(* ===== verification/Lmdb.thy ===== *)
theory Lmdb
  imports Backend
begin

text \<open>
  The LMDB backend (\<open>storage/lmdb/src\<close>): memory sizes, the classification of LMDB errors, the prefix
  iterator over a cursor, transactions, and the scheduling of memory map resizes. The \<open>lmdb\<close> crate is
  not part of this repository; its environment, transactions and cursors are a parameter of the
  definitions, a record of the calls the code makes.
\<close>

section \<open>Memory sizes\<close>

text \<open>
  \<open>MemSize\<close> is a 64-bit number of bytes. All profiles of the workspace check for overflow, so a
  product that does not fit panics.
\<close>

datatype mem_size = MemSize (ms_as_bytes: "64 word")

definition u64_mul :: "64 word \<Rightarrow> 64 word \<Rightarrow> (64 word, 'e) outcome" where
  "u64_mul a b =
     (if unat a * unat b < 2 ^ 64 then Ok (a * b) else Panic ''attempt to multiply with overflow'')"

definition ms_ZERO :: mem_size where
  "ms_ZERO = MemSize 0"

definition ms_from_bytes :: "64 word \<Rightarrow> mem_size" where
  "ms_from_bytes b = MemSize b"

definition ms_from_kilobytes :: "64 word \<Rightarrow> (mem_size, 'e) outcome" where
  "ms_from_kilobytes kb = o_map ms_from_bytes (u64_mul 1024 kb)"

definition ms_from_megabytes :: "64 word \<Rightarrow> (mem_size, 'e) outcome" where
  "ms_from_megabytes mb = o_bind (u64_mul 1024 mb) ms_from_kilobytes"

definition ms_display :: "mem_size \<Rightarrow> string" where
  "ms_display s = dec_digits (unat (ms_as_bytes s)) @ ''B''"

record initial_map_size =
  ims_size :: "mem_size option"

definition ims_default :: initial_map_size where
  "ims_default = \<lparr>ims_size = None\<rparr>"

definition into_memsize :: "initial_map_size \<Rightarrow> mem_size option" where
  "into_memsize s = ims_size s"

definition ims_from :: "mem_size \<Rightarrow> initial_map_size" where
  "ims_from s = \<lparr>ims_size = Some s\<rparr>"

definition ims_into_option :: "initial_map_size \<Rightarrow> mem_size option" where
  "ims_into_option s = ims_size s"

section \<open>Errors\<close>

text \<open>\<open>lmdb::Error\<close>, with the variants \<open>process\<close> matches on.\<close>

datatype lmdb_error =
  KeyExist | NotFound | PageNotFound | Corrupted | LmdbPanic | VersionMismatch | Invalid | MapFull
| DbsFull | ReadersFull | TlsFull | TxnFull | CursorFull | PageFull | MapResized | Incompatible
| BadRslot | BadTxn | BadValSize | BadDbi | LmdbOther int

record io_error =
  io_kind :: io_error_kind
  io_message :: string

text \<open>
  What the error conversion asks the operating system and the crate for: the I/O error of an error
  number, the last error, and the message of an LMDB error.
\<close>

record error_env =
  from_raw_os_error :: "int \<Rightarrow> io_error"
  last_os_error :: io_error
  lmdb_to_string :: "lmdb_error \<Rightarrow> string"

definition process_io_error :: "io_error \<Rightarrow> storage_error" where
  "process_io_error err =
     (if io_kind_recoverable (io_kind err) then Recoverable (RecoverableIo (io_kind err) (io_message err))
      else Fatal (FatalIo (io_kind err) (io_message err)))"

fun process :: "error_env \<Rightarrow> lmdb_error \<Rightarrow> 'a res \<Rightarrow> 'a res" where
  "process E NotFound dflt = dflt"
| "process E KeyExist dflt = dflt"
| "process E Invalid dflt = Err (Recoverable DbInit)"
| "process E VersionMismatch dflt = Err (Recoverable DbInit)"
| "process E BadTxn dflt = Err (Recoverable TransactionFailed)"
| "process E ReadersFull dflt = Err (Recoverable TemporarilyUnavailable)"
| "process E TxnFull dflt = Err (Recoverable TemporarilyUnavailable)"
| "process E TlsFull dflt = Err (Recoverable TemporarilyUnavailable)"
| "process E DbsFull dflt = Err (Fatal SchemaMismatch)"
| "process E BadValSize dflt = Err (Fatal SchemaMismatch)"
| "process E Incompatible dflt = Err (Fatal SchemaMismatch)"
| "process E PageNotFound dflt = Err (Fatal DatabaseCorrupted)"
| "process E Corrupted dflt = Err (Fatal DatabaseCorrupted)"
| "process E (LmdbOther errno) dflt =
     (let err = from_raw_os_error E errno;
          last_err = last_os_error E;
          same_err = (io_kind err = io_kind last_err);
          err = (if same_err then last_err else err)
      in Err (process_io_error err))"
| "process E err dflt = Err (Fatal (InternalError (lmdb_to_string E err)))"

definition process_with_unit :: "error_env \<Rightarrow> lmdb_error \<Rightarrow> unit res" where
  "process_with_unit E err = process E err (Ok ())"

definition process_with_none :: "error_env \<Rightarrow> lmdb_error \<Rightarrow> 'a option res" where
  "process_with_none E err = process E err (Ok None)"

definition process_with_err :: "error_env \<Rightarrow> lmdb_error \<Rightarrow> 'a res" where
  "process_with_err E err = process E err (Err (Fatal (InternalError (lmdb_to_string E err))))"

section \<open>The calls into the lmdb crate\<close>

type_synonym 'a lres = "('a, lmdb_error) outcome"

text \<open>\<open>lmdb::Transaction\<close>: what both kinds of transactions offer.\<close>

record ('env, 'db, 'cur, 'tx) transaction_ops =
  tx_get :: "'tx \<Rightarrow> 'env \<Rightarrow> 'db \<Rightarrow> data \<Rightarrow> data lres"
  tx_open_ro_cursor :: "'tx \<Rightarrow> 'env \<Rightarrow> 'db \<Rightarrow> 'cur lres"
  tx_drop :: "'tx \<Rightarrow> 'env \<Rightarrow> 'env"

text \<open>The settings an environment is opened with; the callback is opaque.\<close>

record ('rs, 'cb, 'fl) env_builder =
  eb_map_size :: "64 word option"
  eb_resize_settings :: 'rs
  eb_resize_callback :: "'cb option"
  eb_max_dbs :: "32 word"
  eb_flags :: 'fl

text \<open>A cursor turns into an iterator: the list of the results its calls of \<open>next\<close> return.\<close>

record ('env, 'db, 'cur, 'ro, 'rw, 'rs, 'cb, 'fl) lmdb_api =
  env_open :: "('rs, 'cb, 'fl) env_builder \<Rightarrow> string \<Rightarrow> 'env lres"
  env_create_db :: "'env \<Rightarrow> string option \<Rightarrow> 'db lres \<times> 'env"
  env_do_resize :: "'env \<Rightarrow> usize option \<Rightarrow> unit lres \<times> 'env"
  begin_ro_txn :: "'env \<Rightarrow> 'ro lres \<times> 'env"
  begin_rw_txn :: "'env \<Rightarrow> usize option \<Rightarrow> 'rw lres \<times> 'env"
  ro_tx :: "('env, 'db, 'cur, 'ro) transaction_ops"
  rw_tx :: "('env, 'db, 'cur, 'rw) transaction_ops"
  into_iter_start :: "'cur \<Rightarrow> (data \<times> data) lres list"
  into_iter_from :: "'cur \<Rightarrow> data \<Rightarrow> (data \<times> data) lres list"
  txn_put :: "'rw \<Rightarrow> 'env \<Rightarrow> 'db \<Rightarrow> data \<Rightarrow> data \<Rightarrow> unit lres \<times> 'rw \<times> 'env"
  txn_del :: "'rw \<Rightarrow> 'env \<Rightarrow> 'db \<Rightarrow> data \<Rightarrow> unit lres \<times> 'rw \<times> 'env"
  txn_commit :: "'rw \<Rightarrow> 'env \<Rightarrow> unit lres \<times> 'env"
  default_flags :: 'fl
  flag_write_map :: "'fl \<Rightarrow> 'fl"
  create_dir_all :: "string \<Rightarrow> (unit, io_error) outcome"
  errors :: error_env

section \<open>The prefix iterator\<close>

record lmdb_prefix_iter =
  lpi_iter :: "(data \<times> data) lres list"
  lpi_prefix :: data

definition lpi_new :: "(data \<times> data) lres list \<Rightarrow> data \<Rightarrow> lmdb_prefix_iter" where
  "lpi_new iter pfx = \<lparr>lpi_iter = iter, lpi_prefix = pfx\<rparr>"

definition lpi_next :: "lmdb_prefix_iter \<Rightarrow> (data \<times> data) option res \<times> lmdb_prefix_iter" where
  "lpi_next it =
     (case lpi_iter it of
        [] \<Rightarrow> (Ok None, it)
      | item # rest \<Rightarrow>
          (o_bind (o_expect ''iteration to proceed'' item) (\<lambda>(k, v).
             if starts_with k (lpi_prefix it) then Ok (Some (k, v)) else Ok None),
           it\<lparr>lpi_iter := rest\<rparr>))"

text \<open>What a consumer that stops at the first \<open>None\<close> gets.\<close>

function lpi_collect :: "lmdb_prefix_iter \<Rightarrow> (data \<times> data) list res" where
  "lpi_collect it =
     (case lpi_next it of
        (Ok None, _) \<Rightarrow> Ok []
      | (Ok (Some x), it') \<Rightarrow> o_map (\<lambda>xs. x # xs) (lpi_collect it')
      | (Err e, _) \<Rightarrow> Err e
      | (Panic m, _) \<Rightarrow> Panic m
      | (Blocked, _) \<Rightarrow> Blocked)"
  by pat_completeness auto
termination
  by (relation "measure (\<lambda>it. length (lpi_iter it))")
    (auto simp: lpi_next_def split: list.splits)

declare lpi_collect.simps [simp del]

section \<open>Shared state\<close>

text \<open>
  \<open>LmdbImpl\<close>. The environment and the flag are behind an \<open>Arc\<close>: all handles share this state.
\<close>

record ('env, 'db) lmdb_impl =
  lm_env :: 'env
  lm_dbs :: "'db db_maps_data"
  map_resize_scheduled :: bool

definition schedule_map_resize :: "('env, 'db) lmdb_impl \<Rightarrow> ('env, 'db) lmdb_impl" where
  "schedule_map_resize s = s\<lparr>map_resize_scheduled := True\<rparr>"

definition unschedule_map_resize :: "('env, 'db) lmdb_impl \<Rightarrow> ('env, 'db) lmdb_impl" where
  "unschedule_map_resize s = s\<lparr>map_resize_scheduled := False\<rparr>"

text \<open>
  \<open>AtomicBool::compare_exchange\<close> returns the previous value, as \<open>Ok\<close> when it was the expected one.
\<close>

definition compare_exchange :: "bool \<Rightarrow> bool \<Rightarrow> bool \<Rightarrow> (bool, bool) outcome \<times> bool" where
  "compare_exchange cell expected new = (if cell = expected then (Ok cell, new) else (Err cell, cell))"

fun unwrap_or :: "('a, 'e) outcome \<Rightarrow> 'a \<Rightarrow> 'a" where
  "unwrap_or (Ok x) d = x"
| "unwrap_or _ d = d"

definition resize_if_resize_scheduled ::
    "('env, 'db, 'cur, 'ro, 'rw, 'rs, 'cb, 'fl) lmdb_api \<Rightarrow> ('env, 'db) lmdb_impl \<Rightarrow>
       unit res \<times> ('env, 'db) lmdb_impl" where
  "resize_if_resize_scheduled L s =
     (case compare_exchange (map_resize_scheduled s) True False of (r, flag) \<Rightarrow>
        let s = s\<lparr>map_resize_scheduled := flag\<rparr>
        in if unwrap_or r False
           then (case env_do_resize L (lm_env s) None of
                   (r', env) \<Rightarrow>
                     (o_expect ''Failed to resize after a trigger to resize'' r', s\<lparr>lm_env := env\<rparr>))
           else (Ok (), s))"

definition resize_if_map_full ::
    "('env, 'db, 'cur, 'ro, 'rw, 'rs, 'cb, 'fl) lmdb_api \<Rightarrow> lmdb_error \<Rightarrow> ('env, 'db) lmdb_impl \<Rightarrow>
       lmdb_error res \<times> ('env, 'db) lmdb_impl" where
  "resize_if_map_full L err s =
     (if err = MapFull
      then (case env_do_resize L (lm_env s) None of
              (r, env) \<Rightarrow>
                let s = s\<lparr>lm_env := env\<rparr>
                in case o_expect ''Failed to resize after a write/commit failed with MDB_MAP_FULL'' r of
                     Ok _ \<Rightarrow> (Ok err, unschedule_map_resize s)
                   | Err e \<Rightarrow> (Err e, s)
                   | Panic m \<Rightarrow> (Panic m, s)
                   | Blocked \<Rightarrow> (Blocked, s))
      else (Ok err, s))"

definition schedule_map_resize_if_map_full ::
    "lmdb_error \<Rightarrow> ('env, 'db) lmdb_impl \<Rightarrow> lmdb_error \<times> ('env, 'db) lmdb_impl" where
  "schedule_map_resize_if_map_full err s =
     (err, if err = MapFull then schedule_map_resize s else s)"

section \<open>Transactions\<close>

definition db_tx_get ::
    "error_env \<Rightarrow> ('env, 'db, 'cur, 'tx) transaction_ops \<Rightarrow> 'tx \<Rightarrow> ('env, 'db) lmdb_impl \<Rightarrow>
       db_map_id \<Rightarrow> data \<Rightarrow> data option res" where
  "db_tx_get E T tx s map_id key =
     o_bind (maps_index (lm_dbs s) map_id) (\<lambda>db.
       o_or_else (o_map Some (tx_get T tx (lm_env s) db key)) (process_with_none E))"

definition db_tx_prefix_iter ::
    "('env, 'db, 'cur, 'ro, 'rw, 'rs, 'cb, 'fl) lmdb_api \<Rightarrow> ('env, 'db, 'cur, 'tx) transaction_ops \<Rightarrow>
       'tx \<Rightarrow> ('env, 'db) lmdb_impl \<Rightarrow> db_map_id \<Rightarrow> data \<Rightarrow> (data \<times> data) list res" where
  "db_tx_prefix_iter L T tx s map_id pfx =
     o_bind (maps_index (lm_dbs s) map_id) (\<lambda>db.
     o_bind (o_or_else (tx_open_ro_cursor T tx (lm_env s) db) (process_with_err (errors L))) (\<lambda>cursor.
       let iter = (if pfx = [] then into_iter_start L cursor else into_iter_from L cursor pfx)
       in lpi_collect (lpi_new iter pfx)))"

definition db_tx_drop ::
    "('env, 'db, 'cur, 'tx) transaction_ops \<Rightarrow> 'tx \<Rightarrow> ('env, 'db) lmdb_impl \<Rightarrow> ('env, 'db) lmdb_impl" where
  "db_tx_drop T tx s = s\<lparr>lm_env := tx_drop T tx (lm_env s)\<rparr>"

text \<open>
  The error path of \<open>put\<close> and \<open>del\<close>: a full map schedules a resize, then the error is converted.
\<close>

definition write_result ::
    "error_env \<Rightarrow> unit lres \<Rightarrow> ('env, 'db) lmdb_impl \<Rightarrow> unit res \<times> ('env, 'db) lmdb_impl" where
  "write_result E r s =
     (case r of
        Ok _ \<Rightarrow> (Ok (), s)
      | Err err \<Rightarrow> (case schedule_map_resize_if_map_full err s of (err, s) \<Rightarrow> (process_with_unit E err, s))
      | Panic m \<Rightarrow> (Panic m, s)
      | Blocked \<Rightarrow> (Blocked, s))"

definition db_tx_put ::
    "('env, 'db, 'cur, 'ro, 'rw, 'rs, 'cb, 'fl) lmdb_api \<Rightarrow> 'rw \<Rightarrow> ('env, 'db) lmdb_impl \<Rightarrow>
       db_map_id \<Rightarrow> data \<Rightarrow> data \<Rightarrow> unit res \<times> 'rw \<times> ('env, 'db) lmdb_impl" where
  "db_tx_put L tx s map_id key val =
     (case maps_index (lm_dbs s) map_id of
        Ok db \<Rightarrow>
          (case txn_put L tx (lm_env s) db key val of
             (r, tx, env) \<Rightarrow>
               (case write_result (errors L) r (s\<lparr>lm_env := env\<rparr>) of (r, s) \<Rightarrow> (r, tx, s)))
      | Err e \<Rightarrow> (Err e, tx, s)
      | Panic m \<Rightarrow> (Panic m, tx, s)
      | Blocked \<Rightarrow> (Blocked, tx, s))"

definition db_tx_del ::
    "('env, 'db, 'cur, 'ro, 'rw, 'rs, 'cb, 'fl) lmdb_api \<Rightarrow> 'rw \<Rightarrow> ('env, 'db) lmdb_impl \<Rightarrow>
       db_map_id \<Rightarrow> data \<Rightarrow> unit res \<times> 'rw \<times> ('env, 'db) lmdb_impl" where
  "db_tx_del L tx s map_id key =
     (case maps_index (lm_dbs s) map_id of
        Ok db \<Rightarrow>
          (case txn_del L tx (lm_env s) db key of
             (r, tx, env) \<Rightarrow>
               (case write_result (errors L) r (s\<lparr>lm_env := env\<rparr>) of (r, s) \<Rightarrow> (r, tx, s)))
      | Err e \<Rightarrow> (Err e, tx, s)
      | Panic m \<Rightarrow> (Panic m, tx, s)
      | Blocked \<Rightarrow> (Blocked, tx, s))"

definition db_tx_commit ::
    "('env, 'db, 'cur, 'ro, 'rw, 'rs, 'cb, 'fl) lmdb_api \<Rightarrow> 'rw \<Rightarrow> ('env, 'db) lmdb_impl \<Rightarrow>
       unit res \<times> ('env, 'db) lmdb_impl" where
  "db_tx_commit L tx s =
     (case txn_commit L tx (lm_env s) of (r, env) \<Rightarrow>
        let s = s\<lparr>lm_env := env\<rparr>
        in case r of
             Ok _ \<Rightarrow> (Ok (), s)
           | Err err \<Rightarrow>
               (case resize_if_map_full L err s of
                  (r', s) \<Rightarrow> (o_bind r' (process_with_unit (errors L)), s))
           | Panic m \<Rightarrow> (Panic m, s)
           | Blocked \<Rightarrow> (Blocked, s))"

section \<open>Starting transactions\<close>

definition start_transaction ::
    "error_env \<Rightarrow> ('env \<Rightarrow> 'tx lres \<times> 'env) \<Rightarrow> ('env, 'db) lmdb_impl \<Rightarrow> 'tx res \<times> ('env, 'db) lmdb_impl" where
  "start_transaction E start_tx s =
     (case start_tx (lm_env s) of
        (r, env) \<Rightarrow> (o_or_else r (process_with_err E), s\<lparr>lm_env := env\<rparr>))"

definition lmdb_transaction_ro ::
    "('env, 'db, 'cur, 'ro, 'rw, 'rs, 'cb, 'fl) lmdb_api \<Rightarrow> ('env, 'db) lmdb_impl \<Rightarrow>
       'ro res \<times> ('env, 'db) lmdb_impl" where
  "lmdb_transaction_ro L s = start_transaction (errors L) (begin_ro_txn L) s"

definition lmdb_transaction_rw ::
    "('env, 'db, 'cur, 'ro, 'rw, 'rs, 'cb, 'fl) lmdb_api \<Rightarrow> ('env, 'db) lmdb_impl \<Rightarrow> usize option \<Rightarrow>
       'rw res \<times> ('env, 'db) lmdb_impl" where
  "lmdb_transaction_rw L s sz =
     (case resize_if_resize_scheduled L s of
        (Ok _, s) \<Rightarrow> start_transaction (errors L) (\<lambda>env. begin_rw_txn L env sz) s
      | (Err e, s) \<Rightarrow> (Err e, s)
      | (Panic m, s) \<Rightarrow> (Panic m, s)
      | (Blocked, s) \<Rightarrow> (Blocked, s))"

section \<open>Opening\<close>

text \<open>\<open>MapResizeCallback\<close> wraps an optional function.\<close>

datatype 'cb map_resize_callback = MapResizeCallback (mrc_f: "'cb option")

definition mrc_new :: "'cb \<Rightarrow> 'cb map_resize_callback" where
  "mrc_new f = MapResizeCallback (Some f)"

definition mrc_default :: "'cb map_resize_callback" where
  "mrc_default = MapResizeCallback None"

definition mrc_take :: "'cb map_resize_callback \<Rightarrow> 'cb option" where
  [simp]: "mrc_take self = mrc_f self"

text \<open>The conversions.\<close>

definition mrc_into_option :: "'cb map_resize_callback \<Rightarrow> 'cb option" where
  "mrc_into_option f = mrc_take f"

definition mrc_from :: "'cb \<Rightarrow> 'cb map_resize_callback" where
  "mrc_from f = MapResizeCallback (Some f)"

lemma mrc_conversions [simp]:
  "mrc_into_option (mrc_from f) = Some f" "mrc_from f = mrc_new f" "mrc_into_option mrc_default = None"
  by (simp_all add: mrc_into_option_def mrc_from_def mrc_new_def mrc_default_def)

record ('rs, 'cb, 'fl) lmdb =
  lmdb_path :: string
  lmdb_flags :: 'fl
  lmdb_initial_map_size :: initial_map_size
  lmdb_resize_settings :: 'rs
  lmdb_resize_callback :: "'cb map_resize_callback"

definition lmdb_new ::
    "('env, 'db, 'cur, 'ro, 'rw, 'rs, 'cb, 'fl) lmdb_api \<Rightarrow> string \<Rightarrow> initial_map_size \<Rightarrow> 'rs \<Rightarrow>
       'cb map_resize_callback \<Rightarrow> ('rs, 'cb, 'fl) lmdb" where
  "lmdb_new L path sz rs cb =
     \<lparr>lmdb_path = path, lmdb_flags = default_flags L, lmdb_initial_map_size = sz,
      lmdb_resize_settings = rs, lmdb_resize_callback = cb\<rparr>"

definition with_write_map ::
    "('env, 'db, 'cur, 'ro, 'rw, 'rs, 'cb, 'fl) lmdb_api \<Rightarrow> ('rs, 'cb, 'fl) lmdb \<Rightarrow> ('rs, 'cb, 'fl) lmdb" where
  "with_write_map L b = b\<lparr>lmdb_flags := flag_write_map L (lmdb_flags b)\<rparr>"

definition lmdb_open_db ::
    "('env, 'db, 'cur, 'ro, 'rw, 'rs, 'cb, 'fl) lmdb_api \<Rightarrow> db_map_desc \<Rightarrow> 'env \<Rightarrow> 'db res \<times> 'env" where
  "lmdb_open_db L desc env =
     (case env_create_db L env (Some (desc_name desc)) of
        (r, env) \<Rightarrow> (o_or_else r (process_with_err (errors L)), env))"

text \<open>On 64-bit targets, the only ones, the conversion of the map size to \<open>usize\<close> never fails.\<close>

definition lmdb_builder ::
    "('rs, 'cb, 'fl) lmdb \<Rightarrow> db_desc \<Rightarrow> ('rs, 'cb, 'fl) env_builder" where
  "lmdb_builder self desc =
     \<lparr>eb_map_size = map_option ms_as_bytes (into_memsize (lmdb_initial_map_size self)),
      eb_resize_settings = lmdb_resize_settings self,
      eb_resize_callback = mrc_take (lmdb_resize_callback self),
      eb_max_dbs = of_nat (count_as_usize (desc_map_count desc)),
      eb_flags = lmdb_flags self\<rparr>"

definition lmdb_open ::
    "('env, 'db, 'cur, 'ro, 'rw, 'rs, 'cb, 'fl) lmdb_api \<Rightarrow> ('rs, 'cb, 'fl) lmdb \<Rightarrow> db_desc \<Rightarrow>
       ('env, 'db) lmdb_impl res" where
  "lmdb_open L self desc =
     o_bind (o_map_err process_io_error (create_dir_all L (lmdb_path self))) (\<lambda>_.
     o_bind (o_or_else (env_open L (lmdb_builder self desc) (lmdb_path self))
               (process_with_err (errors L))) (\<lambda>env.
     case maps_try_transform (db_maps desc) (lmdb_open_db L) env of
       (r, env) \<Rightarrow> o_bind r (\<lambda>dbs. Ok \<lparr>lm_env = env, lm_dbs = dbs, map_resize_scheduled = False\<rparr>)))"

definition lmdb_impl_ops ::
    "('env, 'db, 'cur, 'ro, 'rw, 'rs, 'cb, 'fl) lmdb_api \<Rightarrow> (('env, 'db) lmdb_impl, 'ro, 'rw) backend_impl" where
  "lmdb_impl_ops L =
     \<lparr>transaction_ro = lmdb_transaction_ro L,
      transaction_rw = lmdb_transaction_rw L,
      ro_get = db_tx_get (errors L) (ro_tx L),
      ro_prefix_iter = db_tx_prefix_iter L (ro_tx L),
      ro_drop = db_tx_drop (ro_tx L),
      rw_get = db_tx_get (errors L) (rw_tx L),
      rw_prefix_iter = db_tx_prefix_iter L (rw_tx L),
      rw_put = db_tx_put L,
      rw_del = db_tx_del L,
      rw_commit = db_tx_commit L,
      rw_drop = db_tx_drop (rw_tx L)\<rparr>"

definition lmdb_backend ::
    "('env, 'db, 'cur, 'ro, 'rw, 'rs, 'cb, 'fl) lmdb_api \<Rightarrow>
       (('rs, 'cb, 'fl) lmdb, ('env, 'db) lmdb_impl, 'ro, 'rw) backend" where
  "lmdb_backend L = \<lparr>be_open = lmdb_open L, be_impl = lmdb_impl_ops L\<rparr>"

end
