(* ===== verification/Named_Maps.thy ===== *)
theory Named_Maps
  imports BTree
begin

text \<open>
  Ordered maps with names: the contents of the reference engines that instantiate the parameters of
  the LMDB and the SQLite backend.
\<close>

type_synonym named_maps = "(string \<times> (data, data) btree) list"

definition named_get :: "named_maps \<Rightarrow> string \<Rightarrow> (data, data) btree" where
  "named_get dbs n = (case map_of dbs n of None \<Rightarrow> bt_empty | Some t \<Rightarrow> t)"

definition named_update ::
    "string \<Rightarrow> ((data, data) btree \<Rightarrow> (data, data) btree) \<Rightarrow> named_maps \<Rightarrow> named_maps" where
  "named_update n f dbs = map (\<lambda>(n', t). (n', if n' = n then f t else t)) dbs"

definition named_ok :: "named_maps \<Rightarrow> bool" where
  "named_ok dbs \<longleftrightarrow> distinct (map fst dbs) \<and> (\<forall>t \<in> set (map snd dbs). bt_inv t)"

lemma named_get_inv: "named_ok dbs \<Longrightarrow> bt_inv (named_get dbs d)"
  by (auto simp: named_get_def named_ok_def split: option.splits dest!: map_of_SomeD)

lemma map_fst_named_update [simp]: "map fst (named_update n f dbs) = map fst dbs"
  by (auto simp: named_update_def)

lemma map_of_named_update:
  "map_of (named_update d f dbs) x = (if x = d then map_option f (map_of dbs x) else map_of dbs x)"
  by (induction dbs) (auto simp: named_update_def)

lemma named_get_update:
  assumes "d \<in> fst ` set dbs"
  shows "named_get (named_update d f dbs) = (named_get dbs)(d := f (named_get dbs d))"
proof
  fix x
  from assms obtain t where "map_of dbs d = Some t" by (metis map_of_eq_None_iff option.exhaust)
  then show "named_get (named_update d f dbs) x = ((named_get dbs)(d := f (named_get dbs d))) x"
    by (simp add: named_get_def map_of_named_update)
qed

lemma named_ok_update:
  "named_ok dbs \<Longrightarrow> (\<And>t. bt_inv t \<Longrightarrow> bt_inv (f t)) \<Longrightarrow> named_ok (named_update d f dbs)"
  by (auto simp: named_ok_def map_fst_named_update) (auto simp: named_update_def split: if_splits)

lemma named_get_snoc:
  assumes "n \<notin> fst ` set dbs"
  shows "named_get (dbs @ [(n, bt_empty)]) = named_get dbs"
proof
  fix x
  have "map_of dbs n = None" using assms by (simp add: map_of_eq_None_iff)
  then show "named_get (dbs @ [(n, bt_empty)]) x = named_get dbs x"
    by (cases "x = n") (simp_all add: named_get_def map_add_def split: option.split)
qed

end
