(* ===== verification/Lmdb_Contract.thy ===== *)
theory Lmdb_Contract
  imports Lmdb Named_Maps
begin

text \<open>
  The LMDB backend implements the transactional contract over an LMDB environment with the documented
  behaviour whose map has room for the writes; its error paths for a full map are the subject of
  \<open>Lmdb_Resize\<close>. The locale \<open>lmdb_engine\<close> states what the code relies on; \<open>ref_engine\<close> is an
  environment that has it.
\<close>

section \<open>The prefix iterator\<close>

lemma lpi_collect_map_Ok:
  "lpi_collect (lpi_new (map Ok xs) p) = Ok (takeWhile (\<lambda>e. starts_with (fst e) p) xs)"
proof (induction xs)
  case Nil
  show ?case by (subst lpi_collect.simps) (simp add: lpi_next_def lpi_new_def)
next
  case (Cons e xs)
  obtain k v where e: "e = (k, v)" by (cases e)
  have "lpi_collect \<lparr>lpi_iter = map Ok xs, lpi_prefix = p\<rparr> = Ok (takeWhile (\<lambda>e. starts_with (fst e) p) xs)"
    using Cons.IH by (simp add: lpi_new_def)
  then show ?case by (subst lpi_collect.simps) (simp add: lpi_next_def lpi_new_def e)
qed

lemma lpi_collect_start:
  "lpi_collect (lpi_new (map Ok m) []) = Ok (bt_prefix [] m)"
  by (simp add: lpi_collect_map_Ok)

lemma lpi_collect_from:
  "bt_inv m \<Longrightarrow> lpi_collect (lpi_new (map Ok (bt_range_from m p)) p) = Ok (bt_prefix p m)"
  by (simp add: lpi_collect_map_Ok prefix_scan_eq_filter)

section \<open>What the code relies on\<close>

text \<open>
  An environment has handles \<open>hs\<close> of named databases and maps each handle to an ordered map. Keys
  have 1 to 511 bytes.
\<close>

definition lmdb_key_ok :: "data \<Rightarrow> bool" where
  "lmdb_key_ok k \<longleftrightarrow> 1 \<le> length k \<and> length k \<le> 511"

locale lmdb_engine =
  fixes L :: "('env, 'db, 'cur, 'ro, 'rw, 'rs, 'cb, 'fl) lmdb_api"
    and e_idle :: "'env \<Rightarrow> (string \<times> 'db) list \<Rightarrow> ('db \<Rightarrow> (data, data) btree) \<Rightarrow> bool"
    and e_ro :: "'ro \<Rightarrow> 'env \<Rightarrow> (string \<times> 'db) list \<Rightarrow> ('db \<Rightarrow> (data, data) btree) \<Rightarrow> bool"
    and e_rw :: "'rw \<Rightarrow> 'env \<Rightarrow> (string \<times> 'db) list \<Rightarrow> ('db \<Rightarrow> (data, data) btree) \<Rightarrow>
                   ('db \<Rightarrow> (data, data) btree) \<Rightarrow> bool"
    and e_max :: "'env \<Rightarrow> nat"
    and fresh_path :: "string \<Rightarrow> bool"
  assumes idle_sorted: "e_idle env hs m \<Longrightarrow> bt_inv (m d)"
    and ro_sorted: "e_ro t env hs m \<Longrightarrow> bt_inv (m d)"
    and rw_sorted: "e_rw w env hs b m \<Longrightarrow> bt_inv (m d)"
    and idle_distinct: "e_idle env hs m \<Longrightarrow> distinct (map snd hs)"
    and dir_ok: "fresh_path p \<Longrightarrow> create_dir_all L p = Ok ()"
    and env_open_ok: "fresh_path p \<Longrightarrow>
        \<exists>env. env_open L bld p = Ok env \<and> e_idle env [] (\<lambda>_. bt_empty) \<and> e_max env = unat (eb_max_dbs bld)"
    and create_db_ok: "e_idle env hs m \<Longrightarrow> length hs < e_max env \<Longrightarrow> n \<notin> fst ` set hs \<Longrightarrow>
        \<exists>d env'. env_create_db L env (Some n) = (Ok d, env') \<and> e_idle env' (hs @ [(n, d)]) m \<and>
          e_max env' = e_max env"
    and resize_ok: "e_idle env hs m \<Longrightarrow> \<exists>env'. env_do_resize L env sz = (Ok (), env') \<and> e_idle env' hs m"
    and begin_ro_ok: "e_idle env hs m \<Longrightarrow> \<exists>t env'. begin_ro_txn L env = (Ok t, env') \<and> e_ro t env' hs m"
    and begin_rw_ok: "e_idle env hs m \<Longrightarrow>
        \<exists>w env'. begin_rw_txn L env sz = (Ok w, env') \<and> e_rw w env' hs m m"
    and ro_get_ok: "e_ro t env hs m \<Longrightarrow> d \<in> snd ` set hs \<Longrightarrow> lmdb_key_ok k \<Longrightarrow>
        tx_get (ro_tx L) t env d k = (case bt_get (m d) k of Some v \<Rightarrow> Ok v | None \<Rightarrow> Err NotFound)"
    and rw_get_ok: "e_rw w env hs b m \<Longrightarrow> d \<in> snd ` set hs \<Longrightarrow> lmdb_key_ok k \<Longrightarrow>
        tx_get (rw_tx L) w env d k = (case bt_get (m d) k of Some v \<Rightarrow> Ok v | None \<Rightarrow> Err NotFound)"
    and ro_cursor_ok: "e_ro t env hs m \<Longrightarrow> d \<in> snd ` set hs \<Longrightarrow>
        \<exists>cur. tx_open_ro_cursor (ro_tx L) t env d = Ok cur \<and> into_iter_start L cur = map Ok (m d) \<and>
          (\<forall>p. p \<noteq> [] \<longrightarrow> into_iter_from L cur p = map Ok (bt_range_from (m d) p))"
    and rw_cursor_ok: "e_rw w env hs b m \<Longrightarrow> d \<in> snd ` set hs \<Longrightarrow>
        \<exists>cur. tx_open_ro_cursor (rw_tx L) w env d = Ok cur \<and> into_iter_start L cur = map Ok (m d) \<and>
          (\<forall>p. p \<noteq> [] \<longrightarrow> into_iter_from L cur p = map Ok (bt_range_from (m d) p))"
    and put_ok: "e_rw w env hs b m \<Longrightarrow> d \<in> snd ` set hs \<Longrightarrow> lmdb_key_ok k \<Longrightarrow>
        \<exists>w' env'. txn_put L w env d k v = (Ok (), w', env') \<and> e_rw w' env' hs b (m(d := bt_insert k v (m d)))"
    and del_ok: "e_rw w env hs b m \<Longrightarrow> d \<in> snd ` set hs \<Longrightarrow> lmdb_key_ok k \<Longrightarrow>
        \<exists>w' env'. txn_del L w env d k = (if bt_get (m d) k = None then Err NotFound else Ok (), w', env') \<and>
          e_rw w' env' hs b (m(d := bt_remove k (m d)))"
    and commit_ok: "e_rw w env hs b m \<Longrightarrow> \<exists>env'. txn_commit L w env = (Ok (), env') \<and> e_idle env' hs m"
    and ro_drop_ok: "e_ro t env hs m \<Longrightarrow> e_idle (tx_drop (ro_tx L) t env) hs m"
    and rw_drop_ok: "e_rw w env hs b m \<Longrightarrow> e_idle (tx_drop (rw_tx L) w env) hs b"

section \<open>The contract\<close>

text \<open>The handles of the backend are those of the environment, and the contents what they map to.\<close>

definition lm_holds :: "(string \<times> 'db) list \<Rightarrow> ('db \<Rightarrow> (data, data) btree) \<Rightarrow> ('env, 'db) lmdb_impl \<Rightarrow> contents \<Rightarrow> bool" where
  "lm_holds hs m s c \<longleftrightarrow> maps_vec (lm_dbs s) = map snd hs \<and> distinct (map snd hs) \<and> c = map m (map snd hs)"

definition lm_idle ::
    "('env \<Rightarrow> (string \<times> 'db) list \<Rightarrow> ('db \<Rightarrow> (data, data) btree) \<Rightarrow> bool) \<Rightarrow>
       ('env, 'db) lmdb_impl \<Rightarrow> contents \<Rightarrow> bool" where
  "lm_idle e_idle s c \<longleftrightarrow> (\<exists>hs m. e_idle (lm_env s) hs m \<and> lm_holds hs m s c)"

definition lm_ro ::
    "('ro \<Rightarrow> 'env \<Rightarrow> (string \<times> 'db) list \<Rightarrow> ('db \<Rightarrow> (data, data) btree) \<Rightarrow> bool) \<Rightarrow>
       'ro \<Rightarrow> ('env, 'db) lmdb_impl \<Rightarrow> contents \<Rightarrow> bool" where
  "lm_ro e_ro t s c \<longleftrightarrow> (\<exists>hs m. e_ro t (lm_env s) hs m \<and> lm_holds hs m s c)"

definition lm_rw ::
    "('rw \<Rightarrow> 'env \<Rightarrow> (string \<times> 'db) list \<Rightarrow> ('db \<Rightarrow> (data, data) btree) \<Rightarrow>
        ('db \<Rightarrow> (data, data) btree) \<Rightarrow> bool) \<Rightarrow>
       'rw \<Rightarrow> ('env, 'db) lmdb_impl \<Rightarrow> contents \<Rightarrow> contents \<Rightarrow> bool" where
  "lm_rw e_rw w s b c \<longleftrightarrow>
     (\<exists>hs m0 m. e_rw w (lm_env s) hs m0 m \<and> lm_holds hs m0 s b \<and> lm_holds hs m s c)"

context lmdb_engine
begin

lemma create_all:
  assumes "e_idle env hs m" and "length hs + length ds \<le> e_max env"
    and "distinct (map fst hs @ map desc_name ds)"
  shows "\<exists>dbs env'. try_map_vec (lmdb_open_db L) ds env = (Ok dbs, env') \<and> length dbs = length ds \<and>
    e_idle env' (hs @ zip (map desc_name ds) dbs) m"
  using assms
proof (induction ds arbitrary: env hs)
  case (Cons d ds)
  then have "length hs < e_max env" "desc_name d \<notin> fst ` set hs" by auto
  with create_db_ok [OF Cons.prems(1)] obtain h env1 where 1:
    "env_create_db L env (Some (desc_name d)) = (Ok h, env1)" "e_idle env1 (hs @ [(desc_name d, h)]) m"
    "e_max env1 = e_max env" by blast
  with Cons.IH [OF 1(2)] Cons.prems obtain dbs env2 where
    "try_map_vec (lmdb_open_db L) ds env1 = (Ok dbs, env2)" "length dbs = length ds"
    "e_idle env2 ((hs @ [(desc_name d, h)]) @ zip (map desc_name ds) dbs) m" by fastforce
  moreover have "lmdb_open_db L d env = (Ok h, env1)" using 1 by (simp add: lmdb_open_db_def)
  ultimately show ?case by (intro exI [of _ "h # dbs"] exI [of _ env2]) simp
qed simp

lemma lmdb_open_ok:
  assumes "fresh_path (lmdb_path cfg)" and "count_as_usize (desc_map_count d) < 2 ^ 32"
    and "distinct (map desc_name (maps_vec (map_descs d)))"
  shows "\<exists>s. lmdb_open L cfg d = Ok s \<and> lm_idle e_idle s (empty_contents (count_as_usize (desc_map_count d)))"
proof -
  obtain env where env: "env_open L (lmdb_builder cfg d) (lmdb_path cfg) = Ok env"
    "e_idle env [] (\<lambda>_. bt_empty)" "e_max env = unat (eb_max_dbs (lmdb_builder cfg d))"
    using env_open_ok [OF assms(1)] by blast
  have max: "e_max env = length (maps_vec (map_descs d))"
    using assms(2)
    by (simp add: env(3) lmdb_builder_def desc_map_count_def maps_map_count_def unsigned_of_nat take_bit_nat_eq_self)
  obtain dbs env' where mk: "try_map_vec (lmdb_open_db L) (maps_vec (map_descs d)) env = (Ok dbs, env')"
    "length dbs = length (maps_vec (map_descs d))"
    "e_idle env' (zip (map desc_name (maps_vec (map_descs d))) dbs) (\<lambda>_. bt_empty)"
    using create_all [OF env(2), of "maps_vec (map_descs d)"] assms(3) max by auto
  let ?hs = "zip (map desc_name (maps_vec (map_descs d))) dbs"
  have snd: "map snd ?hs = dbs" using mk(2) by simp
  have "distinct (map snd ?hs)" using mk(3) by (rule idle_distinct)
  with mk snd have "lm_holds ?hs (\<lambda>_. bt_empty) \<lparr>lm_env = env', lm_dbs = DbMapsData dbs, map_resize_scheduled = False\<rparr>
      (empty_contents (count_as_usize (desc_map_count d)))"
    by (simp add: lm_holds_def desc_map_count_def maps_map_count_def map_replicate_const del: map_snd_zip)
  with mk env(1) dir_ok [OF assms(1)] show ?thesis
    by (auto simp: lmdb_open_def maps_try_transform_def db_maps_def lm_idle_def)
qed

lemma lm_holds_nth:
  assumes "lm_holds hs m s c" and "i < length c"
  shows "i < length (maps_vec (lm_dbs s))" and "maps_vec (lm_dbs s) ! i \<in> snd ` set hs"
    and "c ! i = m (maps_vec (lm_dbs s) ! i)"
  using assms by (auto simp: lm_holds_def)

lemma lm_holds_update:
  assumes "lm_holds hs m s c" and "i < length c"
  shows "lm_holds hs (m(maps_vec (lm_dbs s) ! i := x)) s (c[i := x])"
proof -
  have "i < length (map snd hs)" "distinct (map snd hs)" using assms by (auto simp: lm_holds_def)
  then have "map (m(map snd hs ! i := x)) (map snd hs) = (map m (map snd hs))[i := x]"
    by (intro map_upd_nth)
  with assms(1) show ?thesis unfolding lm_holds_def by metis
qed

lemma lm_holds_env [simp]:
  "lm_holds hs m (s\<lparr>lm_env := env\<rparr>) c = lm_holds hs m s c"
  "lm_holds hs m (s\<lparr>map_resize_scheduled := f\<rparr>) c = lm_holds hs m s c"
  by (simp_all add: lm_holds_def)

lemma get_ok:
  assumes "lm_holds hs m s c" and "i < length c"
    and "tx_get T t (lm_env s) (maps_vec (lm_dbs s) ! i) k =
      (case bt_get (m (maps_vec (lm_dbs s) ! i)) k of Some v \<Rightarrow> Ok v | None \<Rightarrow> Err NotFound)"
  shows "db_tx_get E T t s (DbMapId i) k = Ok (bt_get (c ! i) k)"
  using assms lm_holds_nth [OF assms(1,2)]
  by (simp add: db_tx_get_def maps_index_def process_with_none_def split: option.splits)

lemma iter_ok:
  assumes "lm_holds hs m s c" and "i < length c" and "bt_inv (m (maps_vec (lm_dbs s) ! i))"
    and "tx_open_ro_cursor T t (lm_env s) (maps_vec (lm_dbs s) ! i) = Ok cur"
    and "into_iter_start L cur = map Ok (m (maps_vec (lm_dbs s) ! i))"
    and "\<forall>p. p \<noteq> [] \<longrightarrow> into_iter_from L cur p = map Ok (bt_range_from (m (maps_vec (lm_dbs s) ! i)) p)"
  shows "db_tx_prefix_iter L T t s (DbMapId i) p = Ok (bt_prefix p (c ! i))"
  using assms lm_holds_nth [OF assms(1,2)] lpi_collect_start
  by (auto simp: db_tx_prefix_iter_def maps_index_def lpi_collect_from)

lemma resize_if_scheduled_ok:
  assumes "lm_idle e_idle s c"
  shows "\<exists>s'. resize_if_resize_scheduled L s = (Ok (), s') \<and> lm_idle e_idle s' c"
proof (cases "map_resize_scheduled s")
  case True
  from assms obtain hs m where hs: "e_idle (lm_env s) hs m" "lm_holds hs m s c"
    by (auto simp: lm_idle_def)
  with resize_ok [OF hs(1), of None] obtain env where
    "env_do_resize L (lm_env s) None = (Ok (), env)" "e_idle env hs m" by blast
  with True hs(2) show ?thesis
    by (auto simp: resize_if_resize_scheduled_def compare_exchange_def lm_idle_def Let_def)
next
  case False
  with assms show ?thesis
    by (auto simp: resize_if_resize_scheduled_def compare_exchange_def Let_def lm_idle_def)
qed

lemma lmdb_begin_rw_ok:
  assumes "lm_idle e_idle s c"
  shows "\<exists>w s'. lmdb_transaction_rw L s sz = (Ok w, s') \<and> lm_rw e_rw w s' c c"
proof -
  obtain s1 where s1: "resize_if_resize_scheduled L s = (Ok (), s1)" "lm_idle e_idle s1 c"
    using resize_if_scheduled_ok [OF assms] by blast
  then obtain hs m where hs: "e_idle (lm_env s1) hs m" "lm_holds hs m s1 c"
    by (auto simp: lm_idle_def)
  from begin_rw_ok [OF hs(1), of sz] s1(1) hs(2) show ?thesis
    by (fastforce simp: lmdb_transaction_rw_def start_transaction_def lm_rw_def)
qed

lemma lmdb_begin_ro_ok:
  assumes "lm_idle e_idle s c"
  shows "\<exists>t s'. lmdb_transaction_ro L s = (Ok t, s') \<and> lm_ro e_ro t s' c"
proof -
  from assms obtain hs m where hs: "e_idle (lm_env s) hs m" "lm_holds hs m s c"
    by (auto simp: lm_idle_def)
  from begin_ro_ok [OF hs(1)] hs(2) show ?thesis
    by (fastforce simp: lmdb_transaction_ro_def start_transaction_def lm_ro_def)
qed

lemma write_ok:
  assumes "maps_index (lm_dbs s) (DbMapId i) = (Ok d :: 'db res)"
    and "r = Ok () \<or> r = Err NotFound"
  shows "txn_put L w (lm_env s) d k v = (r, w', env) \<Longrightarrow>
      db_tx_put L w s (DbMapId i) k v = (Ok (), w', s\<lparr>lm_env := env\<rparr>)"
    and "txn_del L w (lm_env s) d k = (r, w', env) \<Longrightarrow>
      db_tx_del L w s (DbMapId i) k = (Ok (), w', s\<lparr>lm_env := env\<rparr>)"
  using assms
  by (auto simp: db_tx_put_def db_tx_del_def write_result_def schedule_map_resize_if_map_full_def
      process_with_unit_def)

lemma lmdb_put_ok:
  assumes "lm_rw e_rw w s b c" and "i < length c" and "lmdb_key_ok k"
  shows "\<exists>w' s'. db_tx_put L w s (DbMapId i) k v = (Ok (), w', s') \<and> lm_rw e_rw w' s' b (contents_put i k v c)"
proof -
  from assms(1) obtain hs m0 m where hs: "e_rw w (lm_env s) hs m0 m" "lm_holds hs m0 s b" "lm_holds hs m s c"
    by (auto simp: lm_rw_def)
  note nth = lm_holds_nth [OF hs(3) assms(2)]
  obtain w' env where put: "txn_put L w (lm_env s) (maps_vec (lm_dbs s) ! i) k v = (Ok (), w', env)"
    "e_rw w' env hs m0 (m(maps_vec (lm_dbs s) ! i := bt_insert k v (m (maps_vec (lm_dbs s) ! i))))"
    using put_ok [OF hs(1) nth(2) assms(3)] by blast
  have "maps_index (lm_dbs s) (DbMapId i) = (Ok (maps_vec (lm_dbs s) ! i) :: 'db res)"
    using nth(1) by (simp add: maps_index_def)
  from write_ok(1) [OF this _ put(1)] put(2) hs(2) lm_holds_update [OF hs(3) assms(2)] nth(3) show ?thesis
    by (auto simp: lm_rw_def contents_put_def)
qed

lemma lmdb_del_ok:
  assumes "lm_rw e_rw w s b c" and "i < length c" and "lmdb_key_ok k"
  shows "\<exists>w' s'. db_tx_del L w s (DbMapId i) k = (Ok (), w', s') \<and> lm_rw e_rw w' s' b (contents_del i k c)"
proof -
  from assms(1) obtain hs m0 m where hs: "e_rw w (lm_env s) hs m0 m" "lm_holds hs m0 s b" "lm_holds hs m s c"
    by (auto simp: lm_rw_def)
  note nth = lm_holds_nth [OF hs(3) assms(2)]
  let ?d = "maps_vec (lm_dbs s) ! i"
  obtain w' env where del: "txn_del L w (lm_env s) ?d k =
      (if bt_get (m ?d) k = None then Err NotFound else Ok (), w', env)"
    "e_rw w' env hs m0 (m(?d := bt_remove k (m ?d)))"
    using del_ok [OF hs(1) nth(2) assms(3)] by blast
  have "maps_index (lm_dbs s) (DbMapId i) = (Ok ?d :: 'db res)"
    using nth(1) by (simp add: maps_index_def)
  from write_ok(2) [OF this _ del(1)] del(2) hs(2) lm_holds_update [OF hs(3) assms(2)] nth(3) show ?thesis
    by (auto simp: lm_rw_def contents_del_def)
qed

lemma lmdb_ro_get_ok:
  assumes "lm_ro e_ro t s c" and "i < length c" and "lmdb_key_ok k"
  shows "db_tx_get E (ro_tx L) t s (DbMapId i) k = Ok (bt_get (c ! i) k)"
proof -
  from assms(1) obtain hs m where hs: "e_ro t (lm_env s) hs m" "lm_holds hs m s c" by (auto simp: lm_ro_def)
  show ?thesis
    using hs(2) assms(2) ro_get_ok [OF hs(1) lm_holds_nth(2) [OF hs(2) assms(2)] assms(3)] by (rule get_ok)
qed

lemma lmdb_rw_get_ok:
  assumes "lm_rw e_rw w s b c" and "i < length c" and "lmdb_key_ok k"
  shows "db_tx_get E (rw_tx L) w s (DbMapId i) k = Ok (bt_get (c ! i) k)"
proof -
  from assms(1) obtain hs m0 m where hs: "e_rw w (lm_env s) hs m0 m" "lm_holds hs m s c"
    by (auto simp: lm_rw_def)
  show ?thesis
    using hs(2) assms(2) rw_get_ok [OF hs(1) lm_holds_nth(2) [OF hs(2) assms(2)] assms(3)] by (rule get_ok)
qed

lemma lm_contents_ok:
  "lm_idle e_idle s c \<Longrightarrow> contents_ok c"
  "lm_rw e_rw w s b c \<Longrightarrow> contents_ok c"
  by (auto simp: lm_idle_def lm_rw_def lm_holds_def contents_ok_def list_all_length
      intro: idle_sorted rw_sorted)

lemma lm_drop_ok:
  "lm_ro e_ro t s c \<Longrightarrow> lm_idle e_idle (db_tx_drop (ro_tx L) t s) c"
  "lm_rw e_rw w s b c \<Longrightarrow> lm_idle e_idle (db_tx_drop (rw_tx L) w s) b"
  unfolding lm_ro_def lm_rw_def lm_idle_def db_tx_drop_def
  by (auto dest: ro_drop_ok rw_drop_ok)

lemma lmdb_contract:
  "backend_contract (lmdb_backend L)
     (\<lambda>cfg d. fresh_path (lmdb_path cfg) \<and> count_as_usize (desc_map_count d) < 2 ^ 32)
     lmdb_key_ok (lm_idle e_idle) (lm_ro e_ro) (lm_rw e_rw)"
proof (unfold_locales, goal_cases)
  case (2 s c)
  then show ?case by (rule lm_contents_ok)
next
  case (3 w s b c)
  then show ?case by (rule lm_contents_ok)
next
  case (4 w s b c)
  then show ?case by (auto simp: lm_rw_def lm_holds_def)
next
  case (9 t s c i p)
  then obtain hs m where hs: "e_ro t (lm_env s) hs m" "lm_holds hs m s c" by (auto simp: lm_ro_def)
  note nth = lm_holds_nth [OF hs(2) 9(2)]
  from ro_cursor_ok [OF hs(1) nth(2)] iter_ok [OF hs(2) 9(2) ro_sorted [OF hs(1)]] show ?case
    by (auto simp: lmdb_backend_def lmdb_impl_ops_def)
next
  case (12 w s b c i p)
  then obtain hs m0 m where hs: "e_rw w (lm_env s) hs m0 m" "lm_holds hs m s c" by (auto simp: lm_rw_def)
  note nth = lm_holds_nth [OF hs(2) 12(2)]
  from rw_cursor_ok [OF hs(1) nth(2)] iter_ok [OF hs(2) 12(2) rw_sorted [OF hs(1)]] show ?case
    by (auto simp: lmdb_backend_def lmdb_impl_ops_def)
next
  case (15 w s b c)
  then obtain hs m0 m where hs: "e_rw w (lm_env s) hs m0 m" "lm_holds hs m s c" by (auto simp: lm_rw_def)
  from commit_ok [OF hs(1)] hs(2) show ?case
    by (fastforce simp: lmdb_backend_def lmdb_impl_ops_def db_tx_commit_def lm_idle_def Let_def)
qed (auto simp: lmdb_backend_def lmdb_impl_ops_def lmdb_key_ok_def lmdb_open_ok lmdb_begin_ro_ok lmdb_begin_rw_ok
    lmdb_put_ok lmdb_del_ok lmdb_ro_get_ok lmdb_rw_get_ok lm_drop_ok)

end

section \<open>An environment with this behaviour\<close>

text \<open>
  Named ordered maps; a read-write transaction works on a copy, which its commit installs. Keys outside
  1 to 511 bytes are refused with \<open>BadValSize\<close>.
\<close>

record ref_env =
  re_max :: nat
  re_dbs :: named_maps

definition ref_get :: "named_maps \<Rightarrow> string \<Rightarrow> data \<Rightarrow> data lres" where
  "ref_get dbs d k =
     (if \<not> lmdb_key_ok k then Err BadValSize
      else case bt_get (named_get dbs d) k of None \<Rightarrow> Err NotFound | Some v \<Rightarrow> Ok v)"

definition ref_error_env :: error_env where
  "ref_error_env =
     \<lparr>from_raw_os_error = (\<lambda>n. \<lparr>io_kind = IoOtherKind 0, io_message = ''os error''\<rparr>),
      last_os_error = \<lparr>io_kind = IoNotFound, io_message = ''not found''\<rparr>,
      lmdb_to_string = (\<lambda>_. ''MDB'')\<rparr>"

definition ref_engine ::
    "(ref_env, string, (data, data) btree, unit, named_maps, unit, unit, bool) lmdb_api" where
  "ref_engine =
     \<lparr>env_open = (\<lambda>b p. Ok \<lparr>re_max = unat (eb_max_dbs b), re_dbs = []\<rparr>),
      env_create_db = (\<lambda>env n. case n of
          None \<Rightarrow> (Err Incompatible, env)
        | Some n \<Rightarrow>
            if n \<in> fst ` set (re_dbs env) then (Ok n, env)
            else if length (re_dbs env) < re_max env
            then (Ok n, env\<lparr>re_dbs := re_dbs env @ [(n, bt_empty)]\<rparr>)
            else (Err DbsFull, env)),
      env_do_resize = (\<lambda>env sz. (Ok (), env)),
      begin_ro_txn = (\<lambda>env. (Ok (), env)),
      begin_rw_txn = (\<lambda>env sz. (Ok (re_dbs env), env)),
      ro_tx = \<lparr>tx_get = (\<lambda>_ env d k. ref_get (re_dbs env) d k),
               tx_open_ro_cursor = (\<lambda>_ env d. Ok (named_get (re_dbs env) d)), tx_drop = (\<lambda>_ env. env)\<rparr>,
      rw_tx = \<lparr>tx_get = (\<lambda>w env d k. ref_get w d k),
               tx_open_ro_cursor = (\<lambda>w env d. Ok (named_get w d)), tx_drop = (\<lambda>_ env. env)\<rparr>,
      into_iter_start = (\<lambda>cur. map Ok cur),
      into_iter_from = (\<lambda>cur p. map Ok (bt_range_from cur p)),
      txn_put = (\<lambda>w env d k v.
          if lmdb_key_ok k then (Ok (), named_update d (bt_insert k v) w, env) else (Err BadValSize, w, env)),
      txn_del = (\<lambda>w env d k.
          if \<not> lmdb_key_ok k then (Err BadValSize, w, env)
          else if bt_get (named_get w d) k = None then (Err NotFound, w, env)
          else (Ok (), named_update d (bt_remove k) w, env)),
      txn_commit = (\<lambda>w env. (Ok (), env\<lparr>re_dbs := w\<rparr>)),
      default_flags = False,
      flag_write_map = (\<lambda>_. True),
      create_dir_all = (\<lambda>_. Ok ()),
      errors = ref_error_env\<rparr>"

definition ref_handles :: "named_maps \<Rightarrow> (string \<times> string) list" where
  "ref_handles dbs = map (\<lambda>n. (n, n)) (map fst dbs)"

definition ref_idle :: "ref_env \<Rightarrow> (string \<times> string) list \<Rightarrow> (string \<Rightarrow> (data, data) btree) \<Rightarrow> bool" where
  "ref_idle env hs m \<longleftrightarrow>
     named_ok (re_dbs env) \<and> hs = ref_handles (re_dbs env) \<and> m = named_get (re_dbs env)"

definition ref_ro ::
    "unit \<Rightarrow> ref_env \<Rightarrow> (string \<times> string) list \<Rightarrow> (string \<Rightarrow> (data, data) btree) \<Rightarrow> bool" where
  "ref_ro t env hs m \<longleftrightarrow> ref_idle env hs m"

definition ref_rw ::
    "named_maps \<Rightarrow> ref_env \<Rightarrow> (string \<times> string) list \<Rightarrow> (string \<Rightarrow> (data, data) btree) \<Rightarrow>
       (string \<Rightarrow> (data, data) btree) \<Rightarrow> bool" where
  "ref_rw w env hs b m \<longleftrightarrow>
     ref_idle env hs b \<and> named_ok w \<and> map fst w = map fst (re_dbs env) \<and> m = named_get w"

lemmas ref_states = ref_idle_def ref_ro_def ref_rw_def

lemma map_fst_ref_handles [simp]: "map fst (ref_handles dbs) = map fst dbs"
  and map_snd_ref_handles [simp]: "map snd (ref_handles dbs) = map fst dbs"
  and fst_set_ref_handles [simp]: "fst ` set (ref_handles dbs) = fst ` set dbs"
  and snd_set_ref_handles [simp]: "snd ` set (ref_handles dbs) = fst ` set dbs"
  by (simp_all add: ref_handles_def comp_def image_image)

lemma length_ref_handles [simp]: "length (ref_handles dbs) = length dbs"
  by (simp add: ref_handles_def)

lemma ref_handles_append: "ref_handles (dbs @ [(n, t)]) = ref_handles dbs @ [(n, n)]"
  by (simp add: ref_handles_def)

interpretation lmdb_ref: lmdb_engine ref_engine ref_idle ref_ro ref_rw re_max "\<lambda>_. True"
proof (unfold_locales, goal_cases)
  case (7 env hs m n)
  then show ?case
    by (auto simp: ref_engine_def ref_states named_get_snoc ref_handles_append named_ok_def)
next
  case (15 w env hs b m d k v)
  then have "d \<in> fst ` set w" by (metis image_set ref_rw_def ref_idle_def snd_set_ref_handles)
  with 15 show ?case
    by (auto simp: ref_engine_def ref_states named_get_update intro: named_ok_update)
next
  case (16 w env hs b m d k)
  then have "d \<in> fst ` set w" by (metis image_set ref_rw_def ref_idle_def snd_set_ref_handles)
  with 16 show ?case
    by (auto simp: ref_engine_def ref_states named_get_update bt_remove_absent intro: named_ok_update)
qed (auto simp: ref_engine_def ref_states ref_get_def named_get_inv, auto simp: named_ok_def named_get_def ref_handles_def)

lemma lmdb_refines_contract_ref:
  "backend_contract (lmdb_backend ref_engine)
    (\<lambda>cfg d. True \<and> count_as_usize (desc_map_count d) < 2 ^ 32)
    lmdb_key_ok (lm_idle ref_idle) (lm_ro ref_ro) (lm_rw ref_rw)"
  by (rule lmdb_ref.lmdb_contract)

end
