(* ===== verification/Sqlite.thy ===== *)
theory Sqlite
  imports Backend
begin

text \<open>
  The SQLite backend (\<open>storage/sqlite/src\<close>): the SQL statements of a map, transactions that hold the
  mutex around the one connection, and the opening of a database with the creation of its tables. The
  \<open>rusqlite\<close> crate is not part of this repository; a connection, its statements and rows are a
  parameter of the definitions, a record of the calls the code makes.
\<close>

section \<open>Queries\<close>

definition create_table_query :: "string \<Rightarrow> string" where
  "create_table_query table_name =
     ''CREATE TABLE '' @ table_name @ ''(key BLOB PRIMARY KEY NOT NULL, value BLOB NOT NULL)''"

record sqlite_query =
  get_query :: string
  prefix_iter_query :: string
  put_query :: string
  delete_query :: string

definition sqlite_query_from_desc :: "db_map_desc \<Rightarrow> sqlite_query" where
  "sqlite_query_from_desc desc =
     (let n = desc_name desc
      in \<lparr>get_query = ''SELECT value FROM '' @ n @ '' WHERE key = ?'',
          prefix_iter_query = ''SELECT key, value FROM '' @ n @ '' ORDER BY key'',
          put_query = ''INSERT or REPLACE into '' @ n @ '' values(?, ?)'',
          delete_query = ''DELETE FROM '' @ n @ '' WHERE key = ?''\<rparr>)"

section \<open>The calls into rusqlite\<close>

text \<open>\<open>rusqlite::Error\<close>: the variants the code tells apart, and one constructor for the others.\<close>

datatype sql_error =
  SqliteFailure int "string option"
| QueryReturnedNoRows
| OtherSqlError nat

type_synonym 'a sres = "('a, sql_error) outcome"

datatype sql_value = Blob data | Text string

datatype storage_mode = InMemoryMode | FileMode string

text \<open>\<open>OpenFlags\<close>, with the flags the code names.\<close>

datatype open_flag = SQLITE_OPEN_FULL_MUTEX | SQLITE_OPEN_READ_WRITE | SQLITE_OPEN_CREATE

definition open_db_flags :: "open_flag set" where
  "open_db_flags = {SQLITE_OPEN_FULL_MUTEX, SQLITE_OPEN_READ_WRITE, SQLITE_OPEN_CREATE}"

text \<open>
  Reading calls do not change what can be observed of a connection; the statement cache is internal
  to it. Rows are the list of the results of the calls of \<open>next\<close>.
\<close>

record ('conn, 'stmt, 'row) sqlite_api =
  sq_open :: "open_flag set \<Rightarrow> storage_mode \<Rightarrow> 'conn sres"
  sq_pragma_update :: "'conn \<Rightarrow> string \<Rightarrow> string \<Rightarrow> unit sres \<times> 'conn"
  sq_execute :: "'conn \<Rightarrow> string \<Rightarrow> nat sres \<times> 'conn"
  sq_prepare_cached :: "'conn \<Rightarrow> string \<Rightarrow> 'stmt sres"
  sq_query_row :: "'conn \<Rightarrow> 'stmt \<Rightarrow> sql_value list \<Rightarrow> 'row sres"
  sq_query :: "'conn \<Rightarrow> 'stmt \<Rightarrow> sql_value list \<Rightarrow> 'row sres list sres"
  sq_stmt_execute :: "'conn \<Rightarrow> 'stmt \<Rightarrow> sql_value list \<Rightarrow> nat sres \<times> 'conn"
  sq_row_blob :: "'row \<Rightarrow> nat \<Rightarrow> data sres"
  sq_row_text :: "'row \<Rightarrow> nat \<Rightarrow> string sres"
  sq_is_autocommit :: "'conn \<Rightarrow> bool"
  sq_set_cache_capacity :: "'conn \<Rightarrow> nat \<Rightarrow> 'conn"
  sq_error_to_string :: "sql_error \<Rightarrow> string"
  sq_code_to_string :: "int \<Rightarrow> string"
  sq_poison_message :: string
  path_parent :: "string \<Rightarrow> string option"
  dir_create_all :: "string \<Rightarrow> (unit, io_error_kind \<times> string) outcome"

text \<open>\<open>OptionalExtension::optional\<close>.\<close>

fun sql_optional :: "'a sres \<Rightarrow> 'a option sres" where
  "sql_optional (Ok x) = Ok (Some x)"
| "sql_optional (Err QueryReturnedNoRows) = Ok None"
| "sql_optional (Err e) = Err e"
| "sql_optional (Panic m) = Panic m"
| "sql_optional Blocked = Blocked"

section \<open>Errors\<close>

fun sqlite_process_io_error :: "io_error_kind \<times> string \<Rightarrow> storage_error" where
  "sqlite_process_io_error (k, m) =
     (if io_kind_recoverable k then Recoverable (RecoverableIo k m) else Fatal (FatalIo k m))"

fun process_sqlite_error :: "('conn, 'stmt, 'row) sqlite_api \<Rightarrow> sql_error \<Rightarrow> storage_error" where
  "process_sqlite_error Q (SqliteFailure err err_str) =
     Fatal (InternalError (case err_str of Some m \<Rightarrow> m | None \<Rightarrow> sq_code_to_string Q err))"
| "process_sqlite_error Q err = Fatal (InternalError (sq_error_to_string Q err))"

definition sql_err :: "('conn, 'stmt, 'row) sqlite_api \<Rightarrow> 'a sres \<Rightarrow> 'a res" where
  "sql_err Q r = o_map_err (process_sqlite_error Q) r"

section \<open>Transactions\<close>

text \<open>
  \<open>SqliteImpl\<close>: all handles share the mutex with the connection, and the queries. A transaction of
  either kind is a \<open>DbTx\<close>, the guard of the mutex.
\<close>

record 'conn sqlite_impl =
  sq_conn :: 'conn
  sq_locked :: bool
  sq_poisoned :: bool
  sq_queries :: "sqlite_query db_maps_data"

datatype db_tx = DbTx

definition unlock_connection :: "bool \<Rightarrow> 'conn sqlite_impl \<Rightarrow> 'conn sqlite_impl" where
  "unlock_connection panicking s = s\<lparr>sq_locked := False, sq_poisoned := sq_poisoned s \<or> panicking\<rparr>"

text \<open>
  \<open>Drop for DbTx\<close>: outside autocommit mode the transaction is rolled back, an error of that is
  ignored; then the guard goes.
\<close>

definition db_tx_rollback ::
    "('conn, 'stmt, 'row) sqlite_api \<Rightarrow> 'conn sqlite_impl \<Rightarrow> 'conn sqlite_impl" where
  "db_tx_rollback Q s =
     (if sq_is_autocommit Q (sq_conn s) then s
      else s\<lparr>sq_conn := snd (sq_execute Q (sq_conn s) ''ROLLBACK TRANSACTION'')\<rparr>)"

definition sqlite_tx_drop ::
    "('conn, 'stmt, 'row) sqlite_api \<Rightarrow> db_tx \<Rightarrow> 'conn sqlite_impl \<Rightarrow> 'conn sqlite_impl" where
  "sqlite_tx_drop Q tx s = unlock_connection False (db_tx_rollback Q s)"

text \<open>The same while the thread panics: the mutex is poisoned.\<close>

definition sqlite_tx_unwind ::
    "('conn, 'stmt, 'row) sqlite_api \<Rightarrow> db_tx \<Rightarrow> 'conn sqlite_impl \<Rightarrow> 'conn sqlite_impl" where
  "sqlite_tx_unwind Q tx s = unlock_connection True (db_tx_rollback Q s)"

text \<open>
  The guard is taken before \<open>BEGIN\<close>; when that fails, the half-made transaction is dropped.
\<close>

definition sqlite_start_transaction ::
    "('conn, 'stmt, 'row) sqlite_api \<Rightarrow> 'conn sqlite_impl \<Rightarrow> db_tx res \<times> 'conn sqlite_impl" where
  "sqlite_start_transaction Q s =
     (if sq_locked s then (Blocked, s)
      else if sq_poisoned s then (Err (Fatal (InternalError (sq_poison_message Q))), s)
      else
        (let s = s\<lparr>sq_locked := True\<rparr>
         in case sq_execute Q (sq_conn s) ''BEGIN TRANSACTION'' of
              (r, conn) \<Rightarrow>
                let s = s\<lparr>sq_conn := conn\<rparr>
                in case sql_err Q r of
                     Ok _ \<Rightarrow> (Ok DbTx, s)
                   | Err e \<Rightarrow> (Err e, sqlite_tx_drop Q DbTx s)
                   | Panic m \<Rightarrow> (Panic m, sqlite_tx_unwind Q DbTx s)
                   | Blocked \<Rightarrow> (Blocked, s)))"

definition commit_transaction ::
    "('conn, 'stmt, 'row) sqlite_api \<Rightarrow> 'conn sqlite_impl \<Rightarrow> unit res \<times> 'conn sqlite_impl" where
  "commit_transaction Q s =
     (case sq_execute Q (sq_conn s) ''COMMIT TRANSACTION'' of
        (r, conn) \<Rightarrow> (o_map (\<lambda>_. ()) (sql_err Q r), s\<lparr>sq_conn := conn\<rparr>))"

text \<open>\<open>commit\<close> consumes the transaction, so it is dropped at the end, whether or not it succeeded.\<close>

definition sqlite_tx_commit ::
    "('conn, 'stmt, 'row) sqlite_api \<Rightarrow> db_tx \<Rightarrow> 'conn sqlite_impl \<Rightarrow> unit res \<times> 'conn sqlite_impl" where
  "sqlite_tx_commit Q tx s =
     (case commit_transaction Q s of
        (r, s) \<Rightarrow> (r, if is_panic r then sqlite_tx_unwind Q tx s else sqlite_tx_drop Q tx s))"

definition sqlite_tx_get ::
    "('conn, 'stmt, 'row) sqlite_api \<Rightarrow> db_tx \<Rightarrow> 'conn sqlite_impl \<Rightarrow> db_map_id \<Rightarrow> data \<Rightarrow> data option res" where
  "sqlite_tx_get Q tx s map_id key =
     o_bind (maps_index (sq_queries s) map_id) (\<lambda>q.
     o_bind (sql_err Q (sq_prepare_cached Q (sq_conn s) (get_query q))) (\<lambda>stmt.
     sql_err Q (sql_optional
       (o_bind (sq_query_row Q (sq_conn s) stmt [Blob key]) (\<lambda>row. sq_row_blob Q row 0)))))"

text \<open>The loop over the rows keeps those whose key has the prefix.\<close>

fun collect_rows ::
    "('conn, 'stmt, 'row) sqlite_api \<Rightarrow> data \<Rightarrow> 'row sres list \<Rightarrow> (data \<times> data) list res" where
  "collect_rows Q pfx [] = Ok []"
| "collect_rows Q pfx (r # rows) =
     o_bind (sql_err Q r) (\<lambda>row.
     o_bind (sql_err Q (sq_row_blob Q row 0)) (\<lambda>key.
     if starts_with key pfx
     then o_bind (sql_err Q (sq_row_blob Q row 1)) (\<lambda>val.
            o_map (\<lambda>kv. (key, val) # kv) (collect_rows Q pfx rows))
     else collect_rows Q pfx rows))"

text \<open>\<open>PrefixIter\<close> filters once more: it ends at the first key without the prefix.\<close>

record sqlite_prefix_iter =
  spi_iter :: "(data \<times> data) list"
  spi_prefix :: data

definition spi_new :: "(data \<times> data) list \<Rightarrow> data \<Rightarrow> sqlite_prefix_iter" where
  "spi_new iter pfx = \<lparr>spi_iter = iter, spi_prefix = pfx\<rparr>"

definition spi_next :: "sqlite_prefix_iter \<Rightarrow> (data \<times> data) option \<times> sqlite_prefix_iter" where
  "spi_next it =
     (case spi_iter it of
        [] \<Rightarrow> (None, it)
      | kv # rest \<Rightarrow>
          (if starts_with (fst kv) (spi_prefix it) then Some kv else None, it\<lparr>spi_iter := rest\<rparr>))"

function spi_collect :: "sqlite_prefix_iter \<Rightarrow> (data \<times> data) list" where
  "spi_collect it =
     (case spi_next it of
        (None, _) \<Rightarrow> []
      | (Some x, it') \<Rightarrow> x # spi_collect it')"
  by pat_completeness auto
termination
  by (relation "measure (\<lambda>it. length (spi_iter it))")
    (auto simp: spi_next_def split: list.splits if_splits)

declare spi_collect.simps [simp del]

definition sqlite_tx_prefix_iter ::
    "('conn, 'stmt, 'row) sqlite_api \<Rightarrow> db_tx \<Rightarrow> 'conn sqlite_impl \<Rightarrow> db_map_id \<Rightarrow> data \<Rightarrow>
       (data \<times> data) list res" where
  "sqlite_tx_prefix_iter Q tx s map_id pfx =
     o_bind (maps_index (sq_queries s) map_id) (\<lambda>q.
     o_bind (sql_err Q (sq_prepare_cached Q (sq_conn s) (prefix_iter_query q))) (\<lambda>stmt.
     o_bind (sql_err Q (sq_query Q (sq_conn s) stmt [])) (\<lambda>rows.
     o_bind (collect_rows Q pfx rows) (\<lambda>kv. Ok (spi_collect (spi_new kv pfx))))))"

definition sqlite_write ::
    "('conn, 'stmt, 'row) sqlite_api \<Rightarrow> (sqlite_query \<Rightarrow> string) \<Rightarrow> sql_value list \<Rightarrow> db_map_id \<Rightarrow>
       db_tx \<Rightarrow> 'conn sqlite_impl \<Rightarrow> unit res \<times> db_tx \<times> 'conn sqlite_impl" where
  "sqlite_write Q sql params map_id tx s =
     (case o_bind (maps_index (sq_queries s) map_id) (\<lambda>q.
             sql_err Q (sq_prepare_cached Q (sq_conn s) (sql q))) of
        Ok stmt \<Rightarrow>
          (case sq_stmt_execute Q (sq_conn s) stmt params of
             (r, conn) \<Rightarrow> (o_map (\<lambda>_. ()) (sql_err Q r), tx, s\<lparr>sq_conn := conn\<rparr>))
      | Err e \<Rightarrow> (Err e, tx, s)
      | Panic m \<Rightarrow> (Panic m, tx, s)
      | Blocked \<Rightarrow> (Blocked, tx, s))"

definition sqlite_tx_put ::
    "('conn, 'stmt, 'row) sqlite_api \<Rightarrow> db_tx \<Rightarrow> 'conn sqlite_impl \<Rightarrow> db_map_id \<Rightarrow> data \<Rightarrow> data \<Rightarrow>
       unit res \<times> db_tx \<times> 'conn sqlite_impl" where
  "sqlite_tx_put Q tx s map_id key val = sqlite_write Q put_query [Blob key, Blob val] map_id tx s"

definition sqlite_tx_del ::
    "('conn, 'stmt, 'row) sqlite_api \<Rightarrow> db_tx \<Rightarrow> 'conn sqlite_impl \<Rightarrow> db_map_id \<Rightarrow> data \<Rightarrow>
       unit res \<times> db_tx \<times> 'conn sqlite_impl" where
  "sqlite_tx_del Q tx s map_id key = sqlite_write Q delete_query [Blob key] map_id tx s"

section \<open>Opening\<close>

record options =
  disable_fsync :: bool

definition options_default :: options where
  "options_default = \<lparr>disable_fsync = False\<rparr>"

record sqlite =
  sqlite_mode :: storage_mode
  sqlite_options :: options

definition sqlite_new_in_memory :: sqlite where
  "sqlite_new_in_memory = \<lparr>sqlite_mode = InMemoryMode, sqlite_options = options_default\<rparr>"

definition sqlite_new :: "string \<Rightarrow> sqlite" where
  "sqlite_new path = \<lparr>sqlite_mode = FileMode path, sqlite_options = options_default\<rparr>"

definition with_options :: "sqlite \<Rightarrow> options \<Rightarrow> sqlite" where
  "with_options self opts = \<lparr>sqlite_mode = sqlite_mode self, sqlite_options = opts\<rparr>"

text \<open>A step of \<open>open_db\<close> that changes the connection, ended early by \<open>?\<close>.\<close>

definition conn_step :: "'a sres \<times> 'conn \<Rightarrow> ('conn \<Rightarrow> 'b sres) \<Rightarrow> 'b sres" where
  "conn_step rc f = (case rc of (r, conn) \<Rightarrow> o_bind r (\<lambda>_. f conn))"

fun create_missing_tables ::
    "('conn, 'stmt, 'row) sqlite_api \<Rightarrow> 'stmt \<Rightarrow> db_map_desc list \<Rightarrow> 'conn \<Rightarrow> 'conn sres" where
  "create_missing_tables Q exists_stmt [] conn = Ok conn"
| "create_missing_tables Q exists_stmt (d # ds) conn =
     o_bind (sql_optional (o_bind (sq_query_row Q conn exists_stmt [Text (desc_name d)])
       (\<lambda>row. sq_row_text Q row 0))) (\<lambda>found.
     if found = None
     then conn_step (sq_execute Q conn (create_table_query (desc_name d)))
            (create_missing_tables Q exists_stmt ds)
     else create_missing_tables Q exists_stmt ds conn)"

definition sqlite_open_db ::
    "('conn, 'stmt, 'row) sqlite_api \<Rightarrow> sqlite \<Rightarrow> db_desc \<Rightarrow> 'conn sres" where
  "sqlite_open_db Q self desc =
     o_bind (sq_open Q open_db_flags (sqlite_mode self)) (\<lambda>conn.
     conn_step (sq_pragma_update Q conn ''locking_mode'' ''exclusive'') (\<lambda>conn.
     conn_step (if disable_fsync (sqlite_options self)
                then sq_pragma_update Q conn ''synchronous'' ''OFF''
                else sq_pragma_update Q conn ''fullfsync'' ''true'') (\<lambda>conn.
     conn_step (sq_execute Q conn ''BEGIN EXCLUSIVE TRANSACTION'') (\<lambda>conn.
     conn_step (sq_execute Q conn ''COMMIT'') (\<lambda>conn.
     o_bind (sq_prepare_cached Q conn
       ''SELECT name FROM sqlite_master WHERE type='table' AND name=?'') (\<lambda>exists_stmt.
     o_bind (create_missing_tables Q exists_stmt (maps_vec (db_maps desc)) conn) (\<lambda>conn.
       let statement_cap = max (count_as_usize (desc_map_count desc) * 4) 16
       in Ok (sq_set_cache_capacity Q conn statement_cap))))))))"

definition create_parent_dir :: "('conn, 'stmt, 'row) sqlite_api \<Rightarrow> storage_mode \<Rightarrow> unit res" where
  "create_parent_dir Q mode =
     (case mode of
        InMemoryMode \<Rightarrow> Ok ()
      | FileMode path \<Rightarrow>
          (case path_parent Q path of
             Some parent \<Rightarrow> o_map_err sqlite_process_io_error (dir_create_all Q parent)
           | None \<Rightarrow> Err (Fatal (FatalIo IoNotFound ''Cannot find the parent directory''))))"

definition sqlite_open ::
    "('conn, 'stmt, 'row) sqlite_api \<Rightarrow> sqlite \<Rightarrow> db_desc \<Rightarrow> 'conn sqlite_impl res" where
  "sqlite_open Q self desc =
     o_bind (create_parent_dir Q (sqlite_mode self)) (\<lambda>_.
       let queries = maps_transform (db_maps desc) sqlite_query_from_desc
       in o_bind (sql_err Q (sqlite_open_db Q self desc)) (\<lambda>conn.
            Ok \<lparr>sq_conn = conn, sq_locked = False, sq_poisoned = False, sq_queries = queries\<rparr>))"

definition sqlite_impl_ops ::
    "('conn, 'stmt, 'row) sqlite_api \<Rightarrow> ('conn sqlite_impl, db_tx, db_tx) backend_impl" where
  "sqlite_impl_ops Q =
     \<lparr>transaction_ro = sqlite_start_transaction Q,
      transaction_rw = (\<lambda>s _. sqlite_start_transaction Q s),
      ro_get = sqlite_tx_get Q,
      ro_prefix_iter = sqlite_tx_prefix_iter Q,
      ro_drop = sqlite_tx_drop Q,
      rw_get = sqlite_tx_get Q,
      rw_prefix_iter = sqlite_tx_prefix_iter Q,
      rw_put = sqlite_tx_put Q,
      rw_del = sqlite_tx_del Q,
      rw_commit = sqlite_tx_commit Q,
      rw_drop = sqlite_tx_drop Q\<rparr>"

definition sqlite_backend ::
    "('conn, 'stmt, 'row) sqlite_api \<Rightarrow> (sqlite, 'conn sqlite_impl, db_tx, db_tx) backend" where
  "sqlite_backend Q = \<lparr>be_open = sqlite_open Q, be_impl = sqlite_impl_ops Q\<rparr>"

end
