(* ===== verification/Sqlite_Contract.thy ===== *)
theory Sqlite_Contract
  imports Sqlite Named_Maps
begin

text \<open>
  The SQLite backend implements the transactional contract over a connection with the documented
  behaviour of the statements it issues. The locale \<open>sqlite_engine\<close> states what the code relies on;
  \<open>ref_sqlite\<close> is a connection that has it.
\<close>

section \<open>The prefix iterator\<close>

lemma spi_collect_eq: "spi_collect (spi_new xs p) = takeWhile (\<lambda>e. starts_with (fst e) p) xs"
proof (induction xs)
  case Nil
  show ?case by (subst spi_collect.simps) (simp add: spi_next_def spi_new_def)
next
  case (Cons e xs)
  then have "spi_collect \<lparr>spi_iter = xs, spi_prefix = p\<rparr> = takeWhile (\<lambda>e. starts_with (fst e) p) xs"
    by (simp add: spi_new_def)
  then show ?case by (subst spi_collect.simps) (simp add: spi_next_def spi_new_def)
qed

lemma spi_collect_all:
  "\<forall>e \<in> set xs. starts_with (fst e) p \<Longrightarrow> spi_collect (spi_new xs p) = xs"
  by (simp add: spi_collect_eq)

definition row_is :: "('conn, 'stmt, 'row) sqlite_api \<Rightarrow> 'row \<Rightarrow> data \<times> data \<Rightarrow> bool" where
  "row_is Q row kv \<longleftrightarrow> sq_row_blob Q row 0 = Ok (fst kv) \<and> sq_row_blob Q row 1 = Ok (snd kv)"

lemma collect_rows_all:
  "list_all2 (row_is Q) rows m \<Longrightarrow> collect_rows Q p (map Ok rows) = Ok (bt_prefix p m)"
  by (induction rule: list_all2_induct) (auto simp: row_is_def sql_err_def bt_prefix_def)

section \<open>What the code relies on\<close>

text \<open>Unquoted table names are compared without regard to the case of ASCII letters.\<close>

definition fold_char :: "char \<Rightarrow> char" where
  "fold_char c = (if 65 \<le> (of_char c :: nat) \<and> (of_char c :: nat) \<le> 90
    then char_of ((of_char c :: nat) + 32) else c)"

definition sql_fold :: "string \<Rightarrow> string" where
  "sql_fold s = map fold_char s"

text \<open>
  A connection outside and inside a transaction, with its tables and the ordered map each stands for;
  \<open>ident_ok\<close> are the names SQLite accepts as unquoted table names.
\<close>

locale sqlite_engine =
  fixes Q :: "('conn, 'stmt, 'row) sqlite_api"
    and q_idle :: "'conn \<Rightarrow> string list \<Rightarrow> (string \<Rightarrow> (data, data) btree) \<Rightarrow> bool"
    and q_tx :: "'conn \<Rightarrow> string list \<Rightarrow> (string \<Rightarrow> (data, data) btree) \<Rightarrow>
                   (string \<Rightarrow> (data, data) btree) \<Rightarrow> bool"
    and fresh_mode :: "storage_mode \<Rightarrow> bool"
    and ident_ok :: "string \<Rightarrow> bool"
  assumes idle_sorted: "q_idle conn ts m \<Longrightarrow> bt_inv (m n)"
    and tx_sorted: "q_tx conn ts b m \<Longrightarrow> bt_inv (m n)"
    and parent_ok: "fresh_mode (FileMode p) \<Longrightarrow> \<exists>par. path_parent Q p = Some par \<and> dir_create_all Q par = Ok ()"
    and open_ok: "fresh_mode mode \<Longrightarrow> \<exists>conn. sq_open Q open_db_flags mode = Ok conn \<and> q_idle conn [] (\<lambda>_. bt_empty)"
    and pragma_ok: "q_idle conn ts m \<Longrightarrow>
        \<exists>conn'. sq_pragma_update Q conn pn pv = (Ok (), conn') \<and> q_idle conn' ts m"
    and begin_ok: "q_idle conn ts m \<Longrightarrow>
        sql \<in> {''BEGIN TRANSACTION'', ''BEGIN EXCLUSIVE TRANSACTION''} \<Longrightarrow>
        \<exists>k conn'. sq_execute Q conn sql = (Ok k, conn') \<and> q_tx conn' ts m m"
    and commit_ok: "q_tx conn ts b m \<Longrightarrow> sql \<in> {''COMMIT'', ''COMMIT TRANSACTION''} \<Longrightarrow>
        \<exists>k conn'. sq_execute Q conn sql = (Ok k, conn') \<and> q_idle conn' ts m"
    and rollback_ok: "q_tx conn ts b m \<Longrightarrow>
        \<exists>k conn'. sq_execute Q conn ''ROLLBACK TRANSACTION'' = (Ok k, conn') \<and> q_idle conn' ts b"
    and autocommit_idle: "q_idle conn ts m \<Longrightarrow> sq_is_autocommit Q conn"
    and autocommit_tx: "q_tx conn ts b m \<Longrightarrow> \<not> sq_is_autocommit Q conn"
    and exists_ok: "q_idle conn ts m \<Longrightarrow>
        \<exists>stmt. sq_prepare_cached Q conn ''SELECT name FROM sqlite_master WHERE type='table' AND name=?'' = Ok stmt \<and>
          (\<forall>conn ts m n. q_idle conn ts m \<longrightarrow>
            (if n \<in> set ts then \<exists>row. sq_query_row Q conn stmt [Text n] = Ok row \<and> sq_row_text Q row 0 = Ok n
             else sq_query_row Q conn stmt [Text n] = Err QueryReturnedNoRows))"
    and create_ok: "q_idle conn ts m \<Longrightarrow> ident_ok n \<Longrightarrow> sql_fold n \<notin> sql_fold ` set ts \<Longrightarrow>
        \<exists>k conn'. sq_execute Q conn
            (''CREATE TABLE '' @ n @ ''(key BLOB PRIMARY KEY NOT NULL, value BLOB NOT NULL)'') = (Ok k, conn') \<and>
          q_idle conn' (ts @ [n]) m"
    and cache_ok: "q_idle conn ts m \<Longrightarrow> q_idle (sq_set_cache_capacity Q conn cap) ts m"
    and select_ok: "q_tx conn ts b m \<Longrightarrow> n \<in> set ts \<Longrightarrow>
        \<exists>stmt. sq_prepare_cached Q conn (''SELECT value FROM '' @ n @ '' WHERE key = ?'') = Ok stmt \<and>
          (case bt_get (m n) k of
             None \<Rightarrow> sq_query_row Q conn stmt [Blob k] = Err QueryReturnedNoRows
           | Some v \<Rightarrow> \<exists>row. sq_query_row Q conn stmt [Blob k] = Ok row \<and> sq_row_blob Q row 0 = Ok v)"
    and scan_ok: "q_tx conn ts b m \<Longrightarrow> n \<in> set ts \<Longrightarrow>
        \<exists>stmt rows. sq_prepare_cached Q conn (''SELECT key, value FROM '' @ n @ '' ORDER BY key'') = Ok stmt \<and>
          sq_query Q conn stmt [] = Ok (map Ok rows) \<and> list_all2 (row_is Q) rows (m n)"
    and insert_ok: "q_tx conn ts b m \<Longrightarrow> n \<in> set ts \<Longrightarrow>
        \<exists>stmt r conn'. sq_prepare_cached Q conn (''INSERT or REPLACE into '' @ n @ '' values(?, ?)'') = Ok stmt \<and>
          sq_stmt_execute Q conn stmt [Blob k, Blob v] = (Ok r, conn') \<and>
          q_tx conn' ts b (m(n := bt_insert k v (m n)))"
    and delete_ok: "q_tx conn ts b m \<Longrightarrow> n \<in> set ts \<Longrightarrow>
        \<exists>stmt r conn'. sq_prepare_cached Q conn (''DELETE FROM '' @ n @ '' WHERE key = ?'') = Ok stmt \<and>
          sq_stmt_execute Q conn stmt [Blob k] = (Ok r, conn') \<and>
          q_tx conn' ts b (m(n := bt_remove k (m n)))"

section \<open>The contract\<close>

definition sq_holds :: "string list \<Rightarrow> (string \<Rightarrow> (data, data) btree) \<Rightarrow> 'conn sqlite_impl \<Rightarrow> contents \<Rightarrow> bool" where
  "sq_holds ts m s c \<longleftrightarrow>
     (\<exists>ds. maps_vec (sq_queries s) = map sqlite_query_from_desc ds \<and> distinct (map desc_name ds) \<and>
       set (map desc_name ds) \<subseteq> set ts \<and> c = map m (map desc_name ds)) \<and> \<not> sq_poisoned s"

definition sq_idle ::
    "('conn \<Rightarrow> string list \<Rightarrow> (string \<Rightarrow> (data, data) btree) \<Rightarrow> bool) \<Rightarrow> 'conn sqlite_impl \<Rightarrow> contents \<Rightarrow> bool" where
  "sq_idle q_idle s c \<longleftrightarrow> (\<exists>ts m. q_idle (sq_conn s) ts m \<and> sq_holds ts m s c) \<and> \<not> sq_locked s"

definition sq_rw ::
    "('conn \<Rightarrow> string list \<Rightarrow> (string \<Rightarrow> (data, data) btree) \<Rightarrow> (string \<Rightarrow> (data, data) btree) \<Rightarrow> bool) \<Rightarrow>
       db_tx \<Rightarrow> 'conn sqlite_impl \<Rightarrow> contents \<Rightarrow> contents \<Rightarrow> bool" where
  "sq_rw q_tx tx s b c \<longleftrightarrow>
     (\<exists>ts m0 m. q_tx (sq_conn s) ts m0 m \<and> sq_holds ts m0 s b \<and> sq_holds ts m s c \<and> (\<forall>n. bt_inv (m0 n))) \<and>
     sq_locked s"

definition sq_ro ::
    "('conn \<Rightarrow> string list \<Rightarrow> (string \<Rightarrow> (data, data) btree) \<Rightarrow> (string \<Rightarrow> (data, data) btree) \<Rightarrow> bool) \<Rightarrow>
       db_tx \<Rightarrow> 'conn sqlite_impl \<Rightarrow> contents \<Rightarrow> bool" where
  "sq_ro q_tx tx s c \<longleftrightarrow> sq_rw q_tx tx s c c"

lemma sq_holds_conn [simp]:
  "sq_holds ts m (s\<lparr>sq_conn := conn\<rparr>) c = sq_holds ts m s c"
  "sq_holds ts m (s\<lparr>sq_locked := f\<rparr>) c = sq_holds ts m s c"
  by (simp_all add: sq_holds_def)

lemma sq_holds_nth:
  assumes "sq_holds ts m s c" and "i < length c"
  obtains d where "maps_index (sq_queries s) (DbMapId i) = (Ok (sqlite_query_from_desc d) :: sqlite_query res)"
    and "desc_name d \<in> set ts" and "c ! i = m (desc_name d)"
    and "\<And>x. sq_holds ts (m(desc_name d := x)) s (c[i := x])"
proof -
  from assms(1) obtain ds where ds: "maps_vec (sq_queries s) = map sqlite_query_from_desc ds"
    "distinct (map desc_name ds)" "set (map desc_name ds) \<subseteq> set ts" "c = map m (map desc_name ds)"
    "\<not> sq_poisoned s" by (auto simp: sq_holds_def)
  with assms(2) have i: "i < length ds" by simp
  have upd: "sq_holds ts (m(desc_name (ds ! i) := x)) s (c[i := x])" for x
  proof -
    have "map (m(map desc_name ds ! i := x)) (map desc_name ds) = c[i := x]"
      using ds(2,4) i by (subst map_upd_nth) simp_all
    with ds i show ?thesis unfolding sq_holds_def by (metis nth_map)
  qed
  show thesis
  proof (rule that [of "ds ! i"])
    show "maps_index (sq_queries s) (DbMapId i) = (Ok (sqlite_query_from_desc (ds ! i)) :: sqlite_query res)"
      using ds(1) i by (simp add: maps_index_def)
    have "desc_name (ds ! i) \<in> set (map desc_name ds)" using i by simp
    with ds(3) show "desc_name (ds ! i) \<in> set ts" by blast
    show "c ! i = m (desc_name (ds ! i))" using ds(4) i by simp
  qed (rule upd)
qed

context sqlite_engine
begin

lemma sqlite_get_ok:
  assumes "sq_rw q_tx tx s b c" and "i < length c"
  shows "sqlite_tx_get Q tx s (DbMapId i) k = Ok (bt_get (c ! i) k)"
proof -
  from assms(1) obtain ts m0 m where rw: "q_tx (sq_conn s) ts m0 m" "sq_holds ts m s c"
    by (auto simp: sq_rw_def)
  obtain d where d: "maps_index (sq_queries s) (DbMapId i) = (Ok (sqlite_query_from_desc d) :: sqlite_query res)"
    "desc_name d \<in> set ts" "c ! i = m (desc_name d)"
    using sq_holds_nth [OF rw(2) assms(2)] by blast
  from select_ok [OF rw(1) d(2), of k] d(1,3) show ?thesis
    by (auto simp: sqlite_tx_get_def sqlite_query_from_desc_def sql_err_def Let_def split: option.splits)
qed

lemma sqlite_iter_ok:
  assumes "sq_rw q_tx tx s b c" and "i < length c"
  shows "sqlite_tx_prefix_iter Q tx s (DbMapId i) p = Ok (bt_prefix p (c ! i))"
proof -
  from assms(1) obtain ts m0 m where rw: "q_tx (sq_conn s) ts m0 m" "sq_holds ts m s c"
    by (auto simp: sq_rw_def)
  obtain d where d: "maps_index (sq_queries s) (DbMapId i) = (Ok (sqlite_query_from_desc d) :: sqlite_query res)"
    "desc_name d \<in> set ts" "c ! i = m (desc_name d)"
    using sq_holds_nth [OF rw(2) assms(2)] by blast
  have "spi_collect (spi_new (bt_prefix p (m (desc_name d))) p) = bt_prefix p (m (desc_name d))"
    by (rule spi_collect_all) (auto simp: bt_prefix_def)
  with scan_ok [OF rw(1) d(2)] d(1,3) show ?thesis
    by (auto simp: sqlite_tx_prefix_iter_def sqlite_query_from_desc_def sql_err_def Let_def collect_rows_all)
qed

lemma sqlite_put_ok:
  assumes "sq_rw q_tx tx s b c" and "i < length c"
  shows "\<exists>tx' s'. sqlite_tx_put Q tx s (DbMapId i) k v = (Ok (), tx', s') \<and>
    sq_rw q_tx tx' s' b (contents_put i k v c)"
proof -
  from assms(1) obtain ts m0 m where rw: "q_tx (sq_conn s) ts m0 m" "sq_holds ts m0 s b" "sq_holds ts m s c"
    "\<forall>n. bt_inv (m0 n)" "sq_locked s" by (auto simp: sq_rw_def)
  obtain d where d: "maps_index (sq_queries s) (DbMapId i) = (Ok (sqlite_query_from_desc d) :: sqlite_query res)"
    "desc_name d \<in> set ts" "c ! i = m (desc_name d)" "\<And>x. sq_holds ts (m(desc_name d := x)) s (c[i := x])"
    using sq_holds_nth [OF rw(3) assms(2)] by blast
  obtain stmt r conn' where put:
    "sq_prepare_cached Q (sq_conn s) (''INSERT or REPLACE into '' @ desc_name d @ '' values(?, ?)'') = Ok stmt"
    "sq_stmt_execute Q (sq_conn s) stmt [Blob k, Blob v] = (Ok r, conn')"
    "q_tx conn' ts m0 (m(desc_name d := bt_insert k v (m (desc_name d))))"
    using insert_ok [OF rw(1) d(2), of k v] by blast
  have "sqlite_tx_put Q tx s (DbMapId i) k v = (Ok (), tx, s\<lparr>sq_conn := conn'\<rparr>)"
    using d(1) put(1,2)
    by (simp add: sqlite_tx_put_def sqlite_write_def sqlite_query_from_desc_def sql_err_def Let_def)
  moreover have "sq_rw q_tx tx (s\<lparr>sq_conn := conn'\<rparr>) b (contents_put i k v c)"
    using put(3) rw d(3) d(4) [of "bt_insert k v (m (desc_name d))"]
    by (auto simp: sq_rw_def contents_put_def)
  ultimately show ?thesis by blast
qed

lemma sqlite_del_ok:
  assumes "sq_rw q_tx tx s b c" and "i < length c"
  shows "\<exists>tx' s'. sqlite_tx_del Q tx s (DbMapId i) k = (Ok (), tx', s') \<and>
    sq_rw q_tx tx' s' b (contents_del i k c)"
proof -
  from assms(1) obtain ts m0 m where rw: "q_tx (sq_conn s) ts m0 m" "sq_holds ts m0 s b" "sq_holds ts m s c"
    "\<forall>n. bt_inv (m0 n)" "sq_locked s" by (auto simp: sq_rw_def)
  obtain d where d: "maps_index (sq_queries s) (DbMapId i) = (Ok (sqlite_query_from_desc d) :: sqlite_query res)"
    "desc_name d \<in> set ts" "c ! i = m (desc_name d)" "\<And>x. sq_holds ts (m(desc_name d := x)) s (c[i := x])"
    using sq_holds_nth [OF rw(3) assms(2)] by blast
  obtain stmt r conn' where del:
    "sq_prepare_cached Q (sq_conn s) (''DELETE FROM '' @ desc_name d @ '' WHERE key = ?'') = Ok stmt"
    "sq_stmt_execute Q (sq_conn s) stmt [Blob k] = (Ok r, conn')"
    "q_tx conn' ts m0 (m(desc_name d := bt_remove k (m (desc_name d))))"
    using delete_ok [OF rw(1) d(2), of k] by blast
  have "sqlite_tx_del Q tx s (DbMapId i) k = (Ok (), tx, s\<lparr>sq_conn := conn'\<rparr>)"
    using d(1) del(1,2)
    by (simp add: sqlite_tx_del_def sqlite_write_def sqlite_query_from_desc_def sql_err_def Let_def)
  moreover have "sq_rw q_tx tx (s\<lparr>sq_conn := conn'\<rparr>) b (contents_del i k c)"
    using del(3) rw d(3) d(4) [of "bt_remove k (m (desc_name d))"]
    by (auto simp: sq_rw_def contents_del_def)
  ultimately show ?thesis by blast
qed

lemma sqlite_begin_ok:
  assumes "sq_idle q_idle s c"
  shows "\<exists>tx s'. sqlite_start_transaction Q s = (Ok tx, s') \<and> sq_rw q_tx tx s' c c"
proof -
  from assms obtain ts m where idle: "q_idle (sq_conn s) ts m" "sq_holds ts m s c" "\<not> sq_locked s"
    by (auto simp: sq_idle_def)
  obtain k conn' where beg: "sq_execute Q (sq_conn s) ''BEGIN TRANSACTION'' = (Ok k, conn')" "q_tx conn' ts m m"
    using begin_ok [OF idle(1), of "''BEGIN TRANSACTION''"] by auto
  have "\<not> sq_poisoned s" using idle(2) by (simp add: sq_holds_def)
  with beg idle(3) have "sqlite_start_transaction Q s = (Ok DbTx, s\<lparr>sq_locked := True, sq_conn := conn'\<rparr>)"
    by (simp add: sqlite_start_transaction_def sql_err_def)
  moreover have "sq_rw q_tx DbTx (s\<lparr>sq_locked := True, sq_conn := conn'\<rparr>) c c"
    using beg(2) idle by (auto simp: sq_rw_def intro: idle_sorted)
  ultimately show ?thesis by blast
qed

lemma sqlite_drop_ok:
  assumes "sq_rw q_tx tx s b c"
  shows "sq_idle q_idle (sqlite_tx_drop Q tx s) b"
proof -
  from assms obtain ts m0 m where rw: "q_tx (sq_conn s) ts m0 m" "sq_holds ts m0 s b"
    by (auto simp: sq_rw_def)
  obtain k conn' where "sq_execute Q (sq_conn s) ''ROLLBACK TRANSACTION'' = (Ok k, conn')" "q_idle conn' ts m0"
    using rollback_ok [OF rw(1)] by blast
  with rw(2) autocommit_tx [OF rw(1)] show ?thesis
    by (auto simp: sqlite_tx_drop_def db_tx_rollback_def unlock_connection_def sq_idle_def sq_holds_def)
qed

lemma sqlite_commit_ok:
  assumes "sq_rw q_tx tx s b c"
  shows "\<exists>s'. sqlite_tx_commit Q tx s = (Ok (), s') \<and> sq_idle q_idle s' c"
proof -
  from assms obtain ts m0 m where rw: "q_tx (sq_conn s) ts m0 m" "sq_holds ts m s c"
    by (auto simp: sq_rw_def)
  obtain k conn' where c: "sq_execute Q (sq_conn s) ''COMMIT TRANSACTION'' = (Ok k, conn')" "q_idle conn' ts m"
    using commit_ok [OF rw(1), of "''COMMIT TRANSACTION''"] by auto
  with rw(2) autocommit_idle [OF c(2)] show ?thesis
    by (auto simp: sqlite_tx_commit_def commit_transaction_def sqlite_tx_drop_def db_tx_rollback_def
        unlock_connection_def sql_err_def sq_idle_def sq_holds_def)
qed

lemma create_missing_ok:
  assumes "q_idle conn ts m"
    and "\<forall>conn ts m n. q_idle conn ts m \<longrightarrow> n \<notin> set ts \<longrightarrow>
      sq_query_row Q conn stmt [Text n] = Err QueryReturnedNoRows"
    and "\<forall>d \<in> set ds. ident_ok (desc_name d)"
    and "distinct (map sql_fold (ts @ map desc_name ds))"
  shows "\<exists>conn'. create_missing_tables Q stmt ds conn = Ok conn' \<and> q_idle conn' (ts @ map desc_name ds) m"
  using assms(1,3,4)
proof (induction ds arbitrary: conn ts)
  case (Cons d ds)
  from Cons.prems(3) have "sql_fold (desc_name d) \<notin> sql_fold ` set ts" by auto
  moreover from this have "desc_name d \<notin> set ts" by blast
  ultimately obtain r conn1 where 1: "sq_execute Q conn (create_table_query (desc_name d)) = (Ok r, conn1)"
    "q_idle conn1 (ts @ [desc_name d]) m"
    "sq_query_row Q conn stmt [Text (desc_name d)] = Err QueryReturnedNoRows"
    using create_ok [OF Cons.prems(1), of "desc_name d"] Cons.prems(1,2) assms(2)
    by (auto simp: create_table_query_def)
  have "distinct (map sql_fold ((ts @ [desc_name d]) @ map desc_name ds))" using Cons.prems(3) by simp
  with Cons.IH [OF 1(2)] Cons.prems(2) obtain conn2 where
    "create_missing_tables Q stmt ds conn1 = Ok conn2" "q_idle conn2 ((ts @ [desc_name d]) @ map desc_name ds) m"
    by auto
  with 1 show ?case by (simp add: conn_step_def)
qed simp

lemma pragmas_ok:
  assumes "q_idle conn ts m"
  shows "\<exists>conn'. (if b then sq_pragma_update Q conn ''synchronous'' ''OFF''
      else sq_pragma_update Q conn ''fullfsync'' ''true'') = (Ok (), conn') \<and> q_idle conn' ts m"
  using pragma_ok [OF assms] by simp

text \<open>Everything \<open>open_db\<close> does around the loop over the tables leaves the tables alone.\<close>

lemma sqlite_open_db_steps:
  assumes "sq_open Q open_db_flags (sqlite_mode cfg) = Ok c0" and "q_idle c0 ts m"
  obtains c4 stmt where "q_idle c4 ts m"
    and "\<forall>conn ts m n. q_idle conn ts m \<longrightarrow>
      (if n \<in> set ts then \<exists>row. sq_query_row Q conn stmt [Text n] = Ok row \<and> sq_row_text Q row 0 = Ok n
       else sq_query_row Q conn stmt [Text n] = Err QueryReturnedNoRows)"
    and "sqlite_open_db Q cfg d = o_bind (create_missing_tables Q stmt (maps_vec (map_descs d)) c4)
      (\<lambda>conn. Ok (sq_set_cache_capacity Q conn (max (count_as_usize (desc_map_count d) * 4) 16)))"
proof -
  obtain c1 where c1: "sq_pragma_update Q c0 ''locking_mode'' ''exclusive'' = (Ok (), c1)" "q_idle c1 ts m"
    using pragma_ok [OF assms(2)] by blast
  obtain c2 where c2: "(if disable_fsync (sqlite_options cfg) then sq_pragma_update Q c1 ''synchronous'' ''OFF''
      else sq_pragma_update Q c1 ''fullfsync'' ''true'') = (Ok (), c2)" "q_idle c2 ts m"
    using pragmas_ok [OF c1(2)] by blast
  obtain r3 c3 where c3: "sq_execute Q c2 ''BEGIN EXCLUSIVE TRANSACTION'' = (Ok r3, c3)" "q_tx c3 ts m m"
    using begin_ok [OF c2(2), of "''BEGIN EXCLUSIVE TRANSACTION''"] by auto
  obtain r4 c4 where c4: "sq_execute Q c3 ''COMMIT'' = (Ok r4, c4)" "q_idle c4 ts m"
    using commit_ok [OF c3(2), of "''COMMIT''"] by auto
  from exists_ok [OF c4(2)] obtain stmt where
    "sq_prepare_cached Q c4 ''SELECT name FROM sqlite_master WHERE type='table' AND name=?'' = Ok stmt"
    "\<forall>conn ts m n. q_idle conn ts m \<longrightarrow>
      (if n \<in> set ts then \<exists>row. sq_query_row Q conn stmt [Text n] = Ok row \<and> sq_row_text Q row 0 = Ok n
       else sq_query_row Q conn stmt [Text n] = Err QueryReturnedNoRows)" by blast
  with assms(1) c1(1) c2(1) c3(1) c4 show thesis
    by (intro that [of c4 stmt])
      (simp_all add: sqlite_open_db_def conn_step_def db_maps_def Let_def del: if_split)
qed

lemma sqlite_open_db_ok:
  assumes "fresh_mode (sqlite_mode cfg)"
    and "\<forall>desc \<in> set (maps_vec (map_descs d)). ident_ok (desc_name desc)"
    and "distinct (map (\<lambda>desc. sql_fold (desc_name desc)) (maps_vec (map_descs d)))"
  shows "\<exists>conn. sqlite_open_db Q cfg d = Ok conn \<and>
    q_idle conn (map desc_name (maps_vec (map_descs d))) (\<lambda>_. bt_empty)"
proof -
  let ?m = "\<lambda>_. bt_empty" and ?ds = "maps_vec (map_descs d)"
  obtain c0 where c0: "sq_open Q open_db_flags (sqlite_mode cfg) = Ok c0" "q_idle c0 [] ?m"
    using open_ok [OF assms(1)] by blast
  obtain c4 stmt where c4: "q_idle c4 [] ?m"
    and stmt: "\<forall>conn ts m n. q_idle conn ts m \<longrightarrow>
      (if n \<in> set ts then \<exists>row. sq_query_row Q conn stmt [Text n] = Ok row \<and> sq_row_text Q row 0 = Ok n
       else sq_query_row Q conn stmt [Text n] = Err QueryReturnedNoRows)"
    and open_db: "sqlite_open_db Q cfg d = o_bind (create_missing_tables Q stmt ?ds c4)
      (\<lambda>conn. Ok (sq_set_cache_capacity Q conn (max (count_as_usize (desc_map_count d) * 4) 16)))"
    using sqlite_open_db_steps [OF c0] by blast
  obtain c5 where c5: "create_missing_tables Q stmt ?ds c4 = Ok c5" "q_idle c5 (map desc_name ?ds) ?m"
    using create_missing_ok [OF c4, of stmt ?ds] stmt assms(2,3) by (auto simp: comp_def)
  with open_db cache_ok [OF c5(2)] show ?thesis by simp
qed

lemma parent_dir_ok:
  assumes "fresh_mode mode"
  shows "create_parent_dir Q mode = Ok ()"
proof (cases mode)
  case (FileMode p)
  with assms parent_ok [of p] obtain par where "path_parent Q p = Some par" "dir_create_all Q par = Ok ()"
    by auto
  with FileMode show ?thesis by (simp add: create_parent_dir_def)
qed (simp add: create_parent_dir_def)

lemma sqlite_open_ok:
  assumes "fresh_mode (sqlite_mode cfg)"
    and "\<forall>desc \<in> set (maps_vec (map_descs d)). ident_ok (desc_name desc)"
    and "distinct (map (\<lambda>desc. sql_fold (desc_name desc)) (maps_vec (map_descs d)))"
  shows "\<exists>s. sqlite_open Q cfg d = Ok s \<and> sq_idle q_idle s (empty_contents (count_as_usize (desc_map_count d)))"
proof -
  let ?ds = "maps_vec (map_descs d)"
  obtain conn where conn: "sqlite_open_db Q cfg d = Ok conn" "q_idle conn (map desc_name ?ds) (\<lambda>_. bt_empty)"
    using sqlite_open_db_ok [OF assms] by blast
  have dir: "create_parent_dir Q (sqlite_mode cfg) = Ok ()" using assms(1) by (rule parent_dir_ok)
  have "distinct (map desc_name ?ds)"
    using assms(3) by (auto simp: distinct_map inj_on_def)
  then have "sq_holds (map desc_name ?ds) (\<lambda>_. bt_empty)
      \<lparr>sq_conn = conn, sq_locked = False, sq_poisoned = False,
       sq_queries = maps_transform (db_maps d) sqlite_query_from_desc\<rparr>
      (empty_contents (count_as_usize (desc_map_count d)))"
    by (auto simp: sq_holds_def maps_transform_def db_maps_def desc_map_count_def maps_map_count_def
        map_replicate_const comp_def intro!: exI [of _ ?ds])
  with conn dir show ?thesis
    by (auto simp: sqlite_open_def sql_err_def Let_def sq_idle_def)
qed

lemma sq_contents_ok:
  "sq_idle q_idle s c \<Longrightarrow> contents_ok c"
  "sq_rw q_tx tx s b c \<Longrightarrow> contents_ok c"
  by (auto simp: sq_idle_def sq_rw_def sq_holds_def contents_ok_def list_all_length
      intro: idle_sorted tx_sorted)

lemma sq_rw_length: "sq_rw q_tx tx s b c \<Longrightarrow> length c = length b"
  unfolding sq_rw_def sq_holds_def by (metis length_map)

lemma sqlite_contract:
  "backend_contract (sqlite_backend Q)
     (\<lambda>cfg d. fresh_mode (sqlite_mode cfg) \<and>
        (\<forall>desc \<in> set (maps_vec (map_descs d)). ident_ok (desc_name desc)) \<and>
        distinct (map (\<lambda>desc. sql_fold (desc_name desc)) (maps_vec (map_descs d))))
     (\<lambda>_. True) (sq_idle q_idle) (sq_ro q_tx) (sq_rw q_tx)"
proof (unfold_locales, goal_cases)
  case (4 w s b c)
  then show ?case by (rule sq_rw_length)
qed (simp_all add: sqlite_backend_def sqlite_impl_ops_def sq_ro_def sq_contents_ok sqlite_open_ok
    sqlite_begin_ok sqlite_get_ok sqlite_iter_ok sqlite_drop_ok sqlite_put_ok sqlite_del_ok
    sqlite_commit_ok)

end

section \<open>A connection with this behaviour\<close>

text \<open>
  Named ordered maps and, inside a transaction, their state when it began. A statement is its text;
  a row is the list of its values.
\<close>

record ref_conn =
  rc_tables :: named_maps
  rc_saved :: "named_maps option"

definition exists_sql :: string where
  "exists_sql = ''SELECT name FROM sqlite_master WHERE type='table' AND name=?''"

definition select_sql :: "string \<Rightarrow> string" where
  "select_sql n = ''SELECT value FROM '' @ n @ '' WHERE key = ?''"

definition scan_sql :: "string \<Rightarrow> string" where
  "scan_sql n = ''SELECT key, value FROM '' @ n @ '' ORDER BY key''"

definition insert_sql :: "string \<Rightarrow> string" where
  "insert_sql n = ''INSERT or REPLACE into '' @ n @ '' values(?, ?)''"

definition delete_sql :: "string \<Rightarrow> string" where
  "delete_sql n = ''DELETE FROM '' @ n @ '' WHERE key = ?''"

definition find_table :: "(string \<Rightarrow> string) \<Rightarrow> named_maps \<Rightarrow> string \<Rightarrow> string option" where
  "find_table tmpl dbs sql = List.find (\<lambda>n. tmpl n = sql) (map fst dbs)"

definition create_prefix :: string where
  "create_prefix = ''CREATE TABLE ''"

definition create_suffix :: string where
  "create_suffix = ''(key BLOB PRIMARY KEY NOT NULL, value BLOB NOT NULL)''"

definition created_table :: "string \<Rightarrow> string" where
  "created_table sql =
     take (length sql - length create_prefix - length create_suffix) (drop (length create_prefix) sql)"

definition ref_execute :: "ref_conn \<Rightarrow> string \<Rightarrow> nat sres \<times> ref_conn" where
  "ref_execute conn sql =
     (if sql = ''BEGIN TRANSACTION'' \<or> sql = ''BEGIN EXCLUSIVE TRANSACTION''
      then (Ok 0, conn\<lparr>rc_saved := Some (rc_tables conn)\<rparr>)
      else if sql = ''COMMIT TRANSACTION'' \<or> sql = ''COMMIT''
      then (Ok 0, conn\<lparr>rc_saved := None\<rparr>)
      else if sql = ''ROLLBACK TRANSACTION''
      then (case rc_saved conn of
              None \<Rightarrow> (Err (OtherSqlError 1), conn)
            | Some t \<Rightarrow> (Ok 0, \<lparr>rc_tables = t, rc_saved = None\<rparr>))
      else if starts_with sql create_prefix \<and>
        sql_fold (created_table sql) \<notin> set (map (\<lambda>(n, t). sql_fold n) (rc_tables conn))
      then (Ok 0, conn\<lparr>rc_tables := rc_tables conn @ [(created_table sql, bt_empty)]\<rparr>)
      else (Err (OtherSqlError 2), conn))"

definition ref_query_row :: "ref_conn \<Rightarrow> string \<Rightarrow> sql_value list \<Rightarrow> sql_value list sres" where
  "ref_query_row conn sql params =
     (if sql = exists_sql
      then (case params of
              [Text n] \<Rightarrow> if n \<in> set (map fst (rc_tables conn)) then Ok [Text n] else Err QueryReturnedNoRows
            | _ \<Rightarrow> Err (OtherSqlError 3))
      else (case (find_table select_sql (rc_tables conn) sql, params) of
              (Some n, [Blob k]) \<Rightarrow>
                (case bt_get (named_get (rc_tables conn) n) k of
                   None \<Rightarrow> Err QueryReturnedNoRows
                 | Some v \<Rightarrow> Ok [Blob v])
            | _ \<Rightarrow> Err (OtherSqlError 4)))"

definition ref_query :: "ref_conn \<Rightarrow> string \<Rightarrow> sql_value list \<Rightarrow> sql_value list sres list sres" where
  "ref_query conn sql params =
     (case find_table scan_sql (rc_tables conn) sql of
        None \<Rightarrow> Err (OtherSqlError 5)
      | Some n \<Rightarrow> Ok (map Ok (map (\<lambda>(k, v). [Blob k, Blob v]) (named_get (rc_tables conn) n))))"

definition ref_stmt_execute :: "ref_conn \<Rightarrow> string \<Rightarrow> sql_value list \<Rightarrow> nat sres \<times> ref_conn" where
  "ref_stmt_execute conn sql params =
     (case (find_table insert_sql (rc_tables conn) sql, find_table delete_sql (rc_tables conn) sql, params) of
        (Some n, _, [Blob k, Blob v]) \<Rightarrow>
          (Ok 1, conn\<lparr>rc_tables := named_update n (bt_insert k v) (rc_tables conn)\<rparr>)
      | (None, Some n, [Blob k]) \<Rightarrow>
          (Ok 1, conn\<lparr>rc_tables := named_update n (bt_remove k) (rc_tables conn)\<rparr>)
      | _ \<Rightarrow> (Err (OtherSqlError 6), conn))"

definition ref_row_blob :: "sql_value list \<Rightarrow> nat \<Rightarrow> data sres" where
  "ref_row_blob row i =
     (if i < length row then (case row ! i of Blob b \<Rightarrow> Ok b | Text _ \<Rightarrow> Err (OtherSqlError 7))
      else Err (OtherSqlError 8))"

definition ref_row_text :: "sql_value list \<Rightarrow> nat \<Rightarrow> string sres" where
  "ref_row_text row i =
     (if i < length row then (case row ! i of Text s \<Rightarrow> Ok s | Blob _ \<Rightarrow> Err (OtherSqlError 7))
      else Err (OtherSqlError 8))"

text \<open>Every database is empty when it is opened, except one file that has a table already.\<close>

definition existing_file :: storage_mode where
  "existing_file = FileMode ''scores.db''"

definition existing_tables :: named_maps where
  "existing_tables = [(''scores'', [([1], [2]), ([3], [4])])]"

definition ref_sqlite :: "(ref_conn, string, sql_value list) sqlite_api" where
  "ref_sqlite =
     \<lparr>sq_open = (\<lambda>flags mode. Ok \<lparr>rc_tables = (if mode = existing_file then existing_tables else []), rc_saved = None\<rparr>),
      sq_pragma_update = (\<lambda>conn _ _. (Ok (), conn)),
      sq_execute = ref_execute,
      sq_prepare_cached = (\<lambda>_ sql. Ok sql),
      sq_query_row = ref_query_row,
      sq_query = ref_query,
      sq_stmt_execute = ref_stmt_execute,
      sq_row_blob = ref_row_blob,
      sq_row_text = ref_row_text,
      sq_is_autocommit = (\<lambda>conn. rc_saved conn = None),
      sq_set_cache_capacity = (\<lambda>conn _. conn),
      sq_error_to_string = (\<lambda>_. ''error''),
      sq_code_to_string = (\<lambda>_. ''code''),
      sq_poison_message = ''poisoned lock'',
      path_parent = (\<lambda>p. Some p),
      dir_create_all = (\<lambda>_. Ok ())\<rparr>"

definition ref_conn_idle :: "ref_conn \<Rightarrow> string list \<Rightarrow> (string \<Rightarrow> (data, data) btree) \<Rightarrow> bool" where
  "ref_conn_idle conn ts m \<longleftrightarrow>
     rc_saved conn = None \<and> named_ok (rc_tables conn) \<and> ts = map fst (rc_tables conn) \<and>
     m = named_get (rc_tables conn)"

definition ref_conn_tx ::
    "ref_conn \<Rightarrow> string list \<Rightarrow> (string \<Rightarrow> (data, data) btree) \<Rightarrow> (string \<Rightarrow> (data, data) btree) \<Rightarrow> bool" where
  "ref_conn_tx conn ts b m \<longleftrightarrow>
     (\<exists>saved. rc_saved conn = Some saved \<and> named_ok saved \<and> map fst saved = ts \<and> b = named_get saved) \<and>
     named_ok (rc_tables conn) \<and> ts = map fst (rc_tables conn) \<and> m = named_get (rc_tables conn)"

lemmas ref_conn_states = ref_conn_idle_def ref_conn_tx_def

lemma find_table_eq:
  assumes "\<And>a b. tmpl a = tmpl b \<Longrightarrow> a = b" and "n \<in> fst ` set dbs"
  shows "find_table tmpl dbs (tmpl n) = Some n"
proof -
  have "List.find (\<lambda>n'. tmpl n' = tmpl n) xs = Some n" if "n \<in> set xs" for xs
    using that assms(1) by (induction xs) auto
  with assms(2) show ?thesis by (simp add: find_table_def)
qed

lemma find_table_none:
  assumes "\<And>a. tmpl a \<noteq> sql"
  shows "find_table tmpl dbs sql = None"
  using assms by (simp add: find_table_def find_None_iff)

lemma created_table_eq: "created_table (create_prefix @ n @ create_suffix) = n"
  by (simp add: created_table_def)

lemma find_select: "n \<in> fst ` set dbs \<Longrightarrow> find_table select_sql dbs (select_sql n) = Some n"
  and find_scan: "n \<in> fst ` set dbs \<Longrightarrow> find_table scan_sql dbs (scan_sql n) = Some n"
  and find_insert: "n \<in> fst ` set dbs \<Longrightarrow> find_table insert_sql dbs (insert_sql n) = Some n"
  and find_delete: "n \<in> fst ` set dbs \<Longrightarrow> find_table delete_sql dbs (delete_sql n) = Some n"
  by (rule find_table_eq; simp add: select_sql_def scan_sql_def insert_sql_def delete_sql_def)+

lemma find_insert_delete: "find_table insert_sql dbs (delete_sql n) = None"
  by (rule find_table_none) (simp add: insert_sql_def delete_sql_def)

lemma ref_create:
  assumes "sql_fold n \<notin> sql_fold ` fst ` set (rc_tables conn)"
  shows "ref_execute conn (''CREATE TABLE '' @ n @ ''(key BLOB PRIMARY KEY NOT NULL, value BLOB NOT NULL)'') =
    (Ok 0, conn\<lparr>rc_tables := rc_tables conn @ [(n, bt_empty)]\<rparr>)"
proof -
  have "''CREATE TABLE '' @ n @ ''(key BLOB PRIMARY KEY NOT NULL, value BLOB NOT NULL)'' =
      create_prefix @ n @ create_suffix"
    by (simp add: create_prefix_def create_suffix_def)
  moreover have "ref_execute conn (create_prefix @ n @ create_suffix) =
    (Ok 0, conn\<lparr>rc_tables := rc_tables conn @ [(n, bt_empty)]\<rparr>)"
    using assms
    by (simp add: ref_execute_def created_table_eq image_image case_prod_beta')
      (simp add: create_prefix_def)
  ultimately show ?thesis by simp
qed

interpretation sqlite_ref: sqlite_engine ref_sqlite ref_conn_idle ref_conn_tx "\<lambda>mode. mode \<noteq> existing_file" "\<lambda>_. True"
proof (unfold_locales, goal_cases)
  case (11 conn ts m)
  show ?case by (auto simp: ref_sqlite_def ref_query_row_def exists_sql_def ref_row_text_def ref_conn_states)
next
  case (12 conn ts m n)
  then have n: "n \<notin> fst ` set (rc_tables conn)" "sql_fold n \<notin> sql_fold ` fst ` set (rc_tables conn)"
    by (auto simp: ref_conn_states)
  let ?conn = "conn\<lparr>rc_tables := rc_tables conn @ [(n, bt_empty)]\<rparr>"
  have "sq_execute ref_sqlite = ref_execute" by (simp add: ref_sqlite_def)
  with ref_create [OF n(2)] have
    "sq_execute ref_sqlite conn (''CREATE TABLE '' @ n @ ''(key BLOB PRIMARY KEY NOT NULL, value BLOB NOT NULL)'') =
      (Ok 0, ?conn)" by (simp only:)
  moreover have "ref_conn_idle ?conn (ts @ [n]) m"
    using 12 n by (auto simp: ref_conn_states named_get_snoc named_ok_def)
  ultimately show ?case by blast
next
  case (14 conn ts b m n k)
  then have "n \<in> fst ` set (rc_tables conn)" by (simp add: ref_conn_tx_def)
  from find_select [OF this] 14 show ?case
    by (auto simp: ref_sqlite_def ref_query_row_def exists_sql_def select_sql_def ref_conn_tx_def ref_row_blob_def
        split: option.split)
next
  case (15 conn ts b m n)
  then have "n \<in> fst ` set (rc_tables conn)" by (simp add: ref_conn_tx_def)
  from find_scan [OF this] 15 show ?case
    by (auto simp: ref_sqlite_def ref_query_def scan_sql_def ref_conn_tx_def row_is_def ref_row_blob_def
        list_all2_conv_all_nth split: prod.splits intro!: exI [of _ "map (\<lambda>(k, v). [Blob k, Blob v]) (m n)"])
next
  case (16 conn ts b m n k v)
  then have n: "n \<in> fst ` set (rc_tables conn)" by (simp add: ref_conn_tx_def)
  from find_insert [OF n] 16 n show ?case
    by (auto simp: ref_sqlite_def ref_stmt_execute_def insert_sql_def ref_conn_tx_def named_get_update
        intro: named_ok_update)
next
  case (17 conn ts b m n k)
  then have n: "n \<in> fst ` set (rc_tables conn)" by (simp add: ref_conn_tx_def)
  from find_delete [OF n] find_insert_delete [of "rc_tables conn" n] 17 n show ?case
    by (auto simp: ref_sqlite_def ref_stmt_execute_def delete_sql_def ref_conn_tx_def named_get_update
        intro: named_ok_update)
qed (auto simp: ref_sqlite_def ref_execute_def ref_conn_states named_get_inv, auto simp: named_ok_def named_get_def)

end
