(* ===== verification/Storage_Test_Properties.thy ===== *)
theory Storage_Test_Properties
  imports Storage_Tests Scale_Encodings Lmdb_Contract Sqlite_Contract
begin

text \<open>
  The tests of the typed storage reach their end on every backend that keeps the contract, with codecs
  that have the documented encodings. \<open>storage_tests\<close> puts the two contracts together; it is interpreted
  on the in-memory backend, on which the repository runs these tests.
\<close>

section \<open>Rules for programs over a typed storage\<close>

lemma runs_fst: "runs p s (\<lambda>_ _. True) \<Longrightarrow> fst (p s) = Ok ()" for p :: "('s, unit) prog"
  by (auto simp: runs_def)

lemma runs_unw: "runs p s Q \<Longrightarrow> runs (unw p) s Q"
  by (auto simp: runs_def unw_def)

lemma runs_st_map_ro: "f (tx_ro_map I tx st pos M) = Ok x \<Longrightarrow> Q x st \<Longrightarrow> runs (st_map_ro I tx pos M f) st Q"
  by (simp add: runs_def st_map_ro_def)

lemma runs_st_map_rw: "f (tx_rw_map I tx st pos M) = Ok x \<Longrightarrow> Q x st \<Longrightarrow> runs (st_map_rw I tx pos M f) st Q"
  by (simp add: runs_def st_map_rw_def)

lemma length_desc_iter_decl: "length (desc_iter (decl_schema names)) = length names"
  by (induction names) simp_all

context backend_contract
begin

lemma runs_st_begin_ro:
  assumes "idle (sto_backend st) c"
    and "\<And>tx st'. ro_open tx (sto_backend st') c \<Longrightarrow> contents_ok c \<Longrightarrow> sto_schema st' = sto_schema st \<Longrightarrow> Q tx st'"
  shows "runs (st_begin_ro (be_impl B)) st Q"
  using begin_ro_spec [OF assms(1)] idle_ok [OF assms(1)] assms(2)
  by (fastforce simp: runs_def st_begin_ro_def storage_transaction_ro_def)

lemma runs_st_begin_rw:
  assumes "idle (sto_backend st) c"
    and "\<And>tx st'. rw_open tx (sto_backend st') c c \<Longrightarrow> sto_schema st' = sto_schema st \<Longrightarrow> Q tx st'"
  shows "runs (st_begin_rw (be_impl B)) st Q"
  using begin_rw_spec [OF assms(1), of None] assms(2)
  by (fastforce simp: runs_def st_begin_rw_def storage_transaction_rw_def)

lemma runs_st_commit:
  assumes "rw_open tx (sto_backend st) b c"
    and "\<And>st'. idle (sto_backend st') c \<Longrightarrow> sto_schema st' = sto_schema st \<Longrightarrow> Q () st'"
  shows "runs (st_commit (be_impl B) tx) st Q"
  using rw_commit_spec [OF assms(1)] assms(2)
  by (fastforce simp: runs_def st_commit_def transaction_commit_def)

lemma runs_st_close:
  assumes "ro_open tx (sto_backend st) c"
    and "\<And>st'. idle (sto_backend st') c \<Longrightarrow> sto_schema st' = sto_schema st \<Longrightarrow> Q () st'"
  shows "runs (st_close (be_impl B) tx) st Q"
  using ro_drop_spec [OF assms(1)] assms(2)
  by (simp add: runs_def st_close_def transaction_close_def)

lemma runs_st_abort:
  assumes "rw_open tx (sto_backend st) b c"
    and "\<And>st'. idle (sto_backend st') b \<Longrightarrow> sto_schema st' = sto_schema st \<Longrightarrow> Q () st'"
  shows "runs (st_abort (be_impl B) tx) st Q"
  using rw_drop_spec [OF assms(1)] assms(2)
  by (simp add: runs_def st_abort_def transaction_abort_def)

lemma runs_st_put:
  assumes "rw_open tx (sto_backend st) b c" and "as_usize (map_INDEX pos) < length c"
    and "key_ok (enc (key_codec M) k)"
    and "\<And>tx' st'. rw_open tx' (sto_backend st') b
        (contents_put (as_usize (map_INDEX pos)) (enc (key_codec M) k) (enc (value_codec M) v) c) \<Longrightarrow>
      sto_schema st' = sto_schema st \<Longrightarrow> Q tx' st'"
  shows "runs (st_put (be_impl B) pos M k v tx) st Q"
  using rw_put_spec [OF assms(1-3), of "enc (value_codec M) v"] assms(4)
  by (fastforce simp: runs_def st_put_def map_mut_put_def)

lemma runs_st_del:
  assumes "rw_open tx (sto_backend st) b c" and "as_usize (map_INDEX pos) < length c"
    and "key_ok (enc (key_codec M) k)"
    and "\<And>tx' st'. rw_open tx' (sto_backend st') b
        (contents_del (as_usize (map_INDEX pos)) (enc (key_codec M) k) c) \<Longrightarrow>
      sto_schema st' = sto_schema st \<Longrightarrow> Q tx' st'"
  shows "runs (st_del (be_impl B) pos M k tx) st Q"
  using rw_del_spec [OF assms(1-3)] assms(4)
  by (fastforce simp: runs_def st_del_def map_mut_del_def)

text \<open>A dump in a transaction of its own.\<close>

lemma runs_dump_now:
  assumes "idle (sto_backend st) c" and "length c = length (desc_iter (sto_schema st))"
    and "\<And>st'. idle (sto_backend st') c \<Longrightarrow> sto_schema st' = sto_schema st \<Longrightarrow> Q (contents_dump c) st'"
  shows "runs (dump_now (be_impl B)) st Q"
  unfolding dump_now_def
proof (rule runs_bind, rule runs_unw, rule runs_st_begin_ro [OF assms(1)])
  fix tx and st' :: "'s storage"
  assume tx: "ro_open tx (sto_backend st') c" "contents_ok c" "sto_schema st' = sto_schema st"
  have "tx_dump_raw (be_impl B) tx st' = Ok (contents_dump c)"
    using dump_storage_contents [OF tx(1,2)] assms(2) tx(3) by (simp add: tx_dump_raw_def)
  then have "runs (p_then (st_close (be_impl B) tx) (p_return (contents_dump c))) st' Q \<Longrightarrow>
      runs (p_bind (\<lambda>st. (o_unwrap (tx_dump_raw (be_impl B) tx st), st))
        (\<lambda>raw_db. p_then (st_close (be_impl B) tx) (p_return raw_db))) st' Q"
    by (intro runs_bind) (simp add: runs_def)
  moreover have "runs (p_then (st_close (be_impl B) tx) (p_return (contents_dump c))) st' Q"
    by (rule runs_then, rule runs_st_close [OF tx(1)], rule runs_return) (simp add: assms(3) tx(3))
  ultimately show "runs (p_bind (\<lambda>st. (o_unwrap (tx_dump_raw (be_impl B) tx st), st))
        (\<lambda>raw_db. p_then (st_close (be_impl B) tx) (p_return raw_db))) st' Q" .
qed

lemma storage_new_starts:
  assumes "cfg_ok cfg (decl_desc names)" and "distinct names"
  obtains st where "storage_new B cfg (decl_schema names) = Ok st"
    and "idle (sto_backend st) (empty_contents (length names))" and "sto_schema st = decl_schema names"
proof -
  let ?d = "\<lparr>map_descs = DbMapsData (desc_iter (decl_schema names))\<rparr>"
  have "construct_db_desc (desc_iter (decl_schema names)) = (Ok ?d :: db_desc res)"
    using assms(2) by (intro schema_desc) simp
  moreover obtain s where "be_open B cfg ?d = Ok s" "idle s (empty_contents (length names))"
    using open_spec [OF assms(1) [unfolded decl_desc_def]] assms(2)
    by (auto simp: desc_map_count_def maps_map_count_def length_desc_iter_decl schema_names_def [symmetric])
  ultimately show thesis
    by (intro that [of "\<lparr>sto_backend = s, sto_schema = decl_schema names\<rparr>"]) (simp_all add: storage_new_def)
qed

lemma with_storage_Ok:
  assumes "cfg_ok cfg (decl_desc names)" and "distinct names"
    and "\<And>st. idle (sto_backend st) (empty_contents (length names)) \<Longrightarrow> sto_schema st = decl_schema names \<Longrightarrow>
      runs (body (be_impl B)) st (\<lambda>_ _. True)"
  shows "with_storage B cfg names body = Ok ()"
proof -
  obtain st where st: "storage_new B cfg (decl_schema names) = Ok st"
    "idle (sto_backend st) (empty_contents (length names))" "sto_schema st = decl_schema names"
    using storage_new_starts [OF assms(1,2)] .
  then have "fst (body (be_impl B) st) = Ok ()"
    using assms(3) [of st] by (auto simp: runs_def)
  with st(1) show ?thesis by (simp add: with_storage_def)
qed

end

section \<open>The tests\<close>

text \<open>Rules that take a test apart.\<close>

lemmas typed_steps = runs_bind runs_then runs_unw

text \<open>Entries in the strict order of a key are determined by their set.\<close>

lemma strict_order_unique:
  fixes f :: "'a \<Rightarrow> 'b::linorder"
  assumes "sorted_wrt (<) (map f xs)" and "sorted_wrt (<) (map f ys)" and "set xs = set ys"
  shows "xs = ys"
proof -
  let ?m = "map (\<lambda>x. (f x, x))"
  have "bt_inv (?m xs)" "bt_inv (?m ys)" using assms(1,2) by (simp_all add: bt_inv_def comp_def)
  moreover from this have "bt_get (?m xs) = bt_get (?m ys)"
    using assms(3) unfolding bt_get_def by (intro map_of_inject_set [THEN iffD2]) (auto dest: bt_inv_distinct)
  ultimately have "?m xs = ?m ys" by (rule bt_ext)
  then have "map snd (?m xs) = map snd (?m ys)" by (rule arg_cong)
  then show ?thesis by (simp add: comp_def)
qed

lemma decode_items_decoded:
  "decode_items (ref_types m) (map_ref_prefix_iter m P p) = decoded_items (map_ref_prefix_iter_decoded m P p)"
  by (cases "map_ref_prefix_iter m P p")
    (simp_all add: decode_items_def decoded_items_def map_ref_prefix_iter_decoded_def comp_def o_unwrap_def)

lemma indices_hold: indices
  by (simp add: indices_def test_schema_def raw_id_new_def from_usize_unchecked_def raw_from_usize_def
      raw_from_name_def decl_map_def)

abbreviation types_of :: "'k codec \<Rightarrow> 'v codec \<Rightarrow> ('k, 'v) map_types" where
  "types_of K V \<equiv> \<lparr>key_codec = K, value_codec = V\<rparr>"

context typed_storage
begin

lemma typed_start:
  "typed_at M Head (bt_empty # c)" "typed_view M Head (bt_empty # c) = Map.empty"
  by (simp_all add: typed_at_def typed_view_def typed_ok_empty typed_get_empty fun_eq_iff)

lemma runs_typed_put:
  assumes "rw_open tx (sto_backend st) b c" and "typed_at M pos c" and "key_ok (enc (key_codec M) k)"
    and "\<And>tx' st' c'. rw_open tx' (sto_backend st') b c' \<Longrightarrow> typed_at M pos c' \<Longrightarrow>
      typed_view M pos c' = (typed_view M pos c)(k \<mapsto> v) \<Longrightarrow> Q tx' st'"
  shows "runs (st_put (be_impl B) pos M k v tx) st Q"
  using map_mut_put_spec [OF assms(1-3), of v] assms(4)
  by (fastforce simp: runs_def st_put_def)

lemma runs_put_all:
  fixes st :: "'s storage"
  assumes "rw_open tx (sto_backend st) b c" and "typed_at M pos c" and "\<forall>(k, v) \<in> set xs. key_ok (enc (key_codec M) k)"
    and "\<And>tx' st' c'. rw_open tx' (sto_backend st') b c' \<Longrightarrow> typed_at M pos c' \<Longrightarrow>
      typed_view M pos c' = typed_view M pos c ++ map_of (rev xs) \<Longrightarrow> Q tx' st'"
  shows "runs (p_for (\<lambda>(k, v) tx. unw (st_put (be_impl B) pos M k v tx)) xs tx) st Q"
  using assms
proof (induction xs arbitrary: tx st c)
  case Nil
  then show ?case by (auto intro: runs_return)
next
  case (Cons x xs)
  obtain k v where x: "x = (k, v)" by fastforce
  with Cons.prems(3) have ok: "key_ok (enc (key_codec M) k)" "\<forall>(k, v) \<in> set xs. key_ok (enc (key_codec M) k)" by auto
  show ?case
    unfolding x p_for.simps split
  proof (rule runs_bind, rule runs_unw, rule runs_typed_put [OF Cons.prems(1,2) ok(1)])
    fix tx' c' and st' :: "'s storage"
    assume c': "rw_open tx' (sto_backend st') b c'" "typed_at M pos c'"
      "typed_view M pos c' = (typed_view M pos c)(k \<mapsto> v)"
    then have "typed_view M pos c' ++ map_of (rev xs) = typed_view M pos c ++ map_of (rev (x # xs))"
      by (simp add: x map_add_def fun_eq_iff split: option.splits)
    with Cons.IH [OF c'(1,2) ok(2)] Cons.prems(4)
    show "runs (p_for (\<lambda>(k, v) tx. unw (st_put (be_impl B) pos M k v tx)) xs tx') st' Q" by metis
  qed
qed

text \<open>A scan of a typed map by a prefix finds a list of entries that has the right set and order.\<close>

lemma scan_finds:
  assumes "ro_open tx (sto_backend st) c" and "contents_ok c" and "typed_at M pos c"
    and "encoding_prefix P (key_codec M) part"
    and "set xs = {(k, v). typed_view M pos c k = Some v \<and> part k = p}"
    and "sorted_wrt (<) (map (enc (key_codec M) \<circ> fst) xs)"
  shows "map_ref_prefix_iter_decoded (tx_ro_map (be_impl B) tx st pos M) P p = Ok (map Ok xs)"
proof -
  obtain es where es: "map_ref_prefix_iter_decoded (tx_ro_map (be_impl B) tx st pos M) P p = Ok (map Ok es)"
    "set es = set xs" "sorted_wrt (<) (map (enc (key_codec M) \<circ> fst) es)"
    using map_ref_scan_ro_spec [OF assms(1-4), of p] unfolding assms(5) [symmetric] by (elim exE conjE) (rule that)
  from strict_order_unique [OF es(3) assms(6) es(2)] es(1) show ?thesis by simp
qed

end

lemma o_collect_Ok: "o_collect (map Ok xs) = Ok xs"
  by (induction xs) simp_all

lemma tx_ro_map_types [simp]: "ref_types (tx_ro_map I tx st pos M) = M"
  by (simp add: tx_ro_map_def map_ref_new_def)

lemma test_values_sorted_eq:
  "test_values_sorted =
     [((bytes ''bar'', 42), 3), ((bytes ''bar'', 43), 4), ((bytes ''foo'', 1), 1), ((bytes ''foo'', 2), 2),
      ((bytes ''foo'', 12), 0), ((bytes ''hello'', 1337), 6)]"
  by (simp add: test_values_sorted_def test_values_def bytes_def word_le_nat_alt)

locale storage_tests =
  backend_contract B cfg_ok key_ok idle ro_open rw_open + scale_encodings byte_vec u16c u32c u64c
  for B :: "('b, 's, 'ro, 'rw) backend" and cfg_ok key_ok idle ro_open rw_open and byte_vec u16c u32c u64c
begin

sublocale bb: typed_storage B cfg_ok key_ok idle ro_open rw_open "types_of byte_vec byte_vec"
  by (intro typed_storage.intro typed_map.intro backend_contract_axioms) (simp_all add: Bytes.scale_codec_axioms)

sublocale bu: typed_storage B cfg_ok key_ok idle ro_open rw_open "types_of byte_vec u64c"
  by (intro typed_storage.intro typed_map.intro backend_contract_axioms)
    (simp_all add: Bytes.scale_codec_axioms U64.scale_codec_axioms)

sublocale cu: typed_storage B cfg_ok key_ok idle ro_open rw_open
    "types_of (pair_codec byte_vec u16c) u64c"
  by (intro typed_storage.intro typed_map.intro backend_contract_axioms)
    (simp_all add: pair_codec_scale Bytes.scale_codec_axioms U16.scale_codec_axioms U64.scale_codec_axioms)

lemma short_bytes_key: "b \<noteq> [] \<Longrightarrow> length b < 64 \<Longrightarrow> key_ok (enc byte_vec b)"
  by (intro key_ok_length) (simp_all add: enc_bytes)

lemma compound_key: "length b < 64 \<Longrightarrow> key_ok (enc (pair_codec byte_vec u16c) (b, n))"
  by (intro key_ok_length) (simp_all add: enc_bytes enc_u16 pair_codec_def)

lemma empty_tests:
  assumes "cfg_ok cfg (decl_desc [''Map1''])"
  shows "empty_ro B cfg (types_of byte_vec byte_vec) = Ok ()"
    and "empty_rw B cfg (types_of byte_vec byte_vec) = Ok ()"
proof -
  have foo: "key_ok (enc (key_codec (types_of byte_vec byte_vec)) (bytes ''foo''))"
    by (simp add: short_bytes_key bytes_def)
  show "empty_ro B cfg (types_of byte_vec byte_vec) = Ok ()"
    unfolding empty_ro_def
    using bb.map_ref_get_ro_spec [OF _ bb.typed_start(1) foo]
    by (auto intro!: with_storage_Ok assms typed_steps runs_st_begin_ro runs_st_map_ro runs_assert runs_st_close
        simp: bb.typed_start(2))
  show "empty_rw B cfg (types_of byte_vec byte_vec) = Ok ()"
    unfolding empty_rw_def
    using bb.map_ref_get_rw_spec [OF _ bb.typed_start(1) foo]
    by (auto intro!: with_storage_Ok assms typed_steps runs_st_begin_rw runs_st_map_rw runs_assert runs_st_abort
        simp: bb.typed_start(2))
qed

lemma runs_scan_and_check:
  fixes P :: "'p codec"
  assumes "idle (sto_backend st) c" and "typed_at (types_of (pair_codec byte_vec u16c) u64c) Head c"
    and "encoding_prefix P (pair_codec byte_vec u16c) part"
    and "set xs = {(k, v). typed_view (types_of (pair_codec byte_vec u16c) u64c) Head c k = Some v \<and> part k = p}"
    and "sorted_wrt (<) (map (enc (pair_codec byte_vec u16c) \<circ> fst) xs)" and "ok xs"
    and "\<And>st'. idle (sto_backend st') c \<Longrightarrow> Q () st'"
    and "scan = (\<lambda>M2 m. decode_items M2 (map_ref_prefix_iter m P p)) \<or>
      scan = (\<lambda>M2 m. decoded_items (map_ref_prefix_iter_decoded m P p))"
  shows "runs (scan_and_check (be_impl B) (types_of (pair_codec byte_vec u16c) u64c) scan ok) st Q"
  unfolding scan_and_check_def
proof (rule runs_bind, rule runs_unw, rule runs_st_begin_ro [OF assms(1)], rule runs_bind, rule runs_st_map_ro)
  let ?M = "types_of (pair_codec byte_vec u16c) u64c"
  fix tx and st' :: "'s storage"
  assume tx: "ro_open tx (sto_backend st') c" "contents_ok c"
  let ?m = "tx_ro_map (be_impl B) tx st' Head ?M"
  have "map_ref_prefix_iter_decoded ?m P p = Ok (map Ok xs)"
    using assms(3-5) by (intro cu.scan_finds [OF tx assms(2)]) simp_all
  then have "decoded_items (map_ref_prefix_iter_decoded ?m P p) = Ok xs"
    by (simp add: decoded_items_def o_collect_Ok)
  then show "scan ?M ?m = Ok xs"
    using assms(8) decode_items_decoded [of ?m P p] by auto
  show "runs (p_then (p_assert (ok xs)) (st_close (be_impl B) tx)) st' Q"
    by (rule runs_then, rule runs_assert [OF assms(6)], rule runs_st_close [OF tx(1)]) (rule assms(7))
qed

lemma prefix_iteration_passes:
  assumes "cfg_ok cfg (decl_desc [''Map2''])"
  shows "prefix_iteration_test B cfg (types_of (pair_codec byte_vec u16c) u64c) byte_vec = Ok ()"
  unfolding prefix_iteration_test_def
proof (rule with_storage_Ok [OF assms], simp, rule runs_bind, rule runs_unw, rule runs_st_begin_rw, assumption,
    rule runs_bind)
  let ?K = "pair_codec byte_vec u16c" and ?M = "types_of (pair_codec byte_vec u16c) u64c"
  fix tx and st :: "'s storage"
  assume rw: "rw_open tx (sto_backend st) (empty_contents (length [''Map2''])) (empty_contents (length [''Map2'']))"
  have keys: "\<forall>(k, v) \<in> set test_values. key_ok (enc (key_codec ?M) k)"
    by (simp add: test_values_def compound_key bytes_def)
  have start: "typed_at ?M Head (empty_contents (length [''Map2'']))"
    "typed_view ?M Head (empty_contents (length [''Map2''])) = Map.empty"
    by (simp_all add: cu.typed_start)
  let ?foo = "[((bytes ''foo'', 1), 1), ((bytes ''foo'', 2), 2), ((bytes ''foo'', 12), 0)]"
  have order: "sorted_wrt (<) (map (enc ?K \<circ> fst) ?foo)" "sorted_wrt (<) (map (enc ?K \<circ> fst) test_values_sorted)"
    by (simp_all add: test_values_sorted_eq pair_codec_def enc_bytes enc_u16 bytes_def)
  have foo: "map drop_string ?foo = expected" by (simp add: drop_string_def expected_def)
  have prefixes: "encoding_prefix byte_vec ?K fst" "encoding_prefix unit_codec ?K (\<lambda>_. ())"
    using pair_codec_first [OF Bytes.scale_codec_axioms U16.scale_codec_axioms]
      unit_prefix [OF pair_codec_scale [OF Bytes.scale_codec_axioms U16.scale_codec_axioms]] by simp_all
  show "runs (p_for (\<lambda>(key, val) dbtx. unw (st_put (be_impl B) Head ?M key val dbtx)) test_values tx) st
    (\<lambda>x s'. runs (p_then (unw (st_commit (be_impl B) x)) (
     p_then (scan_and_check (be_impl B) ?M (\<lambda>M2 m. decode_items M2 (map_ref_prefix_iter m byte_vec (bytes ''foo'')))
       (\<lambda>items. map drop_string items = expected)) (
     p_then (scan_and_check (be_impl B) ?M (\<lambda>M2 m. decoded_items (map_ref_prefix_iter_decoded m byte_vec (bytes ''foo'')))
       (\<lambda>items. map drop_string items = expected)) (
     p_then (scan_and_check (be_impl B) ?M (\<lambda>M2 m. decode_items M2 (map_ref_prefix_iter m unit_codec ()))
       (\<lambda>items. items = test_values_sorted))
     (scan_and_check (be_impl B) ?M (\<lambda>M2 m. decoded_items (map_ref_prefix_iter_decoded m unit_codec ()))
       (\<lambda>items. items = test_values_sorted)))))) s' (\<lambda>_ _. True))"
  proof (rule cu.runs_put_all [OF rw start(1) keys])
    fix tx' c' and st' :: "'s storage"
    assume c': "rw_open tx' (sto_backend st') (empty_contents (length [''Map2''])) c'" "typed_at ?M Head c'"
      "typed_view ?M Head c' = typed_view ?M Head (empty_contents (length [''Map2''])) ++ map_of (rev test_values)"
    have view: "typed_view ?M Head c' k = Some v \<longleftrightarrow> (k, v) \<in> set test_values" for k v
      by (auto simp: c'(3) cu.typed_start(2) test_values_def bytes_def split: if_splits)
    have sets: "set ?foo = {(k, v). typed_view ?M Head c' k = Some v \<and> fst k = bytes ''foo''}"
      "set test_values_sorted = {(k, v). typed_view ?M Head c' k = Some v \<and> () = ()}"
      by (auto simp: view test_values_sorted_def test_values_def bytes_def)
    note scan = runs_scan_and_check [OF _ c'(2)]
    note foo_scan = scan [OF _ prefixes(1) sets(1) order(1), where ok = "\<lambda>items. map drop_string items = expected", OF _ foo]
    note all_scan = scan [OF _ prefixes(2) sets(2) order(2), where ok = "\<lambda>items. items = test_values_sorted", OF _ refl]
    show "runs (p_then (unw (st_commit (be_impl B) tx')) (
       p_then (scan_and_check (be_impl B) ?M (\<lambda>M2 m. decode_items M2 (map_ref_prefix_iter m byte_vec (bytes ''foo'')))
         (\<lambda>items. map drop_string items = expected)) (
       p_then (scan_and_check (be_impl B) ?M (\<lambda>M2 m. decoded_items (map_ref_prefix_iter_decoded m byte_vec (bytes ''foo'')))
         (\<lambda>items. map drop_string items = expected)) (
       p_then (scan_and_check (be_impl B) ?M (\<lambda>M2 m. decode_items M2 (map_ref_prefix_iter m unit_codec ()))
         (\<lambda>items. items = test_values_sorted))
       (scan_and_check (be_impl B) ?M (\<lambda>M2 m. decoded_items (map_ref_prefix_iter_decoded m unit_codec ()))
         (\<lambda>items. items = test_values_sorted)))))) st' (\<lambda>_ _. True)"
      by (rule runs_then, rule runs_unw, rule runs_st_commit [OF c'(1)], rule runs_then, erule foo_scan,
          rule runs_then, erule foo_scan, rule runs_then, erule all_scan, erule all_scan) simp_all
  qed
qed

lemma doc_example_passes:
  assumes "cfg_ok cfg (decl_desc [''MyMap''])"
  shows "doc_example B cfg (types_of byte_vec u64c) = Ok ()"
proof -
  let ?M = "types_of byte_vec u64c"
  have keys: "key_ok (enc (key_codec ?M) (bytes ''foo''))" "key_ok (enc (key_codec ?M) (bytes ''baz''))"
    by (simp_all add: short_bytes_key bytes_def)
  have get: "get_decoded ?M key (tx_rw_map (be_impl B) tx st Head ?M) = Ok (typed_view ?M Head c key)"
    if "rw_open tx (sto_backend st) b c" "typed_at ?M Head c" "key_ok (enc (key_codec ?M) key)"
    for tx b c key and st :: "'s storage"
    using bu.map_ref_get_rw_spec [OF that] by (cases "typed_view ?M Head c key") (simp_all add: get_decoded_def decode_found_def U64.decode_enc)
  have get_ro: "get_decoded ?M key (tx_ro_map (be_impl B) tx st Head ?M) = Ok (typed_view ?M Head c key)"
    if "ro_open tx (sto_backend st) c" "typed_at ?M Head c" "key_ok (enc (key_codec ?M) key)"
    for tx c key and st :: "'s storage"
    using bu.map_ref_get_ro_spec [OF that] by (cases "typed_view ?M Head c key") (simp_all add: get_decoded_def decode_found_def U64.decode_enc)
  let ?c = "empty_contents (length [''MyMap''])"
  have start: "typed_at ?M Head ?c" "typed_view ?M Head ?c = Map.empty" by (simp_all add: bu.typed_start)
  obtain st where st: "storage_new B cfg (decl_schema [''MyMap'']) = Ok st" "idle (sto_backend st) ?c"
    using storage_new_starts [OF assms] by auto
  show ?thesis
    unfolding doc_example_def get_mut_decoded_eq st(1) o_bind.simps Let_def
    by (subst runs_fst)
      (rule typed_steps runs_st_begin_rw [OF st(2)] runs_assert runs_st_begin_rw runs_st_begin_ro bu.runs_typed_put
        runs_st_commit runs_st_abort runs_st_close start keys runs_st_map_rw runs_st_map_ro get get_ro
        bu.map_ref_get_ro_spec | assumption | simp add: bu.typed_start bytes_def)+
qed

lemma bt_index_dump:
  assumes "as_usize (map_INDEX pos) < length c"
  shows "bt_index (contents_dump c) (raw_id_new pos) = Ok (c ! as_usize (map_INDEX pos))"
proof -
  have "(raw_id_new pos, c ! as_usize (map_INDEX pos)) \<in> set (contents_dump c)"
    using assms by (force simp: contents_dump_def raw_id_new_def)
  then have "bt_get (contents_dump c) (raw_id_new pos) = Some (c ! as_usize (map_INDEX pos))"
    by (simp add: bt_get_in_set)
  then show ?thesis by (simp add: bt_index_def)
qed

lemma runs_check_len:
  "as_usize (map_INDEX pos) < length c \<Longrightarrow> length (c ! as_usize (map_INDEX pos)) = n \<Longrightarrow> Q () st \<Longrightarrow>
    runs (check_len (raw_id_new pos) n (contents_dump c)) st Q"
  unfolding check_len_def by (rule runs_bind) (simp add: runs_def bt_index_dump p_assert_def)

lemma runs_check_item:
  "as_usize (map_INDEX pos) < length c \<Longrightarrow> bt_get (c ! as_usize (map_INDEX pos)) key = Some val \<Longrightarrow> Q () st \<Longrightarrow>
    runs (check_item (raw_id_new pos) key val (contents_dump c)) st Q"
  unfolding check_item_def by (rule runs_bind) (simp add: runs_def bt_index_dump p_assert_def, simp add: bt_index_def)

lemma basic_dump_passes:
  assumes "cfg_ok cfg (decl_desc [''Db0'', ''Db1''])"
  shows "basic_dump B cfg (types_of u32c u32c) (types_of u16c byte_vec) = Ok ()"
  unfolding basic_dump_def Let_def
  by (rule with_storage_Ok [OF assms], simp)
    (rule typed_steps runs_dump_now runs_assert runs_st_begin_rw runs_st_put runs_st_del runs_st_commit runs_check_len
        runs_check_item | assumption |
      simp add: key_ok_length enc_u32 enc_u16 enc_bytes contents_dump_def bt_empty_def bt_get_def)+

end

text \<open>
  C12. The tests of the typed storage pass, on every backend that keeps the contract and opens a database
  with the map names each test declares, and with codecs that have the documented encodings: the reads of an empty map, the iteration over a compound key by a
  string prefix and over the whole map, decoded or not, the raw identifiers and the dump, whose bytes
  are those the test expects, and the example of the crate documentation.
\<close>

theorem storage_tests_pass:
  assumes "backend_contract B cfg_ok key_ok idle ro_open rw_open"
    and "scale_encodings byte_vec u16c u32c u64c"
    and "\<forall>names \<in> {[''Map1''], [''Map2''], [''Db0'', ''Db1''], [''MyMap'']}. cfg_ok cfg (decl_desc names)"
  shows "empty_ro B cfg (types_of byte_vec byte_vec) = Ok () \<and>
    empty_rw B cfg (types_of byte_vec byte_vec) = Ok () \<and>
    prefix_iteration_test B cfg (types_of (pair_codec byte_vec u16c) u64c) byte_vec = Ok () \<and>
    indices \<and>
    basic_dump B cfg (types_of u32c u32c) (types_of u16c byte_vec) = Ok () \<and>
    doc_example B cfg (types_of byte_vec u64c) = Ok ()"
proof -
  have "storage_tests B cfg_ok key_ok idle ro_open rw_open byte_vec u16c u32c u64c"
    using assms(1,2) by (rule storage_tests.intro)
  note tests = storage_tests.empty_tests [OF this] storage_tests.prefix_iteration_passes [OF this]
    storage_tests.basic_dump_passes [OF this] storage_tests.doc_example_passes [OF this]
  have "cfg_ok cfg (decl_desc [''Map1''])" "cfg_ok cfg (decl_desc [''Map2''])"
    "cfg_ok cfg (decl_desc [''Db0'', ''Db1''])" "cfg_ok cfg (decl_desc [''MyMap''])"
    using assms(3) by (simp_all only: ball_simps simp_thms)
  with tests indices_hold show ?thesis by (intro conjI) (simp_all only:)
qed

interpretation im_tests: storage_tests "in_memory_backend join_ref" "\<lambda>_ _. True" "\<lambda>_. True"
  "lk_idle maps_view maps_valid" "lk_ro maps_view maps_valid" "lk_rw maps_view maps_valid"
  bytes_codec "le_codec 2" "le_codec 4" "le_codec 8"
  by (intro storage_tests.intro im.backend_contract_axioms tests.scale_encodings_axioms)

lemma decl_desc_names [simp]: "map desc_name (maps_vec (map_descs (decl_desc names))) = names"
  by (induction names) (simp_all add: decl_desc_def decl_map_def)

lemma decl_desc_count [simp]: "count_as_usize (desc_map_count (decl_desc names)) = length names"
  by (simp add: decl_desc_def desc_map_count_def maps_map_count_def length_desc_iter_decl)

text \<open>On LMDB the dump, on SQLite the iteration, both where the names are acceptable to the backend.\<close>

theorem storage_tests_pass_witness:
  "prefix_iteration_test (sqlite_backend ref_sqlite) sqlite_new_in_memory
      (types_of (pair_codec bytes_codec (le_codec 2)) (le_codec 8)) bytes_codec = Ok () \<and>
   basic_dump (lmdb_backend ref_engine) (lmdb_new ref_engine ''db'' ims_default () (MapResizeCallback None))
      (types_of (le_codec 4) (le_codec 4)) (types_of (le_codec 2) bytes_codec) = Ok () \<and>
   doc_example (in_memory_backend join_ref) in_memory_new (types_of bytes_codec (le_codec 8)) = Ok ()"
proof (intro conjI)
  have fold: "map (\<lambda>desc. sql_fold (desc_name desc)) (maps_vec (map_descs (decl_desc names))) = map sql_fold names"
    for names
  proof -
    have "map (sql_fold \<circ> desc_name) (maps_vec (map_descs (decl_desc names))) = map sql_fold names"
      by (simp only: map_map [symmetric] decl_desc_names)
    then show ?thesis by (simp only: comp_def)
  qed
  show "prefix_iteration_test (sqlite_backend ref_sqlite) sqlite_new_in_memory
      (types_of (pair_codec bytes_codec (le_codec 2)) (le_codec 8)) bytes_codec = Ok ()"
    by (intro conjunct1 [OF conjunct2 [OF conjunct2 [OF storage_tests_pass [OF sqlite_ref.sqlite_contract
        tests.scale_encodings_axioms]]]])
      (simp add: fold sqlite_new_in_memory_def existing_file_def, simp add: sql_fold_def fold_char_def)
  show "basic_dump (lmdb_backend ref_engine) (lmdb_new ref_engine ''db'' ims_default () (MapResizeCallback None))
      (types_of (le_codec 4) (le_codec 4)) (types_of (le_codec 2) bytes_codec) = Ok ()"
    by (intro conjunct1 [OF conjunct2 [OF conjunct2 [OF conjunct2 [OF conjunct2 [OF storage_tests_pass
        [OF lmdb_refines_contract_ref tests.scale_encodings_axioms]]]]]]) simp
  show "doc_example (in_memory_backend join_ref) in_memory_new (types_of bytes_codec (le_codec 8)) = Ok ()"
    by (intro conjunct2 [OF conjunct2 [OF conjunct2 [OF conjunct2 [OF conjunct2 [OF storage_tests_pass
        [OF im.backend_contract_axioms tests.scale_encodings_axioms]]]]]]) simp
qed

end
