(* ===== verification/Lmdb_Resize.thy ===== *)
theory Lmdb_Resize
  imports Lmdb
begin

text \<open>
  Resizing of the LMDB map: what a full map does to a transaction, and threads that race for a
  scheduled resize. The threads run the methods of \<open>LmdbImpl\<close> in \<open>storage/lmdb/src/lib.rs\<close>, split at
  their accesses to the shared flag and to the environment.
\<close>

section \<open>One thread\<close>

lemma put_full_schedules:
  assumes "maps_index (lm_dbs s) map_id = (Ok db :: 'db res)"
    and "txn_put L tx (lm_env s) db k v = (Err MapFull, tx', env')"
  shows "db_tx_put L tx s map_id k v =
    (Err (Fatal (InternalError (lmdb_to_string (errors L) MapFull))), tx',
     s\<lparr>lm_env := env', map_resize_scheduled := True\<rparr>)"
  using assms
  by (simp add: db_tx_put_def write_result_def schedule_map_resize_if_map_full_def
      schedule_map_resize_def process_with_unit_def)

lemma del_full_schedules:
  assumes "maps_index (lm_dbs s) map_id = (Ok db :: 'db res)"
    and "txn_del L tx (lm_env s) db k = (Err MapFull, tx', env')"
  shows "db_tx_del L tx s map_id k =
    (Err (Fatal (InternalError (lmdb_to_string (errors L) MapFull))), tx',
     s\<lparr>lm_env := env', map_resize_scheduled := True\<rparr>)"
  using assms
  by (simp add: db_tx_del_def write_result_def schedule_map_resize_if_map_full_def
      schedule_map_resize_def process_with_unit_def)

lemma scheduled_resize_first:
  assumes "map_resize_scheduled s" and "env_do_resize L (lm_env s) None = (Ok (), env')"
  shows "lmdb_transaction_rw L s sz =
    start_transaction (errors L) (\<lambda>env. begin_rw_txn L env sz)
      (s\<lparr>map_resize_scheduled := False, lm_env := env'\<rparr>)"
  using assms
  by (simp add: lmdb_transaction_rw_def resize_if_resize_scheduled_def compare_exchange_def)

lemma unscheduled_no_resize:
  assumes "\<not> map_resize_scheduled s"
  shows "lmdb_transaction_rw L s sz = start_transaction (errors L) (\<lambda>env. begin_rw_txn L env sz) s"
  using assms
  by (cases s) (simp add: lmdb_transaction_rw_def resize_if_resize_scheduled_def compare_exchange_def)

lemma commit_full_resizes:
  assumes "txn_commit L tx (lm_env s) = (Err MapFull, env')" and "env_do_resize L env' None = (r, env'')"
  shows "db_tx_commit L tx s =
    (case r of
       Ok _ \<Rightarrow> (Err (Fatal (InternalError (lmdb_to_string (errors L) MapFull))),
               s\<lparr>lm_env := env'', map_resize_scheduled := False\<rparr>)
     | Err _ \<Rightarrow> (Panic ''Failed to resize after a write/commit failed with MDB_MAP_FULL'', s\<lparr>lm_env := env''\<rparr>)
     | Panic m \<Rightarrow> (Panic m, s\<lparr>lm_env := env''\<rparr>)
     | Blocked \<Rightarrow> (Blocked, s\<lparr>lm_env := env''\<rparr>))"
  using assms
  by (simp add: db_tx_commit_def resize_if_map_full_def unschedule_map_resize_def process_with_unit_def
      split: outcome.split)

section \<open>Threads\<close>

text \<open>
  The shared flag and where each thread is. \<open>WonResize\<close>: its exchange in
  \<open>resize_if_resize_scheduled\<close> succeeded and the resize is next; \<open>FullCommit\<close>: a commit failed with a
  full map and the resize of \<open>resize_if_map_full\<close> is next; \<open>Unscheduling\<close>: that resize is done and the
  flag is reset next. The counters record history: stores of the flag, resizes after an exchange,
  resizes after a commit.
\<close>

datatype resize_pc = Outside | WonResize | FullCommit | Unscheduling

record resize_state =
  rs_flag :: bool
  rs_pcs :: "resize_pc list"
  rs_scheduled :: nat
  rs_exchange_resizes :: nat
  rs_commit_resizes :: nat

definition resize_init :: "nat \<Rightarrow> resize_state" where
  "resize_init n =
     \<lparr>rs_flag = False, rs_pcs = replicate n Outside, rs_scheduled = 0,
      rs_exchange_resizes = 0, rs_commit_resizes = 0\<rparr>"

definition after_exchange :: "nat \<Rightarrow> resize_state \<Rightarrow> resize_state" where
  "after_exchange t s =
     (case compare_exchange (rs_flag s) True False of
        (r, f) \<Rightarrow>
          s\<lparr>rs_flag := f,
            rs_pcs := (if unwrap_or r False then (rs_pcs s)[t := WonResize] else rs_pcs s)\<rparr>)"

inductive resize_step :: "resize_state \<Rightarrow> resize_state \<Rightarrow> bool" where
  write_full: "t < length (rs_pcs s) \<Longrightarrow> rs_pcs s ! t = Outside \<Longrightarrow>
    resize_step s (s\<lparr>rs_flag := True, rs_scheduled := Suc (rs_scheduled s)\<rparr>)"
| exchange: "t < length (rs_pcs s) \<Longrightarrow> rs_pcs s ! t = Outside \<Longrightarrow>
    resize_step s (after_exchange t s)"
| exchange_resize: "t < length (rs_pcs s) \<Longrightarrow> rs_pcs s ! t = WonResize \<Longrightarrow>
    resize_step s (s\<lparr>rs_pcs := (rs_pcs s)[t := Outside],
      rs_exchange_resizes := Suc (rs_exchange_resizes s)\<rparr>)"
| commit_full: "t < length (rs_pcs s) \<Longrightarrow> rs_pcs s ! t = Outside \<Longrightarrow>
    resize_step s (s\<lparr>rs_pcs := (rs_pcs s)[t := FullCommit]\<rparr>)"
| commit_resize: "t < length (rs_pcs s) \<Longrightarrow> rs_pcs s ! t = FullCommit \<Longrightarrow>
    resize_step s (s\<lparr>rs_pcs := (rs_pcs s)[t := Unscheduling],
      rs_commit_resizes := Suc (rs_commit_resizes s)\<rparr>)"
| unschedule: "t < length (rs_pcs s) \<Longrightarrow> rs_pcs s ! t = Unscheduling \<Longrightarrow>
    resize_step s (s\<lparr>rs_flag := False, rs_pcs := (rs_pcs s)[t := Outside]\<rparr>)"

inductive_cases resize_step_cases: "resize_step s s'"

inductive resize_reachable :: "nat \<Rightarrow> resize_state \<Rightarrow> bool" where
  initial: "resize_reachable n (resize_init n)"
| continue: "resize_reachable n s \<Longrightarrow> resize_step s s' \<Longrightarrow> resize_reachable n s'"

definition pc_count :: "resize_pc \<Rightarrow> resize_state \<Rightarrow> nat" where
  "pc_count p s = length (filter (\<lambda>q. q = p) (rs_pcs s))"

lemma filter_update_count:
  "t < length xs \<Longrightarrow>
     length (filter (\<lambda>q. q = p) (xs[t := x])) + of_bool (xs ! t = p) =
     length (filter (\<lambda>q. q = p) xs) + of_bool (x = p)"
proof (induction xs arbitrary: t)
  case (Cons y ys)
  then show ?case by (cases t) auto
qed simp

text \<open>
  Every store of the flag is spent on at most one exchange: as many resizes were done or are owed by
  a thread, plus the one the flag still asks for, as there were stores.
\<close>

definition resize_inv :: "resize_state \<Rightarrow> bool" where
  "resize_inv s \<longleftrightarrow> rs_exchange_resizes s + pc_count WonResize s + of_bool (rs_flag s) \<le> rs_scheduled s"

lemma resize_inv_init: "resize_inv (resize_init n)"
  by (simp add: resize_inv_def resize_init_def pc_count_def)

lemma resize_inv_step:
  assumes "resize_step s s'" and "resize_inv s"
  shows "resize_inv s'"
  using assms
proof (cases rule: resize_step.cases)
  case (write_full t)
  with assms(2) show ?thesis by (auto simp: resize_inv_def pc_count_def)
next
  case (exchange t)
  with assms(2) filter_update_count [of t "rs_pcs s" WonResize WonResize] show ?thesis
    by (auto simp: resize_inv_def pc_count_def after_exchange_def compare_exchange_def)
next
  case (exchange_resize t)
  with assms(2) filter_update_count [of t "rs_pcs s" WonResize Outside] show ?thesis
    by (auto simp: resize_inv_def pc_count_def)
next
  case (commit_full t)
  with assms(2) filter_update_count [of t "rs_pcs s" WonResize FullCommit] show ?thesis
    by (auto simp: resize_inv_def pc_count_def)
next
  case (commit_resize t)
  with assms(2) filter_update_count [of t "rs_pcs s" WonResize Unscheduling] show ?thesis
    by (auto simp: resize_inv_def pc_count_def)
next
  case (unschedule t)
  with assms(2) filter_update_count [of t "rs_pcs s" WonResize Outside] show ?thesis
    by (auto simp: resize_inv_def pc_count_def)
qed

lemma resize_inv_reachable: "resize_reachable n s \<Longrightarrow> resize_inv s"
  by (induction rule: resize_reachable.induct) (auto intro: resize_inv_init resize_inv_step)

end
