(* ===== verification/Lmdb_Properties.thy ===== *)
theory Lmdb_Properties
  imports Lmdb_Resize Lmdb_Contract
begin

text \<open>
  Properties of the LMDB backend beyond the backend contract: what a full memory map does to a
  transaction and to the next one, threads racing for a resize, the classification of errors, and
  the arithmetic of memory sizes.
\<close>

section \<open>Full memory maps\<close>

text \<open>
  C24. When the map is full for a put or for a deletion, the write fails with a fatal error and schedules
  a resize; once its transaction is dropped, the next read-write transaction resizes the map before it
  begins, and the one after begins without a resize when nothing scheduled another.
\<close>

theorem full_map_resized_before_next_writer:
  assumes "maps_index (lm_dbs s) map_id = (Ok db :: 'db res)"
    and "txn_put L tx (lm_env s) db k v = (Err MapFull, tx', env1) \<and> written = db_tx_put L tx s map_id k v \<or>
      txn_del L tx (lm_env s) db k = (Err MapFull, tx', env1) \<and> written = db_tx_del L tx s map_id k"
    and "env_do_resize L (tx_drop (rw_tx L) tx' env1) None = (Ok (), env2)"
  shows "\<exists>s1. written = (Err (Fatal (InternalError (lmdb_to_string (errors L) MapFull))), tx', s1) \<and>
    map_resize_scheduled s1 \<and>
    lmdb_transaction_rw L (db_tx_drop (rw_tx L) tx' s1) sz =
      start_transaction (errors L) (\<lambda>env. begin_rw_txn L env sz)
        \<lparr>lm_env = env2, lm_dbs = lm_dbs s, map_resize_scheduled = False\<rparr> \<and>
    lmdb_transaction_rw L (snd (lmdb_transaction_rw L (db_tx_drop (rw_tx L) tx' s1) sz)) sz' =
      start_transaction (errors L) (\<lambda>env. begin_rw_txn L env sz')
        \<lparr>lm_env = snd (begin_rw_txn L env2 sz), lm_dbs = lm_dbs s, map_resize_scheduled = False\<rparr>"
proof -
  let ?s1 = "s\<lparr>lm_env := env1, map_resize_scheduled := True\<rparr>"
  let ?s2 = "\<lparr>lm_env = env2, lm_dbs = lm_dbs s, map_resize_scheduled = False\<rparr>"
  have "s\<lparr>map_resize_scheduled := False, lm_env := env2\<rparr> = ?s2" by (cases s) simp
  with scheduled_resize_first [of "db_tx_drop (rw_tx L) tx' ?s1" L env2 sz] assms(3)
  have 2: "lmdb_transaction_rw L (db_tx_drop (rw_tx L) tx' ?s1) sz =
      start_transaction (errors L) (\<lambda>env. begin_rw_txn L env sz) ?s2"
    by (simp add: db_tx_drop_def)
  have "snd (start_transaction (errors L) (\<lambda>env. begin_rw_txn L env sz) ?s2) =
      \<lparr>lm_env = snd (begin_rw_txn L env2 sz), lm_dbs = lm_dbs s, map_resize_scheduled = False\<rparr>"
    by (simp add: start_transaction_def split: prod.split)
  moreover have "written = (Err (Fatal (InternalError (lmdb_to_string (errors L) MapFull))), tx', ?s1)"
    using assms(2) by (elim disjE conjE) (simp_all add: put_full_schedules [OF assms(1)] del_full_schedules [OF assms(1)])
  ultimately show ?thesis using 2 by (simp add: unscheduled_no_resize)
qed

text \<open>An engine whose map is full until it is resized; its environment counts the resizes.\<close>

definition full_engine :: "(nat, nat, unit, unit, unit, unit, unit, bool) lmdb_api" where
  "full_engine =
     \<lparr>env_open = (\<lambda>_ _. Ok 0),
      env_create_db = (\<lambda>env _. (Ok 0, env)),
      env_do_resize = (\<lambda>env _. (Ok (), Suc env)),
      begin_ro_txn = (\<lambda>env. (Ok (), env)),
      begin_rw_txn = (\<lambda>env _. (Ok (), env)),
      ro_tx = \<lparr>tx_get = (\<lambda>_ _ _ _. Err NotFound), tx_open_ro_cursor = (\<lambda>_ _ _. Ok ()), tx_drop = (\<lambda>_ env. env)\<rparr>,
      rw_tx = \<lparr>tx_get = (\<lambda>_ _ _ _. Err NotFound), tx_open_ro_cursor = (\<lambda>_ _ _. Ok ()), tx_drop = (\<lambda>_ env. env)\<rparr>,
      into_iter_start = (\<lambda>_. []),
      into_iter_from = (\<lambda>_ _. []),
      txn_put = (\<lambda>w env _ _ _. (if env = 0 then Err MapFull else Ok (), w, env)),
      txn_del = (\<lambda>w env _ _. (if env = 0 then Err MapFull else Err NotFound, w, env)),
      txn_commit = (\<lambda>_ env. (if env = 0 then Err MapFull else Ok (), env)),
      default_flags = False,
      flag_write_map = (\<lambda>_. True),
      create_dir_all = (\<lambda>_. Ok ()),
      errors = ref_error_env\<rparr>"

theorem full_map_resized_before_next_writer_witness:
  "\<exists>s1 s2. db_tx_put full_engine () \<lparr>lm_env = 0, lm_dbs = DbMapsData [0], map_resize_scheduled = False\<rparr>
      (DbMapId 0) [1] [2] = (Err (Fatal (InternalError ''MDB'')), (), s1) \<and>
    lmdb_transaction_rw full_engine (db_tx_drop (rw_tx full_engine) () s1) None =
      (Ok (), \<lparr>lm_env = 1, lm_dbs = DbMapsData [0], map_resize_scheduled = False\<rparr>) \<and>
    db_tx_del full_engine () \<lparr>lm_env = 0, lm_dbs = DbMapsData [0], map_resize_scheduled = False\<rparr>
      (DbMapId 0) [1] = (Err (Fatal (InternalError ''MDB'')), (), s2) \<and>
    lmdb_transaction_rw full_engine (db_tx_drop (rw_tx full_engine) () s2) None =
      (Ok (), \<lparr>lm_env = 1, lm_dbs = DbMapsData [0], map_resize_scheduled = False\<rparr>)"
proof -
  let ?s = "\<lparr>lm_env = 0, lm_dbs = DbMapsData [0 :: nat], map_resize_scheduled = False\<rparr>"
  note full = full_map_resized_before_next_writer [of ?s "DbMapId 0" 0 full_engine "()" "[1]" _ "()" 0 _ 1 None None]
  obtain s1 where "db_tx_put full_engine () ?s (DbMapId 0) [1] [2] = (Err (Fatal (InternalError ''MDB'')), (), s1)"
    "lmdb_transaction_rw full_engine (db_tx_drop (rw_tx full_engine) () s1) None =
      (Ok (), \<lparr>lm_env = 1, lm_dbs = DbMapsData [0], map_resize_scheduled = False\<rparr>)"
    using full [of "[2]" "db_tx_put full_engine () ?s (DbMapId 0) [1] [2]"]
    by (auto simp: full_engine_def ref_error_env_def start_transaction_def)
  moreover obtain s2 where "db_tx_del full_engine () ?s (DbMapId 0) [1] = (Err (Fatal (InternalError ''MDB'')), (), s2)"
    "lmdb_transaction_rw full_engine (db_tx_drop (rw_tx full_engine) () s2) None =
      (Ok (), \<lparr>lm_env = 1, lm_dbs = DbMapsData [0], map_resize_scheduled = False\<rparr>)"
    using full [of "[]" "db_tx_del full_engine () ?s (DbMapId 0) [1]"]
    by (auto simp: full_engine_def ref_error_env_def start_transaction_def)
  ultimately show ?thesis by blast
qed

text \<open>
  C25. A commit that fails because the map is full fails with a fatal error, having resized the map and
  withdrawn any scheduled resize; it panics when the resize fails.
\<close>

theorem full_commit_resizes_at_once:
  assumes "txn_commit L tx (lm_env s) = (Err MapFull, env1)"
  shows "(env_do_resize L env1 None = (Ok (), env2) \<longrightarrow>
      db_tx_commit L tx s =
        (Err (Fatal (InternalError (lmdb_to_string (errors L) MapFull))),
         \<lparr>lm_env = env2, lm_dbs = lm_dbs s, map_resize_scheduled = False\<rparr>)) \<and>
    (env_do_resize L env1 None = (Err e, env2) \<longrightarrow>
      db_tx_commit L tx s =
        (Panic ''Failed to resize after a write/commit failed with MDB_MAP_FULL'', s\<lparr>lm_env := env2\<rparr>))"
  using commit_full_resizes [OF assms, of "Ok ()" env2] commit_full_resizes [OF assms, of "Err e" env2]
  by (cases s) simp

theorem full_commit_resizes_at_once_witness:
  "db_tx_commit full_engine () \<lparr>lm_env = 0, lm_dbs = DbMapsData [0], map_resize_scheduled = True\<rparr> =
    (Err (Fatal (InternalError ''MDB'')),
     \<lparr>lm_env = 1, lm_dbs = DbMapsData [0], map_resize_scheduled = False\<rparr>)"
  using full_commit_resizes_at_once
    [of full_engine "()" "\<lparr>lm_env = 0, lm_dbs = DbMapsData [0 :: nat], map_resize_scheduled = True\<rparr>" 0 1]
  by (simp add: full_engine_def ref_error_env_def)

text \<open>
  C23. Threads that race to begin a transaction while a resize is scheduled resize the map once per
  request at most: in every reachable state of the threads the resizes done, plus the one a thread
  that won the exchange still owes, plus the pending request, are no more than the requests made; so
  between two requests at most one thread resizes.
\<close>

theorem resize_once_per_request:
  assumes "resize_reachable n s"
  shows "rs_exchange_resizes s + pc_count WonResize s + of_bool (rs_flag s) \<le> rs_scheduled s"
  using resize_inv_reachable [OF assms] by (simp add: resize_inv_def)

theorem resize_once_per_request_witness:
  "resize_reachable 2 \<lparr>rs_flag = False, rs_pcs = [WonResize, Outside], rs_scheduled = 1,
      rs_exchange_resizes = 0, rs_commit_resizes = 0\<rparr> \<and>
   rs_exchange_resizes \<lparr>rs_flag = False, rs_pcs = [WonResize, Outside], rs_scheduled = 1,
      rs_exchange_resizes = 0, rs_commit_resizes = 0\<rparr> +
   pc_count WonResize \<lparr>rs_flag = False, rs_pcs = [WonResize, Outside], rs_scheduled = 1,
      rs_exchange_resizes = 0, rs_commit_resizes = 0\<rparr> \<le> 1"
proof -
  let ?s1 = "\<lparr>rs_flag = True, rs_pcs = [Outside, Outside], rs_scheduled = 1, rs_exchange_resizes = 0,
    rs_commit_resizes = 0\<rparr>"
  let ?s2 = "\<lparr>rs_flag = False, rs_pcs = [WonResize, Outside], rs_scheduled = 1, rs_exchange_resizes = 0,
    rs_commit_resizes = 0\<rparr>"
  have "resize_step (resize_init 2) ?s1"
    using resize_step.write_full [of 1 "resize_init 2"] by (simp add: resize_init_def numeral_2_eq_2)
  moreover have "resize_step ?s1 ?s2"
    using resize_step.exchange [of 0 ?s1] by (simp add: after_exchange_def compare_exchange_def)
  ultimately have "resize_reachable 2 ?s2"
    using resize_reachable.initial resize_reachable.continue by blast
  with resize_once_per_request [OF this] show ?thesis by simp
qed

section \<open>Errors\<close>

text \<open>
  C29. The conversion of an LMDB error never panics; only a missing or an existing key count as
  success; the errors reported as recoverable are the initialization errors, a transaction that could
  not commit, exhausted readers, transactions or thread slots, and the I/O errors classified so. A
  full map is reported as fatal.
\<close>

theorem lmdb_error_classification:
  "(case process_with_none E err :: data option res of
      Ok r \<Rightarrow> r = None \<and> err \<in> {NotFound, KeyExist}
    | Err e \<Rightarrow> err \<notin> {NotFound, KeyExist} \<and>
        is_recoverable e =
          (err \<in> {Invalid, VersionMismatch, BadTxn, ReadersFull, TxnFull, TlsFull} \<or>
           (\<exists>n. err = LmdbOther n \<and> io_kind_recoverable (io_kind (from_raw_os_error E n))))
    | Panic m \<Rightarrow> False
    | Blocked \<Rightarrow> False)"
  by (cases err) (auto simp: process_with_none_def process_io_error_def Let_def)

section \<open>Memory sizes\<close>

text \<open>
  C36. A size given in megabytes is that number of bytes, or the program panics: exactly from \<open>2^44\<close>
  megabytes on. Sizes print as their number of bytes.
\<close>

theorem megabytes_exact:
  "if unat mb < 2 ^ 44
   then \<exists>s. ms_from_megabytes mb = (Ok s :: mem_size res) \<and> unat (ms_as_bytes s) = 2 ^ 20 * unat mb \<and>
     ms_display s = dec_digits (2 ^ 20 * unat mb) @ ''B''
   else \<exists>m. ms_from_megabytes mb = (Panic m :: mem_size res)"
proof -
  have mul: "u64_mul 1024 b = (if unat b < 2 ^ 54 then Ok (1024 * b) else
      Panic ''attempt to multiply with overflow'' :: (64 word, storage_error) outcome)"
    and exact: "unat b < 2 ^ 54 \<Longrightarrow> unat (1024 * b) = 1024 * unat b" for b :: "64 word"
    by (simp_all add: u64_mul_def unat_mult_lem [THEN iffD1])
  have exact20: "unat mb < 2 ^ 44 \<Longrightarrow> unat (2 ^ 20 * mb) = 2 ^ 20 * unat mb"
    by (simp add: unat_mult_lem [THEN iffD1])
  show ?thesis
    using exact20
    by (auto simp: ms_from_megabytes_def ms_from_kilobytes_def ms_from_bytes_def mul exact ms_display_def)
qed

end
