(* ===== verification/Sqlite_Properties.thy ===== *)
theory Sqlite_Properties
  imports Sqlite_Contract
begin

text \<open>
  Properties of the SQLite backend beyond the backend contract: statements that fail at either end of a
  transaction, opening a database that exists already, and map names that SQLite does not tell apart.
\<close>

section \<open>Statements that fail\<close>

text \<open>
  When \<open>BEGIN\<close> fails no transaction is returned, the error is fatal, and the mutex is released
  with the connection as the statement left it, so the next transaction can be tried.
\<close>

lemma failed_begin_releases_mutex:
  assumes "\<not> sq_locked s" and "\<not> sq_poisoned s"
    and "sq_execute Q (sq_conn s) ''BEGIN TRANSACTION'' = (Err e, conn)" and "sq_is_autocommit Q conn"
  shows "sqlite_start_transaction Q s = (Err (process_sqlite_error Q e), s\<lparr>sq_conn := conn\<rparr>) \<and>
    \<not> is_recoverable (process_sqlite_error Q e)"
proof -
  have "\<not> is_recoverable (process_sqlite_error Q e)" by (cases e) simp_all
  with assms show ?thesis
    by (cases s) (simp add: sqlite_start_transaction_def sql_err_def sqlite_tx_drop_def db_tx_rollback_def
        unlock_connection_def)
qed

text \<open>
  C28. A commit whose \<open>COMMIT\<close> statement fails returns a fatal error and leaves no transaction behind:
  when SQLite still has it open it is rolled back, and in either case the mutex is released.
\<close>

theorem failed_commit_rolls_back:
  assumes "sq_execute Q (sq_conn s) ''COMMIT TRANSACTION'' = (Err e, conn)"
  shows "sqlite_tx_commit Q tx s =
      (Err (process_sqlite_error Q e),
       s\<lparr>sq_conn := (if sq_is_autocommit Q conn then conn
           else snd (sq_execute Q conn ''ROLLBACK TRANSACTION'')), sq_locked := False\<rparr>) \<and>
    \<not> is_recoverable (process_sqlite_error Q e)"
proof -
  have "\<not> is_recoverable (process_sqlite_error Q e)" by (cases e) simp_all
  with assms show ?thesis
    by (cases s) (simp add: sqlite_tx_commit_def commit_transaction_def sql_err_def sqlite_tx_drop_def
        db_tx_rollback_def unlock_connection_def)
qed

text \<open>A connection that refuses to commit.\<close>

definition busy_sqlite :: "(ref_conn, string, sql_value list) sqlite_api" where
  "busy_sqlite = ref_sqlite\<lparr>sq_execute := (\<lambda>conn sql.
     if sql = ''COMMIT TRANSACTION'' then (Err (SqliteFailure 5 None), conn) else ref_execute conn sql)\<rparr>"

theorem failed_commit_rolls_back_witness:
  "sqlite_tx_commit busy_sqlite DbTx
     \<lparr>sq_conn = \<lparr>rc_tables = [(''t'', [([1], [2])])], rc_saved = Some [(''t'', [])]\<rparr>, sq_locked = True,
      sq_poisoned = False, sq_queries = DbMapsData []\<rparr> =
   (Err (Fatal (InternalError ''code'')),
    \<lparr>sq_conn = \<lparr>rc_tables = [(''t'', [])], rc_saved = None\<rparr>, sq_locked = False, sq_poisoned = False,
      sq_queries = DbMapsData []\<rparr>)"
proof -
  let ?conn = "\<lparr>rc_tables = [(''t'', [([1], [2])])], rc_saved = Some [(''t'', [])]\<rparr>"
  let ?s = "\<lparr>sq_conn = ?conn, sq_locked = True, sq_poisoned = False, sq_queries = DbMapsData []\<rparr>"
  have "sq_execute busy_sqlite (sq_conn ?s) ''COMMIT TRANSACTION'' = (Err (SqliteFailure 5 None), ?conn)"
    by (simp add: busy_sqlite_def)
  from failed_commit_rolls_back [OF this, of DbTx] show ?thesis
    by (simp add: busy_sqlite_def ref_sqlite_def ref_execute_def)
qed

section \<open>Panics\<close>

text \<open>
  C22. A panic inside a SQLite transaction rolls it back: what was committed before is what the connection
  holds. But the mutex stays poisoned: every later transaction fails with the same fatal error, and
  changes nothing.
\<close>

theorem panic_rolls_back:
  assumes "sqlite_engine Q q_idle q_tx fresh_mode ident_ok" and "sq_rw q_tx tx s b c"
  shows "\<exists>s'. sqlite_tx_unwind Q tx s = s'\<lparr>sq_poisoned := True\<rparr> \<and> sq_idle q_idle s' b \<and>
    transaction_ro (sqlite_impl_ops Q) (s'\<lparr>sq_poisoned := True\<rparr>) =
      (Err (Fatal (InternalError (sq_poison_message Q))), s'\<lparr>sq_poisoned := True\<rparr>) \<and>
    transaction_rw (sqlite_impl_ops Q) (s'\<lparr>sq_poisoned := True\<rparr>) sz =
      (Err (Fatal (InternalError (sq_poison_message Q))), s'\<lparr>sq_poisoned := True\<rparr>)"
proof -
  let ?s = "sqlite_tx_drop Q tx s"
  have idle: "sq_idle q_idle ?s b" using sqlite_engine.sqlite_drop_ok [OF assms] .
  then have "\<not> sq_locked ?s" by (simp add: sq_idle_def)
  with idle show ?thesis
    by (intro exI [of _ ?s])
      (simp add: sqlite_tx_unwind_def sqlite_tx_drop_def unlock_connection_def sqlite_impl_ops_def
        sqlite_start_transaction_def)
qed

theorem panic_rolls_back_witness:
  "\<exists>s'. sqlite_tx_unwind ref_sqlite DbTx
      \<lparr>sq_conn = \<lparr>rc_tables = [(''t'', [([1], [2])])], rc_saved = Some [(''t'', [])]\<rparr>, sq_locked = True,
       sq_poisoned = False, sq_queries = DbMapsData [sqlite_query_from_desc (db_map_desc_new ''t'')]\<rparr> =
     s'\<lparr>sq_poisoned := True\<rparr> \<and> sq_idle ref_conn_idle s' [[]]"
proof -
  let ?s = "\<lparr>sq_conn = \<lparr>rc_tables = [(''t'', [([1 :: byte], [2 :: byte])])], rc_saved = Some [(''t'', [])]\<rparr>, sq_locked = True,
       sq_poisoned = False, sq_queries = DbMapsData [sqlite_query_from_desc (db_map_desc_new ''t'')]\<rparr>"
  let ?saved = "[(''t'', [])] :: (string \<times> (data, data) btree) list" and ?new = "[(''t'', [([1], [2])])]"
  have "ref_conn_tx (sq_conn ?s) [''t''] (named_get ?saved) (named_get ?new)"
    by (simp add: ref_conn_tx_def named_ok_def bt_inv_def)
  moreover have "sq_holds [''t''] (named_get ?saved) ?s [[]]" "sq_holds [''t''] (named_get ?new) ?s [[([1], [2])]]"
    unfolding sq_holds_def
    by (intro conjI exI [of _ "[db_map_desc_new ''t'']"];
        simp add: db_map_desc_new_def new_with_details_def named_get_def)+
  moreover have "\<forall>n. bt_inv (named_get ?saved n)" by (simp add: named_get_def bt_inv_def bt_empty_def)
  ultimately have "sq_rw ref_conn_tx DbTx ?s [[]] [[([1], [2])]]"
    unfolding sq_rw_def by (intro conjI exI) simp_all
  from panic_rolls_back [OF sqlite_ref.sqlite_engine_axioms this] show ?thesis by blast
qed

section \<open>Opening\<close>

context sqlite_engine
begin

lemma create_missing_present:
  assumes "q_idle conn ts m" and "set (map desc_name ds) \<subseteq> set ts"
    and "\<forall>conn ts m n. q_idle conn ts m \<longrightarrow>
      (if n \<in> set ts then \<exists>row. sq_query_row Q conn stmt [Text n] = Ok row \<and> sq_row_text Q row 0 = Ok n
       else sq_query_row Q conn stmt [Text n] = Err QueryReturnedNoRows)"
  shows "create_missing_tables Q stmt ds conn = Ok conn"
  using assms(2)
proof (induction ds)
  case (Cons d ds)
  then have "desc_name d \<in> set ts" by simp
  with assms(1,3) obtain row where
    "sq_query_row Q conn stmt [Text (desc_name d)] = Ok row" "sq_row_text Q row 0 = Ok (desc_name d)"
    by meson
  with Cons show ?case by simp
qed simp

lemma reopen_spec:
  assumes "sq_open Q open_db_flags (sqlite_mode cfg) = Ok conn" and "q_idle conn ts m"
    and "create_parent_dir Q (sqlite_mode cfg) = Ok ()"
    and "set (map desc_name (maps_vec (map_descs d))) \<subseteq> set ts"
    and "distinct (map desc_name (maps_vec (map_descs d)))"
  shows "\<exists>s. sqlite_open Q cfg d = Ok s \<and> sq_idle q_idle s (map (m \<circ> desc_name) (maps_vec (map_descs d)))"
proof -
  let ?ds = "maps_vec (map_descs d)"
  obtain c4 stmt where c4: "q_idle c4 ts m"
    and stmt: "\<forall>conn ts m n. q_idle conn ts m \<longrightarrow>
      (if n \<in> set ts then \<exists>row. sq_query_row Q conn stmt [Text n] = Ok row \<and> sq_row_text Q row 0 = Ok n
       else sq_query_row Q conn stmt [Text n] = Err QueryReturnedNoRows)"
    and open_db: "sqlite_open_db Q cfg d = o_bind (create_missing_tables Q stmt ?ds c4)
      (\<lambda>conn. Ok (sq_set_cache_capacity Q conn (max (count_as_usize (desc_map_count d) * 4) 16)))"
    using sqlite_open_db_steps [OF assms(1,2)] by blast
  let ?s = "\<lparr>sq_conn = sq_set_cache_capacity Q c4 (max (count_as_usize (desc_map_count d) * 4) 16),
    sq_locked = False, sq_poisoned = False, sq_queries = maps_transform (db_maps d) sqlite_query_from_desc\<rparr>"
  have "sqlite_open Q cfg d = Ok ?s"
    using open_db create_missing_present [OF c4 assms(4) stmt] assms(3)
    by (simp add: sqlite_open_def sql_err_def)
  moreover have "sq_holds ts m ?s (map (m \<circ> desc_name) ?ds)"
    using assms(4,5) by (auto simp: sq_holds_def maps_transform_def db_maps_def intro!: exI [of _ ?ds])
  ultimately show ?thesis using cache_ok [OF c4] by (auto simp: sq_idle_def)
qed

lemma create_missing_clash:
  assumes "q_idle conn ts m" and "distinct (ts @ map desc_name ds)" and "distinct (map sql_fold ts)"
    and "\<not> distinct (map sql_fold (ts @ map desc_name ds))" and "\<forall>d \<in> set ds. ident_ok (desc_name d)"
    and "\<forall>conn ts m n. q_idle conn ts m \<longrightarrow> n \<notin> set ts \<longrightarrow>
      sq_query_row Q conn stmt [Text n] = Err QueryReturnedNoRows"
    and clash: "\<And>conn ts m n. q_idle conn ts m \<Longrightarrow> sql_fold n \<in> sql_fold ` set ts \<Longrightarrow>
      \<exists>e conn'. sq_execute Q conn (create_table_query n) = (Err e, conn')"
  shows "\<exists>e. create_missing_tables Q stmt ds conn = Err e"
  using assms(1-5)
proof (induction ds arbitrary: conn ts)
  case (Cons d ds)
  let ?n = "desc_name d"
  have absent: "sq_query_row Q conn stmt [Text ?n] = Err QueryReturnedNoRows"
    using assms(6) [rule_format, OF Cons.prems(1)] Cons.prems(2) by simp
  show ?case
  proof (cases "sql_fold ?n \<in> sql_fold ` set ts")
    case True
    from clash [OF Cons.prems(1) this] absent show ?thesis by (auto simp: conn_step_def)
  next
    case False
    with create_ok [OF Cons.prems(1), of ?n] Cons.prems(5) obtain r conn1 where 1:
      "sq_execute Q conn (create_table_query ?n) = (Ok r, conn1)" "q_idle conn1 (ts @ [?n]) m"
      by (auto simp: create_table_query_def)
    have "\<exists>e. create_missing_tables Q stmt ds conn1 = Err e"
      using Cons.IH [OF 1(2)] Cons.prems False by (auto simp: image_iff)
    with 1(1) absent show ?thesis by (simp add: conn_step_def)
  qed
qed simp

end

text \<open>
  C32. Opening an existing SQLite database with a description whose maps all have a table creates
  nothing and loses nothing: the maps of the description have the contents of their tables.
\<close>

theorem reopen_finds_data:
  assumes "sqlite_engine Q q_idle q_tx fresh_mode ident_ok"
    and "sq_open Q open_db_flags (sqlite_mode cfg) = Ok conn" and "q_idle conn ts m"
    and "create_parent_dir Q (sqlite_mode cfg) = Ok ()"
    and "set (map desc_name (maps_vec (map_descs d))) \<subseteq> set ts"
    and "distinct (map desc_name (maps_vec (map_descs d)))"
  shows "\<exists>s. sqlite_open Q cfg d = Ok s \<and> sq_idle q_idle s (map (m \<circ> desc_name) (maps_vec (map_descs d)))"
  using assms by (rule sqlite_engine.reopen_spec)

theorem reopen_finds_data_witness:
  "\<exists>s. sqlite_open ref_sqlite (sqlite_new ''scores.db'')
      \<lparr>map_descs = DbMapsData [db_map_desc_new ''scores'']\<rparr> = Ok s \<and>
    sq_idle ref_conn_idle s [[([1], [2]), ([3], [4])]]"
proof -
  let ?cfg = "sqlite_new ''scores.db''" and ?conn = "\<lparr>rc_tables = existing_tables, rc_saved = None\<rparr>"
  have conn: "sq_open ref_sqlite open_db_flags (sqlite_mode ?cfg) = Ok ?conn"
    by (simp add: ref_sqlite_def sqlite_new_def existing_file_def)
  have idle: "ref_conn_idle ?conn [''scores''] (named_get existing_tables)"
    by (simp add: ref_conn_idle_def existing_tables_def named_ok_def bt_inv_def)
  have dir: "create_parent_dir ref_sqlite (sqlite_mode ?cfg) = Ok ()"
    by (simp add: create_parent_dir_def sqlite_new_def ref_sqlite_def)
  from reopen_finds_data [OF sqlite_ref.sqlite_engine_axioms, OF conn idle dir,
      of "\<lparr>map_descs = DbMapsData [db_map_desc_new ''scores'']\<rparr>"]
  show ?thesis by (simp add: db_map_desc_new_def new_with_details_def existing_tables_def named_get_def)
qed

text \<open>
  C33. Map names that differ only in the case of letters are distinct for the database description,
  but SQLite compares table names without regard to case: opening such a description fails.
\<close>

theorem case_clashing_names_fail_to_open:
  assumes "sqlite_engine Q q_idle q_tx fresh_mode ident_ok"
    and "\<And>conn ts m n. q_idle conn ts m \<Longrightarrow> sql_fold n \<in> sql_fold ` set ts \<Longrightarrow>
      \<exists>e conn'. sq_execute Q conn (create_table_query n) = (Err e, conn')"
    and "fresh_mode (sqlite_mode cfg)" and "\<forall>d \<in> set ds. ident_ok (desc_name d)"
    and "distinct (map desc_name ds)" and "\<not> distinct (map (sql_fold \<circ> desc_name) ds)"
  shows "construct_db_desc ds = (Ok \<lparr>map_descs = DbMapsData ds\<rparr> :: db_desc res) \<and>
    (\<exists>e. sqlite_open Q cfg \<lparr>map_descs = DbMapsData ds\<rparr> = Err e)"
proof -
  let ?d = "\<lparr>map_descs = DbMapsData ds\<rparr>"
  obtain c0 where c0: "sq_open Q open_db_flags (sqlite_mode cfg) = Ok c0" "q_idle c0 [] (\<lambda>_. bt_empty)"
    using sqlite_engine.open_ok [OF assms(1,3)] by blast
  obtain c4 stmt where c4: "q_idle c4 [] (\<lambda>_. bt_empty)"
    and stmt: "\<forall>conn ts m n. q_idle conn ts m \<longrightarrow>
      (if n \<in> set ts then \<exists>row. sq_query_row Q conn stmt [Text n] = Ok row \<and> sq_row_text Q row 0 = Ok n
       else sq_query_row Q conn stmt [Text n] = Err QueryReturnedNoRows)"
    and open_db: "sqlite_open_db Q cfg ?d = o_bind (create_missing_tables Q stmt ds c4)
      (\<lambda>conn. Ok (sq_set_cache_capacity Q conn (max (count_as_usize (desc_map_count ?d) * 4) 16)))"
    using sqlite_engine.sqlite_open_db_steps [OF assms(1) c0, of ?d] by auto
  obtain e where "create_missing_tables Q stmt ds c4 = Err e"
    using sqlite_engine.create_missing_clash [OF assms(1) c4, of ds stmt] assms(2,4-6) stmt by auto
  with open_db have "sqlite_open_db Q cfg ?d = Err e" by simp
  moreover have "create_parent_dir Q (sqlite_mode cfg) = Ok ()"
    using assms(1,3) by (rule sqlite_engine.parent_dir_ok)
  ultimately show ?thesis using assms(5) by (simp add: sqlite_open_def sql_err_def)
qed

text \<open>The reference connection refuses names that clash.\<close>

lemma ref_sqlite_clash:
  assumes "ref_conn_idle conn ts m" and "sql_fold n \<in> sql_fold ` set ts"
  shows "\<exists>e conn'. sq_execute ref_sqlite conn (create_table_query n) = (Err e, conn')"
proof -
  have "create_table_query n = create_prefix @ n @ create_suffix"
    by (simp add: create_table_query_def create_prefix_def create_suffix_def)
  moreover have "ref_execute conn (create_prefix @ n @ create_suffix) = (Err (OtherSqlError 2), conn)"
    using assms
    by (simp add: ref_execute_def created_table_eq image_image case_prod_beta' ref_conn_idle_def)
      (simp add: create_prefix_def)
  ultimately show ?thesis by (simp add: ref_sqlite_def)
qed

theorem case_clashing_names_fail_to_open_witness:
  "\<exists>e. sqlite_open ref_sqlite sqlite_new_in_memory
    \<lparr>map_descs = DbMapsData [db_map_desc_new ''scores'', db_map_desc_new ''Scores'']\<rparr> = Err e"
proof -
  let ?ds = "[db_map_desc_new ''scores'', db_map_desc_new ''Scores'']"
  have names: "map desc_name ?ds = [''scores'', ''Scores'']"
    by (simp add: db_map_desc_new_def new_with_details_def)
  have "sql_fold ''scores'' = sql_fold ''Scores''" by code_simp
  then have clash: "\<not> distinct (map (sql_fold \<circ> desc_name) ?ds)"
    by (simp add: db_map_desc_new_def new_with_details_def)
  have mode: "sqlite_mode sqlite_new_in_memory \<noteq> existing_file"
    by (simp add: sqlite_new_in_memory_def existing_file_def)
  have "distinct (map desc_name ?ds)" unfolding names by simp
  from case_clashing_names_fail_to_open
      [OF sqlite_ref.sqlite_engine_axioms ref_sqlite_clash mode _ this clash]
  show ?thesis by simp
qed

end
