(* ===== verification/Concurrency.thy ===== *)
theory Concurrency
  imports Suite_Model "HOL-Library.Multiset"
begin

text \<open>
  Threads over a shared backend: the interleaving semantics of a main thread that spawns threads and
  joins them, and the contract of a backend whose transactions overlap. A thread is the tree of its
  next operation on the shared state and what follows each result; local computation belongs to the
  operation before it. An operation that has to wait leaves the state alone and is tried again.
\<close>

section \<open>Threads\<close>

datatype ('s, 'a) thread =
  Return 'a
| Op "'s \<Rightarrow> ('s, 'a) thread res \<times> 's"

text \<open>
  The main thread of a test. Threads are numbered in the order they are spawned; \<open>Join\<close> waits for one
  and passes its result on.
\<close>

datatype ('s, 'a) main_thread =
  Finish
| MOp "'s \<Rightarrow> ('s, 'a) main_thread res \<times> 's"
| Spawn "('s, 'a) thread" "('s, 'a) main_thread"
| Join nat "'a \<Rightarrow> ('s, 'a) main_thread"

record ('s, 'a) system =
  sys_store :: 's
  sys_main :: "('s, 'a) main_thread"
  sys_threads :: "('s, 'a) thread list"

inductive sys_step :: "('s, 'a) system \<Rightarrow> ('s, 'a) system \<Rightarrow> bool" where
  thread_op: "i < length (sys_threads c) \<Longrightarrow> sys_threads c ! i = Op f \<Longrightarrow> f (sys_store c) = (Ok th, s) \<Longrightarrow>
    sys_step c (c\<lparr>sys_store := s, sys_threads := (sys_threads c)[i := th]\<rparr>)"
| main_op: "sys_main c = MOp f \<Longrightarrow> f (sys_store c) = (Ok m, s) \<Longrightarrow>
    sys_step c (c\<lparr>sys_store := s, sys_main := m\<rparr>)"
| main_spawn: "sys_main c = Spawn th m \<Longrightarrow>
    sys_step c (c\<lparr>sys_main := m, sys_threads := sys_threads c @ [th]\<rparr>)"
| main_join: "sys_main c = Join i k \<Longrightarrow> i < length (sys_threads c) \<Longrightarrow> sys_threads c ! i = Return x \<Longrightarrow>
    sys_step c (c\<lparr>sys_main := k x\<rparr>)"

inductive_cases sys_step_cases: "sys_step c c'"

text \<open>An operation that can be performed now fails or panics.\<close>

definition fails_at :: "'s \<Rightarrow> ('s \<Rightarrow> 'x res \<times> 's) \<Rightarrow> bool" where
  "fails_at s f \<longleftrightarrow> (case fst (f s) of Ok _ \<Rightarrow> False | Blocked \<Rightarrow> False | _ \<Rightarrow> True)"

definition crashes :: "('s, 'a) system \<Rightarrow> bool" where
  "crashes c \<longleftrightarrow>
     (\<exists>i f. i < length (sys_threads c) \<and> sys_threads c ! i = Op f \<and> fails_at (sys_store c) f) \<or>
     (\<exists>f. sys_main c = MOp f \<and> fails_at (sys_store c) f)"

definition finished :: "('s, 'a) system \<Rightarrow> bool" where
  "finished c \<longleftrightarrow> sys_main c = Finish \<and> (\<forall>th \<in> set (sys_threads c). \<exists>x. th = Return x)"

text \<open>
  Every schedule from the system ends, with all threads finished, and never crashes or gets stuck.
\<close>

inductive ends_well :: "('s, 'a) system \<Rightarrow> bool" where
  finish: "finished c \<Longrightarrow> ends_well c"
| continue: "\<not> crashes c \<Longrightarrow> sys_step c c' \<Longrightarrow> (\<And>c'. sys_step c c' \<Longrightarrow> ends_well c') \<Longrightarrow> ends_well c"

section \<open>Every schedule ends\<close>

text \<open>
  A step makes one thread smaller, or makes the main thread smaller; so there is no infinite run,
  whatever the store does.
\<close>

definition thread_child :: "(('s, 'a) thread \<times> ('s, 'a) thread) set" where
  "thread_child = {(th, Op f) | th f. \<exists>s s'. f s = (Ok th, s')}"

definition main_child :: "(('s, 'a) main_thread \<times> ('s, 'a) main_thread) set" where
  "main_child = {(m, MOp f) | m f. \<exists>s s'. f s = (Ok m, s')} \<union> {(m, Spawn th m) | m th. True} \<union>
     {(k x, Join i k) | k x i. True}"

lemma wf_thread_child: "wf (thread_child :: (('s, 'a) thread \<times> ('s, 'a) thread) set)"
proof (rule wfUNIVI)
  fix P :: "('s, 'a) thread \<Rightarrow> bool" and th
  assume P: "\<forall>th. (\<forall>th'. (th', th) \<in> thread_child \<longrightarrow> P th') \<longrightarrow> P th"
  have step: "P th" if "\<And>th'. (th', th) \<in> thread_child \<Longrightarrow> P th'" for th
    using P that by blast
  show "P th"
  proof (induction th)
    case (Return x)
    show ?case by (rule step) (simp add: thread_child_def)
  next
    case (Op f)
    have sub: "P th" if "f s = (Ok th, s')" for th s s'
    proof (rule Op)
      show "f s \<in> range f" by simp
      show "Ok th \<in> Basic_BNFs.fsts (f s)" using that by simp
      show "th \<in> set1_outcome (Ok th)" by simp
    qed
    show ?case by (rule step) (auto simp: thread_child_def dest: sub)
  qed
qed

lemma wf_main_child: "wf (main_child :: (('s, 'a) main_thread \<times> ('s, 'a) main_thread) set)"
proof (rule wfUNIVI)
  fix P :: "('s, 'a) main_thread \<Rightarrow> bool" and m
  assume P: "\<forall>m. (\<forall>m'. (m', m) \<in> main_child \<longrightarrow> P m') \<longrightarrow> P m"
  have step: "P m" if "\<And>m'. (m', m) \<in> main_child \<Longrightarrow> P m'" for m
    using P that by blast
  show "P m"
  proof (induction m)
    case (MOp f)
    have sub: "P m" if "f s = (Ok m, s')" for m s s'
    proof (rule MOp)
      show "f s \<in> range f" by simp
      show "Ok m \<in> Basic_BNFs.fsts (f s)" using that by simp
      show "m \<in> set1_outcome (Ok m)" by simp
    qed
    show ?case by (rule step) (auto simp: main_child_def dest: sub)
  next
    case Finish
    show ?case by (rule step) (simp add: main_child_def)
  next
    case (Spawn th m)
    show ?case by (rule step) (use Spawn in \<open>auto simp: main_child_def\<close>)
  next
    case (Join i k)
    show ?case by (rule step) (use Join in \<open>auto simp: main_child_def\<close>)
  qed
qed

definition system_order :: "(('s, 'a) system \<times> ('s, 'a) system) set" where
  "system_order = inv_image (main_child <*lex*> listrel1 thread_child) (\<lambda>c. (sys_main c, sys_threads c))"

lemma wf_system_order: "wf system_order"
  unfolding system_order_def
  by (intro wf_inv_image wf_lex_prod wf_main_child) (simp add: wf_listrel1_iff wf_thread_child)

lemma sys_step_order:
  assumes "sys_step c c'"
  shows "(c', c) \<in> system_order"
  using assms
proof (cases rule: sys_step.cases)
  case (thread_op i f th s)
  have "(th, Op f) \<in> thread_child" using thread_op by (auto simp: thread_child_def)
  moreover have "sys_threads c = take i (sys_threads c) @ Op f # drop (Suc i) (sys_threads c)"
    using id_take_nth_drop [OF thread_op(2)] thread_op(3) by simp
  moreover have "(sys_threads c)[i := th] = take i (sys_threads c) @ th # drop (Suc i) (sys_threads c)"
    using thread_op(2) by (rule upd_conv_take_nth_drop)
  ultimately have "((sys_threads c)[i := th], sys_threads c) \<in> listrel1 thread_child"
    by (auto intro: listrel1I)
  with thread_op show ?thesis by (simp add: system_order_def)
next
  case (main_op f m s)
  then show ?thesis by (auto simp: system_order_def main_child_def)
qed (auto simp: system_order_def main_child_def)

section \<open>Overlapping transactions\<close>

text \<open>
  \<open>conc s c R W\<close>: the committed contents are \<open>c\<close>, \<open>R\<close> are the open read-only transactions and \<open>W\<close>
  the open read-write transactions, each with the contents it sees. There is at most one of the
  latter. Beginning a transaction may have to wait, but only while some transaction is open.
\<close>

locale concurrent_backend =
  fixes B :: "('b, 's, 'ro, 'rw) backend"
    and cfg_ok :: "'b \<Rightarrow> db_desc \<Rightarrow> bool"
    and key_ok :: "data \<Rightarrow> bool"
    and conc :: "'s \<Rightarrow> contents \<Rightarrow> ('ro \<times> contents) multiset \<Rightarrow> ('rw \<times> contents) multiset \<Rightarrow> bool"
  assumes key_ok_length: "1 \<le> length k \<Longrightarrow> length k \<le> 511 \<Longrightarrow> key_ok k"
    and conc_ok: "conc s c R W \<Longrightarrow> contents_ok c"
    and conc_ro_ok: "conc s c R W \<Longrightarrow> (t, v) \<in># R \<Longrightarrow> contents_ok v"
    and conc_rw_ok: "conc s c R W \<Longrightarrow> (w, v) \<in># W \<Longrightarrow> contents_ok v \<and> length v = length c"
    and one_writer: "conc s c R W \<Longrightarrow> size W \<le> 1"
    and open_conc: "cfg_ok cfg d \<Longrightarrow> distinct (map desc_name (maps_vec (map_descs d))) \<Longrightarrow>
        \<exists>s. be_open B cfg d = Ok s \<and> conc s (empty_contents (count_as_usize (desc_map_count d))) {#} {#}"
    and begin_ro_conc: "conc s c R W \<Longrightarrow>
        (\<exists>t s'. transaction_ro (be_impl B) s = (Ok t, s') \<and> conc s' c (add_mset (t, c) R) W) \<or>
        transaction_ro (be_impl B) s = (Blocked, s) \<and> (R \<noteq> {#} \<or> W \<noteq> {#})"
    and begin_rw_conc: "conc s c R W \<Longrightarrow>
        (\<exists>w s'. transaction_rw (be_impl B) s sz = (Ok w, s') \<and> W = {#} \<and> conc s' c R {#(w, c)#}) \<or>
        transaction_rw (be_impl B) s sz = (Blocked, s) \<and> (R \<noteq> {#} \<or> W \<noteq> {#})"
    and ro_get_conc: "conc s c R W \<Longrightarrow> (t, v) \<in># R \<Longrightarrow> i < length v \<Longrightarrow> key_ok k \<Longrightarrow>
        ro_get (be_impl B) t s (DbMapId i) k = Ok (bt_get (v ! i) k)"
    and ro_iter_conc: "conc s c R W \<Longrightarrow> (t, v) \<in># R \<Longrightarrow> i < length v \<Longrightarrow>
        ro_prefix_iter (be_impl B) t s (DbMapId i) p = Ok (bt_prefix p (v ! i))"
    and ro_drop_conc: "conc s c (add_mset (t, v) R) W \<Longrightarrow> conc (ro_drop (be_impl B) t s) c R W"
    and rw_get_conc: "conc s c R W \<Longrightarrow> (w, v) \<in># W \<Longrightarrow> i < length v \<Longrightarrow> key_ok k \<Longrightarrow>
        rw_get (be_impl B) w s (DbMapId i) k = Ok (bt_get (v ! i) k)"
    and rw_iter_conc: "conc s c R W \<Longrightarrow> (w, v) \<in># W \<Longrightarrow> i < length v \<Longrightarrow>
        rw_prefix_iter (be_impl B) w s (DbMapId i) p = Ok (bt_prefix p (v ! i))"
    and rw_put_conc: "conc s c R {#(w, v)#} \<Longrightarrow> i < length v \<Longrightarrow> key_ok k \<Longrightarrow>
        \<exists>w' s'. rw_put (be_impl B) w s (DbMapId i) k x = (Ok (), w', s') \<and>
          conc s' c R {#(w', contents_put i k x v)#}"
    and rw_del_conc: "conc s c R {#(w, v)#} \<Longrightarrow> i < length v \<Longrightarrow> key_ok k \<Longrightarrow>
        \<exists>w' s'. rw_del (be_impl B) w s (DbMapId i) k = (Ok (), w', s') \<and>
          conc s' c R {#(w', contents_del i k v)#}"
    and rw_commit_conc: "conc s c R {#(w, v)#} \<Longrightarrow>
        \<exists>s'. rw_commit (be_impl B) w s = (Ok (), s') \<and> conc s' v R {#}"
    and rw_drop_conc: "conc s c R {#(w, v)#} \<Longrightarrow> conc (rw_drop (be_impl B) w s) c R {#}"

text \<open>One transaction at a time is the sequential contract.\<close>

sublocale concurrent_backend \<subseteq> seq: backend_contract B cfg_ok key_ok
  "\<lambda>s c. conc s c {#} {#}" "\<lambda>t s c. conc s c {#(t, c)#} {#}" "\<lambda>w s b c. conc s b {#} {#(w, c)#}"
proof unfold_locales
  fix s c
  assume c: "conc s c {#} {#}"
  show "\<exists>t s'. transaction_ro (be_impl B) s = (Ok t, s') \<and> conc s' c {#(t, c)#} {#}"
    using begin_ro_conc [OF c] by auto
next
  fix s c sz
  assume c: "conc s c {#} {#}"
  show "\<exists>t s'. transaction_rw (be_impl B) s sz = (Ok t, s') \<and> conc s' c {#} {#(t, c)#}"
    using begin_rw_conc [OF c, of sz] by auto
qed (auto intro: key_ok_length conc_ok open_conc ro_get_conc ro_iter_conc ro_drop_conc rw_get_conc rw_iter_conc
    rw_put_conc rw_del_conc rw_commit_conc rw_drop_conc dest: conc_rw_ok)

text \<open>
  A backend that lets one transaction in at a time: while one is open, beginning another waits. Every
  such backend that keeps the sequential contract keeps the concurrent one.
\<close>

locale exclusive_backend = backend_contract B cfg_ok key_ok idle ro_open rw_open
  for B :: "('b, 's, 'ro, 'rw) backend" and cfg_ok key_ok idle ro_open rw_open +
  assumes ro_waits: "ro_open t s c \<Longrightarrow> transaction_ro (be_impl B) s = (Blocked, s) \<and>
      transaction_rw (be_impl B) s sz = (Blocked, s)"
    and rw_waits: "rw_open w s b c \<Longrightarrow> transaction_ro (be_impl B) s = (Blocked, s) \<and>
      transaction_rw (be_impl B) s sz = (Blocked, s)"
    and ro_open_ok: "ro_open t s c \<Longrightarrow> contents_ok c"
    and rw_base_ok: "rw_open w s b c \<Longrightarrow> contents_ok b"

definition exclusive ::
    "('s \<Rightarrow> contents \<Rightarrow> bool) \<Rightarrow> ('ro \<Rightarrow> 's \<Rightarrow> contents \<Rightarrow> bool) \<Rightarrow> ('rw \<Rightarrow> 's \<Rightarrow> contents \<Rightarrow> contents \<Rightarrow> bool) \<Rightarrow>
       's \<Rightarrow> contents \<Rightarrow> ('ro \<times> contents) multiset \<Rightarrow> ('rw \<times> contents) multiset \<Rightarrow> bool" where
  "exclusive idle ro_open rw_open s c R W \<longleftrightarrow>
     R = {#} \<and> W = {#} \<and> idle s c \<or>
     (\<exists>t. R = {#(t, c)#} \<and> W = {#} \<and> ro_open t s c) \<or>
     (\<exists>w v. R = {#} \<and> W = {#(w, v)#} \<and> rw_open w s c v)"

sublocale exclusive_backend \<subseteq> one_tx: concurrent_backend B cfg_ok key_ok "exclusive idle ro_open rw_open"
proof unfold_locales
  fix s c R W
  assume "exclusive idle ro_open rw_open s c R W"
  then consider "R = {#}" "W = {#}" "idle s c" | t where "ro_open t s c" "R = {#(t, c)#}" "W = {#}"
    | w v where "rw_open w s c v" "W = {#(w, v)#}" "R = {#}"
    by (auto simp: exclusive_def)
  note st = this
  show "(\<exists>t s'. transaction_ro (be_impl B) s = (Ok t, s') \<and>
        exclusive idle ro_open rw_open s' c (add_mset (t, c) R) W) \<or>
      transaction_ro (be_impl B) s = (Blocked, s) \<and> (R \<noteq> {#} \<or> W \<noteq> {#})"
    using st by cases (use begin_ro_spec [of s c] ro_waits rw_waits in \<open>auto simp: exclusive_def\<close>)
  show "(\<exists>w s'. transaction_rw (be_impl B) s sz = (Ok w, s') \<and> W = {#} \<and>
        exclusive idle ro_open rw_open s' c R {#(w, c)#}) \<or>
      transaction_rw (be_impl B) s sz = (Blocked, s) \<and> (R \<noteq> {#} \<or> W \<noteq> {#})" for sz
    using st by cases (use begin_rw_spec [of s c sz] ro_waits rw_waits in \<open>auto simp: exclusive_def\<close>)
  show "contents_ok c" using st by cases (auto intro: idle_ok ro_open_ok rw_base_ok)
  show "size W \<le> 1" using st by cases auto
  show "contents_ok v" if "(t, v) \<in># R" for t v using st that by cases (auto intro: ro_open_ok)
  show "contents_ok v \<and> length v = length c" if "(w, v) \<in># W" for w v
    using st that by cases (auto intro: rw_open_ok rw_open_length)
qed (auto simp: exclusive_def add_eq_conv_ex intro: key_ok_length open_spec ro_get_spec ro_iter_spec ro_drop_spec
    rw_get_spec rw_iter_spec rw_put_spec rw_del_spec rw_commit_spec rw_drop_spec)

end
