(* ===== verification/Lmdb_Snapshots.thy ===== *)
theory Lmdb_Snapshots
  imports Lmdb_Contract Concurrency
begin

text \<open>
  LMDB with overlapping transactions: read-only transactions see the contents committed when they
  began, beside at most one read-write transaction. The locale \<open>lmdb_snapshots\<close> states what the code
  relies on when transactions of several threads are open; used one at a time they form an
  \<open>lmdb_engine\<close>. The backend keeps the concurrent contract over it.
\<close>

section \<open>What the code relies on\<close>

text \<open>
  \<open>e_conc env hs m R W\<close>: the handles \<open>hs\<close> map to the committed contents \<open>m\<close>, and \<open>R\<close> and \<open>W\<close> are the
  open transactions with what they see. Beginning a transaction may wait, for the writer or for a
  resize, but only while some transaction is open. The reader table has room for the readers.
\<close>

locale lmdb_snapshots =
  fixes L :: "('env, 'db, 'cur, 'ro, 'rw, 'rs, 'cb, 'fl) lmdb_api"
    and e_conc :: "'env \<Rightarrow> (string \<times> 'db) list \<Rightarrow> ('db \<Rightarrow> (data, data) btree) \<Rightarrow>
        ('ro \<times> ('db \<Rightarrow> (data, data) btree)) multiset \<Rightarrow>
        ('rw \<times> ('db \<Rightarrow> (data, data) btree)) multiset \<Rightarrow> bool"
    and e_max :: "'env \<Rightarrow> nat"
    and fresh_path :: "string \<Rightarrow> bool"
  assumes conc_sorted: "e_conc env hs m R W \<Longrightarrow> bt_inv (m d)"
    and snapshot_sorted: "e_conc env hs m R W \<Longrightarrow> (t, v) \<in># R \<Longrightarrow> bt_inv (v d)"
    and writer_sorted: "e_conc env hs m R W \<Longrightarrow> (w, v) \<in># W \<Longrightarrow> bt_inv (v d)"
    and single_writer: "e_conc env hs m R W \<Longrightarrow> size W \<le> 1"
    and conc_distinct: "e_conc env hs m R W \<Longrightarrow> distinct (map snd hs)"
    and make_dir: "fresh_path p \<Longrightarrow> create_dir_all L p = Ok ()"
    and env_open_fresh: "fresh_path p \<Longrightarrow>
        \<exists>env. env_open L bld p = Ok env \<and> e_conc env [] (\<lambda>_. bt_empty) {#} {#} \<and>
          e_max env = unat (eb_max_dbs bld)"
    and create_db_new: "e_conc env hs m {#} {#} \<Longrightarrow> length hs < e_max env \<Longrightarrow> n \<notin> fst ` set hs \<Longrightarrow>
        \<exists>d env'. env_create_db L env (Some n) = (Ok d, env') \<and> e_conc env' (hs @ [(n, d)]) m {#} {#} \<and>
          e_max env' = e_max env"
    and resize_unused: "e_conc env hs m {#} {#} \<Longrightarrow>
        \<exists>env'. env_do_resize L env sz = (Ok (), env') \<and> e_conc env' hs m {#} {#}"
    and begin_reader: "e_conc env hs m R W \<Longrightarrow>
        (\<exists>t env'. begin_ro_txn L env = (Ok t, env') \<and> e_conc env' hs m (add_mset (t, m) R) W) \<or>
        begin_ro_txn L env = (Blocked, env) \<and> (R \<noteq> {#} \<or> W \<noteq> {#})"
    and begin_writer: "e_conc env hs m R W \<Longrightarrow>
        (\<exists>w env'. begin_rw_txn L env sz = (Ok w, env') \<and> W = {#} \<and> e_conc env' hs m R {#(w, m)#}) \<or>
        begin_rw_txn L env sz = (Blocked, env) \<and> (R \<noteq> {#} \<or> W \<noteq> {#})"
    and reader_get: "e_conc env hs m R W \<Longrightarrow> (t, v) \<in># R \<Longrightarrow> d \<in> snd ` set hs \<Longrightarrow> lmdb_key_ok k \<Longrightarrow>
        tx_get (ro_tx L) t env d k = (case bt_get (v d) k of Some x \<Rightarrow> Ok x | None \<Rightarrow> Err NotFound)"
    and writer_get: "e_conc env hs m R W \<Longrightarrow> (w, v) \<in># W \<Longrightarrow> d \<in> snd ` set hs \<Longrightarrow> lmdb_key_ok k \<Longrightarrow>
        tx_get (rw_tx L) w env d k = (case bt_get (v d) k of Some x \<Rightarrow> Ok x | None \<Rightarrow> Err NotFound)"
    and reader_cursor: "e_conc env hs m R W \<Longrightarrow> (t, v) \<in># R \<Longrightarrow> d \<in> snd ` set hs \<Longrightarrow>
        \<exists>cur. tx_open_ro_cursor (ro_tx L) t env d = Ok cur \<and> into_iter_start L cur = map Ok (v d) \<and>
          (\<forall>p. p \<noteq> [] \<longrightarrow> into_iter_from L cur p = map Ok (bt_range_from (v d) p))"
    and writer_cursor: "e_conc env hs m R W \<Longrightarrow> (w, v) \<in># W \<Longrightarrow> d \<in> snd ` set hs \<Longrightarrow>
        \<exists>cur. tx_open_ro_cursor (rw_tx L) w env d = Ok cur \<and> into_iter_start L cur = map Ok (v d) \<and>
          (\<forall>p. p \<noteq> [] \<longrightarrow> into_iter_from L cur p = map Ok (bt_range_from (v d) p))"
    and writer_put: "e_conc env hs m R {#(w, v)#} \<Longrightarrow> d \<in> snd ` set hs \<Longrightarrow> lmdb_key_ok k \<Longrightarrow>
        \<exists>w' env'. txn_put L w env d k x = (Ok (), w', env') \<and>
          e_conc env' hs m R {#(w', v(d := bt_insert k x (v d)))#}"
    and writer_del: "e_conc env hs m R {#(w, v)#} \<Longrightarrow> d \<in> snd ` set hs \<Longrightarrow> lmdb_key_ok k \<Longrightarrow>
        \<exists>w' env'. txn_del L w env d k = (if bt_get (v d) k = None then Err NotFound else Ok (), w', env') \<and>
          e_conc env' hs m R {#(w', v(d := bt_remove k (v d)))#}"
    and writer_commit: "e_conc env hs m R {#(w, v)#} \<Longrightarrow>
        \<exists>env'. txn_commit L w env = (Ok (), env') \<and> e_conc env' hs v R {#}"
    and reader_drop: "e_conc env hs m (add_mset (t, v) R) W \<Longrightarrow>
        e_conc (tx_drop (ro_tx L) t env) hs m R W"
    and writer_drop: "e_conc env hs m R {#(w, v)#} \<Longrightarrow> e_conc (tx_drop (rw_tx L) w env) hs m R {#}"

sublocale lmdb_snapshots \<subseteq> one: lmdb_engine L "\<lambda>env hs m. e_conc env hs m {#} {#}"
  "\<lambda>t env hs m. e_conc env hs m {#(t, m)#} {#}" "\<lambda>w env hs b m. e_conc env hs b {#} {#(w, m)#}"
  e_max fresh_path
proof (unfold_locales, goal_cases)
  case (9 env hs m)
  from begin_reader [OF 9] show ?case by auto
next
  case (10 env hs m sz)
  from begin_writer [OF 10, of sz] show ?case by auto
next
  case (16 w env hs b m d k)
  then show ?case by (rule writer_del)
qed (auto intro: conc_sorted conc_distinct make_dir env_open_fresh create_db_new resize_unused writer_put
    writer_del writer_commit reader_drop writer_drop dest: snapshot_sorted writer_sorted reader_get writer_get
    reader_cursor writer_cursor)

section \<open>The contract\<close>

definition handle_view :: "(string \<times> 'db) list \<Rightarrow> 't \<times> ('db \<Rightarrow> (data, data) btree) \<Rightarrow> 't \<times> contents" where
  "handle_view hs = (\<lambda>(t, v). (t, map v (map snd hs)))"

text \<open>No write has found the map full, so no resize is scheduled.\<close>

definition lm_conc ::
    "('env \<Rightarrow> (string \<times> 'db) list \<Rightarrow> ('db \<Rightarrow> (data, data) btree) \<Rightarrow>
        ('ro \<times> ('db \<Rightarrow> (data, data) btree)) multiset \<Rightarrow>
        ('rw \<times> ('db \<Rightarrow> (data, data) btree)) multiset \<Rightarrow> bool) \<Rightarrow>
     ('env, 'db) lmdb_impl \<Rightarrow> contents \<Rightarrow> ('ro \<times> contents) multiset \<Rightarrow> ('rw \<times> contents) multiset \<Rightarrow> bool" where
  "lm_conc e_conc s c R W \<longleftrightarrow> \<not> map_resize_scheduled s \<and>
     (\<exists>hs m RM WM. e_conc (lm_env s) hs m RM WM \<and> lm_holds hs m s c \<and>
        R = image_mset (handle_view hs) RM \<and> W = image_mset (handle_view hs) WM)"

lemma handle_view_elem:
  assumes "(t, c) \<in># image_mset (handle_view hs) M"
  obtains v where "(t, v) \<in># M" "c = map v (map snd hs)"
  using assms by (auto simp: handle_view_def)

lemma handle_view_single:
  assumes "{#(w, c)#} = image_mset (handle_view hs) M"
  obtains v where "M = {#(w, v)#}" "c = map v (map snd hs)"
  using msed_map_invR [of "handle_view hs" M "(w, c)" "{#}"] assms by (auto simp: handle_view_def)

lemma handle_view_add:
  assumes "add_mset (t, c) R = image_mset (handle_view hs) M"
  obtains v M' where "M = add_mset (t, v) M'" "R = image_mset (handle_view hs) M'" "c = map v (map snd hs)"
  using msed_map_invR [of "handle_view hs" M "(t, c)" R] assms by (auto simp: handle_view_def)

lemma lm_holds_view: "lm_holds hs m s c \<Longrightarrow> lm_holds hs v s (map v (map snd hs))"
  by (simp add: lm_holds_def)

lemma lmdb_open_unscheduled: "lmdb_open L cfg d = Ok s \<Longrightarrow> \<not> map_resize_scheduled s"
  by (auto simp: lmdb_open_def o_bind_eq_Ok split_beta)

lemma lm_concE:
  assumes "lm_conc e_conc s c R W"
  obtains hs m RM WM where "e_conc (lm_env s) hs m RM WM" "lm_holds hs m s c" "\<not> map_resize_scheduled s"
    "R = image_mset (handle_view hs) RM" "W = image_mset (handle_view hs) WM"
  using assms by (auto simp: lm_conc_def)

lemma lm_concI:
  assumes "e_conc (lm_env s) hs m RM WM" and "lm_holds hs m s c" and "\<not> map_resize_scheduled s"
    and "R = image_mset (handle_view hs) RM" and "W = image_mset (handle_view hs) WM"
  shows "lm_conc e_conc s c R W"
  using assms by (auto simp: lm_conc_def)

context lmdb_snapshots
begin

lemma snap_begin_ro:
  assumes "lm_conc e_conc s c R W"
  shows "(\<exists>t s'. lmdb_transaction_ro L s = (Ok t, s') \<and> lm_conc e_conc s' c (add_mset (t, c) R) W) \<or>
    lmdb_transaction_ro L s = (Blocked, s) \<and> (R \<noteq> {#} \<or> W \<noteq> {#})"
proof -
  from assms obtain hs m RM WM where st: "e_conc (lm_env s) hs m RM WM" "lm_holds hs m s c"
    "\<not> map_resize_scheduled s" "R = image_mset (handle_view hs) RM" "W = image_mset (handle_view hs) WM"
    by (rule lm_concE)
  from begin_reader [OF st(1)] show ?thesis
  proof (elim disjE exE conjE)
    fix t env'
    assume b: "begin_ro_txn L (lm_env s) = (Ok t, env')" "e_conc env' hs m (add_mset (t, m) RM) WM"
    have "lm_conc e_conc (s\<lparr>lm_env := env'\<rparr>) c (add_mset (t, c) R) W"
      by (rule lm_concI [of _ _ hs m "add_mset (t, m) RM" WM]) (use b(2) st in \<open>auto simp: handle_view_def lm_holds_def\<close>)
    with b(1) show ?thesis by (simp add: lmdb_transaction_ro_def start_transaction_def)
  qed (auto simp: lmdb_transaction_ro_def start_transaction_def st)
qed

lemma snap_begin_rw:
  assumes "lm_conc e_conc s c R W"
  shows "(\<exists>w s'. lmdb_transaction_rw L s sz = (Ok w, s') \<and> W = {#} \<and> lm_conc e_conc s' c R {#(w, c)#}) \<or>
    lmdb_transaction_rw L s sz = (Blocked, s) \<and> (R \<noteq> {#} \<or> W \<noteq> {#})"
proof -
  from assms obtain hs m RM WM where st: "e_conc (lm_env s) hs m RM WM" "lm_holds hs m s c"
    "\<not> map_resize_scheduled s" "R = image_mset (handle_view hs) RM" "W = image_mset (handle_view hs) WM"
    by (rule lm_concE)
  have resize: "resize_if_resize_scheduled L s = (Ok (), s)"
    using st(3) by (cases s) (simp add: resize_if_resize_scheduled_def compare_exchange_def)
  from begin_writer [OF st(1), of sz] show ?thesis
  proof (elim disjE exE conjE)
    fix w env'
    assume b: "begin_rw_txn L (lm_env s) sz = (Ok w, env')" "WM = {#}" "e_conc env' hs m RM {#(w, m)#}"
    have "lm_conc e_conc (s\<lparr>lm_env := env'\<rparr>) c R {#(w, c)#}"
      by (rule lm_concI [of _ _ hs m RM "{#(w, m)#}"]) (use b(3) st in \<open>auto simp: handle_view_def lm_holds_def\<close>)
    with b st(5) show ?thesis by (simp add: lmdb_transaction_rw_def start_transaction_def resize)
  qed (auto simp: lmdb_transaction_rw_def start_transaction_def st resize)
qed

lemma snap_reader:
  assumes "lm_conc e_conc s c R W" and "(t, v) \<in># R" and "i < length v"
  shows "lmdb_key_ok k \<Longrightarrow> db_tx_get E (ro_tx L) t s (DbMapId i) k = Ok (bt_get (v ! i) k)"
    and "db_tx_prefix_iter L (ro_tx L) t s (DbMapId i) p = Ok (bt_prefix p (v ! i))"
proof -
  from assms(1) obtain hs m RM WM where st: "e_conc (lm_env s) hs m RM WM" "lm_holds hs m s c"
    "R = image_mset (handle_view hs) RM" by (rule lm_concE)
  with assms(2) obtain u where u: "(t, u) \<in># RM" "v = map u (map snd hs)" by (auto simp: handle_view_def)
  then have holds: "lm_holds hs u s v" using lm_holds_view [OF st(2)] by simp
  note nth = one.lm_holds_nth [OF holds assms(3)]
  show "db_tx_get E (ro_tx L) t s (DbMapId i) k = Ok (bt_get (v ! i) k)" if "lmdb_key_ok k"
    using holds assms(3) reader_get [OF st(1) u(1) nth(2) that] by (rule one.get_ok)
  show "db_tx_prefix_iter L (ro_tx L) t s (DbMapId i) p = Ok (bt_prefix p (v ! i))"
  proof -
    let ?d = "maps_vec (lm_dbs s) ! i"
    from reader_cursor [OF st(1) u(1) nth(2)] obtain cur where
      "tx_open_ro_cursor (ro_tx L) t (lm_env s) ?d = Ok cur" "into_iter_start L cur = map Ok (u ?d)"
      "\<forall>p. p \<noteq> [] \<longrightarrow> into_iter_from L cur p = map Ok (bt_range_from (u ?d) p)" by (elim exE conjE)
    with holds assms(3) snapshot_sorted [OF st(1) u(1)] show ?thesis by (rule one.iter_ok)
  qed
qed

lemma snap_writer:
  assumes "lm_conc e_conc s c R W" and "(w, v) \<in># W" and "i < length v"
  shows "lmdb_key_ok k \<Longrightarrow> db_tx_get E (rw_tx L) w s (DbMapId i) k = Ok (bt_get (v ! i) k)"
    and "db_tx_prefix_iter L (rw_tx L) w s (DbMapId i) p = Ok (bt_prefix p (v ! i))"
proof -
  from assms(1) obtain hs m RM WM where st: "e_conc (lm_env s) hs m RM WM" "lm_holds hs m s c"
    "W = image_mset (handle_view hs) WM" by (rule lm_concE)
  with assms(2) obtain u where u: "(w, u) \<in># WM" "v = map u (map snd hs)" by (auto simp: handle_view_def)
  then have holds: "lm_holds hs u s v" using lm_holds_view [OF st(2)] by simp
  note nth = one.lm_holds_nth [OF holds assms(3)]
  show "db_tx_get E (rw_tx L) w s (DbMapId i) k = Ok (bt_get (v ! i) k)" if "lmdb_key_ok k"
    using holds assms(3) writer_get [OF st(1) u(1) nth(2) that] by (rule one.get_ok)
  show "db_tx_prefix_iter L (rw_tx L) w s (DbMapId i) p = Ok (bt_prefix p (v ! i))"
  proof -
    let ?d = "maps_vec (lm_dbs s) ! i"
    from writer_cursor [OF st(1) u(1) nth(2)] obtain cur where
      "tx_open_ro_cursor (rw_tx L) w (lm_env s) ?d = Ok cur" "into_iter_start L cur = map Ok (u ?d)"
      "\<forall>p. p \<noteq> [] \<longrightarrow> into_iter_from L cur p = map Ok (bt_range_from (u ?d) p)" by (elim exE conjE)
    with holds assms(3) writer_sorted [OF st(1) u(1)] show ?thesis by (rule one.iter_ok)
  qed
qed

text \<open>The operations of the writer, which is the only one.\<close>

lemma lm_conc_writerE:
  assumes "lm_conc e_conc s c R {#(w, v)#}"
  obtains hs m u RM where "e_conc (lm_env s) hs m RM {#(w, u)#}" "lm_holds hs m s c" "lm_holds hs u s v"
    "\<not> map_resize_scheduled s" "R = image_mset (handle_view hs) RM"
proof -
  from assms obtain hs m RM WM where st: "e_conc (lm_env s) hs m RM WM" "lm_holds hs m s c"
    "\<not> map_resize_scheduled s" "R = image_mset (handle_view hs) RM" "{#(w, v)#} = image_mset (handle_view hs) WM"
    by (rule lm_concE)
  from st(5) obtain u where u: "WM = {#(w, u)#}" "v = map u (map snd hs)" by (rule handle_view_single)
  then show ?thesis using that st lm_holds_view [OF st(2)] by simp
qed

lemma lm_conc_writerI:
  assumes "e_conc (lm_env s) hs m RM {#(w, u)#}" and "lm_holds hs m s c" and "lm_holds hs u s v"
    and "\<not> map_resize_scheduled s" and "R = image_mset (handle_view hs) RM"
  shows "lm_conc e_conc s c R {#(w, v)#}"
  using assms by (intro lm_concI [of _ _ hs m RM "{#(w, u)#}"]) (auto simp: handle_view_def lm_holds_def)

lemma snap_put:
  assumes "lm_conc e_conc s c R {#(w, v)#}" and "i < length v" and "lmdb_key_ok k"
  shows "\<exists>w' s'. db_tx_put L w s (DbMapId i) k x = (Ok (), w', s') \<and>
    lm_conc e_conc s' c R {#(w', contents_put i k x v)#}"
proof -
  from assms(1) obtain hs m u RM where st: "e_conc (lm_env s) hs m RM {#(w, u)#}" "lm_holds hs m s c"
    "lm_holds hs u s v" "\<not> map_resize_scheduled s" "R = image_mset (handle_view hs) RM"
    by (rule lm_conc_writerE)
  note nth = one.lm_holds_nth [OF st(3) assms(2)]
  let ?d = "maps_vec (lm_dbs s) ! i"
  obtain w' env' where put: "txn_put L w (lm_env s) ?d k x = (Ok (), w', env')"
    "e_conc env' hs m RM {#(w', u(?d := bt_insert k x (u ?d)))#}"
    using writer_put [OF st(1) nth(2) assms(3)] by blast
  have "maps_index (lm_dbs s) (DbMapId i) = (Ok ?d :: 'db res)" using nth(1) by (simp add: maps_index_def)
  from one.write_ok(1) [OF this _ put(1)]
  have "db_tx_put L w s (DbMapId i) k x = (Ok (), w', s\<lparr>lm_env := env'\<rparr>)" by simp
  moreover have "lm_conc e_conc (s\<lparr>lm_env := env'\<rparr>) c R {#(w', contents_put i k x v)#}"
    using put(2) st one.lm_holds_update [OF st(3) assms(2), of "bt_insert k x (u ?d)"] nth(3)
    by (intro lm_conc_writerI [of _ hs m RM _ "u(?d := bt_insert k x (u ?d))"]) (simp_all add: contents_put_def)
  ultimately show ?thesis by blast
qed

lemma snap_del:
  assumes "lm_conc e_conc s c R {#(w, v)#}" and "i < length v" and "lmdb_key_ok k"
  shows "\<exists>w' s'. db_tx_del L w s (DbMapId i) k = (Ok (), w', s') \<and>
    lm_conc e_conc s' c R {#(w', contents_del i k v)#}"
proof -
  from assms(1) obtain hs m u RM where st: "e_conc (lm_env s) hs m RM {#(w, u)#}" "lm_holds hs m s c"
    "lm_holds hs u s v" "\<not> map_resize_scheduled s" "R = image_mset (handle_view hs) RM"
    by (rule lm_conc_writerE)
  note nth = one.lm_holds_nth [OF st(3) assms(2)]
  let ?d = "maps_vec (lm_dbs s) ! i"
  obtain w' env' where del: "txn_del L w (lm_env s) ?d k =
      (if bt_get (u ?d) k = None then Err NotFound else Ok (), w', env')"
    "e_conc env' hs m RM {#(w', u(?d := bt_remove k (u ?d)))#}"
    using writer_del [OF st(1) nth(2) assms(3)] by blast
  have "maps_index (lm_dbs s) (DbMapId i) = (Ok ?d :: 'db res)" using nth(1) by (simp add: maps_index_def)
  from one.write_ok(2) [OF this _ del(1)]
  have "db_tx_del L w s (DbMapId i) k = (Ok (), w', s\<lparr>lm_env := env'\<rparr>)" by (simp split: if_splits)
  moreover have "lm_conc e_conc (s\<lparr>lm_env := env'\<rparr>) c R {#(w', contents_del i k v)#}"
    using del(2) st one.lm_holds_update [OF st(3) assms(2), of "bt_remove k (u ?d)"] nth(3)
    by (intro lm_conc_writerI [of _ hs m RM _ "u(?d := bt_remove k (u ?d))"]) (simp_all add: contents_del_def)
  ultimately show ?thesis by blast
qed

lemma snap_commit:
  assumes "lm_conc e_conc s c R {#(w, v)#}"
  shows "\<exists>s'. db_tx_commit L w s = (Ok (), s') \<and> lm_conc e_conc s' v R {#}"
proof -
  from assms obtain hs m u RM where st: "e_conc (lm_env s) hs m RM {#(w, u)#}" "lm_holds hs u s v"
    "\<not> map_resize_scheduled s" "R = image_mset (handle_view hs) RM"
    by (rule lm_conc_writerE)
  obtain env' where c: "txn_commit L w (lm_env s) = (Ok (), env')" "e_conc env' hs u RM {#}"
    using writer_commit [OF st(1)] by blast
  have "lm_conc e_conc (s\<lparr>lm_env := env'\<rparr>) v R {#}"
    by (rule lm_concI [of _ _ hs u RM "{#}"]) (use c(2) st in simp_all)
  with c(1) show ?thesis by (simp add: db_tx_commit_def)
qed

lemma snap_drop:
  "lm_conc e_conc s c (add_mset (t, v) R) W \<Longrightarrow> lm_conc e_conc (db_tx_drop (ro_tx L) t s) c R W"
  "lm_conc e_conc s c R {#(w, v)#} \<Longrightarrow> lm_conc e_conc (db_tx_drop (rw_tx L) w s) c R {#}"
proof -
  assume "lm_conc e_conc s c (add_mset (t, v) R) W"
  then obtain hs m RM WM where st: "e_conc (lm_env s) hs m RM WM" "lm_holds hs m s c"
    "\<not> map_resize_scheduled s" "add_mset (t, v) R = image_mset (handle_view hs) RM"
    "W = image_mset (handle_view hs) WM" by (rule lm_concE)
  from st(4) obtain u RM' where "RM = add_mset (t, u) RM'" "R = image_mset (handle_view hs) RM'"
    by (rule handle_view_add)
  with st show "lm_conc e_conc (db_tx_drop (ro_tx L) t s) c R W"
    by (intro lm_concI [of _ _ hs m RM' WM]) (auto simp: db_tx_drop_def intro: reader_drop)
next
  assume "lm_conc e_conc s c R {#(w, v)#}"
  then obtain hs m u RM where "e_conc (lm_env s) hs m RM {#(w, u)#}" "lm_holds hs m s c"
    "\<not> map_resize_scheduled s" "R = image_mset (handle_view hs) RM"
    by (rule lm_conc_writerE)
  then show "lm_conc e_conc (db_tx_drop (rw_tx L) w s) c R {#}"
    by (intro lm_concI [of _ _ hs m RM "{#}"]) (auto simp: db_tx_drop_def intro: writer_drop)
qed

lemma snap_contents_ok:
  assumes "lm_conc e_conc s c R W"
  shows "contents_ok c" and "(t, v) \<in># R \<Longrightarrow> contents_ok v"
    and "(w, v) \<in># W \<Longrightarrow> contents_ok v \<and> length v = length c" and "size W \<le> 1"
proof -
  from assms obtain hs m RM WM where st: "e_conc (lm_env s) hs m RM WM" "lm_holds hs m s c"
    "R = image_mset (handle_view hs) RM" "W = image_mset (handle_view hs) WM" by (rule lm_concE)
  show "contents_ok c" using st(1,2) by (auto simp: lm_holds_def contents_ok_def list_all_length intro: conc_sorted)
  show "contents_ok v" if "(t, v) \<in># R"
    using that st by (auto simp: handle_view_def contents_ok_def list_all_length dest: snapshot_sorted)
  show "contents_ok v \<and> length v = length c" if "(w, v) \<in># W"
    using that st by (auto simp: handle_view_def contents_ok_def list_all_length lm_holds_def dest: writer_sorted)
  show "size W \<le> 1" using single_writer [OF st(1)] st(4) by simp
qed

lemma snap_open:
  assumes "fresh_path (lmdb_path cfg)" and "count_as_usize (desc_map_count d) < 2 ^ 32"
    and "distinct (map desc_name (maps_vec (map_descs d)))"
  shows "\<exists>s. lmdb_open L cfg d = Ok s \<and> lm_conc e_conc s (empty_contents (count_as_usize (desc_map_count d))) {#} {#}"
  using one.lmdb_open_ok [OF assms] by (auto simp: lm_conc_def lm_idle_def dest: lmdb_open_unscheduled)

lemma lmdb_concurrent:
  "concurrent_backend (lmdb_backend L)
     (\<lambda>cfg d. fresh_path (lmdb_path cfg) \<and> count_as_usize (desc_map_count d) < 2 ^ 32)
     lmdb_key_ok (lm_conc e_conc)"
  by unfold_locales
    (auto simp: lmdb_backend_def lmdb_impl_ops_def lmdb_key_ok_def snap_reader snap_writer snap_put snap_del
      snap_commit snap_drop snap_open dest: snap_contents_ok snap_begin_ro snap_begin_rw)

text \<open>A reader beside a writer.\<close>

lemma reader_undisturbed:
  assumes c: "lm_conc e_conc s c {#} {#}" and i: "i < length c" and k: "lmdb_key_ok k"
    and ro: "lmdb_transaction_ro L s = (Ok t, s1)" and rw: "lmdb_transaction_rw L s1 sz = (Ok w, s2)"
  shows "\<exists>w' s3 s4. db_tx_put L w s2 (DbMapId i) k x = (Ok (), w', s3) \<and>
    db_tx_get E (ro_tx L) t s3 (DbMapId i) k = Ok (bt_get (c ! i) k) \<and>
    db_tx_get E (rw_tx L) w' s3 (DbMapId i) k = Ok (Some x) \<and>
    db_tx_commit L w' s3 = (Ok (), s4) \<and>
    db_tx_get E (ro_tx L) t s4 (DbMapId i) k = Ok (bt_get (c ! i) k) \<and>
    (\<forall>t' s5. lmdb_transaction_ro L s4 = (Ok t', s5) \<longrightarrow>
      db_tx_get E (ro_tx L) t' s5 (DbMapId i) k = Ok (Some x) \<and>
      db_tx_get E (ro_tx L) t s5 (DbMapId i) k = Ok (bt_get (c ! i) k))"
proof -
  let ?c = "contents_put i k x c"
  have "lm_conc e_conc s1 c {#(t, c)#} {#}" using snap_begin_ro [OF c] ro by auto
  from snap_begin_rw [OF this, of sz] rw have 2: "lm_conc e_conc s2 c {#(t, c)#} {#(w, c)#}" by auto
  from snap_put [OF 2 i k, of x] obtain w' s3 where put: "db_tx_put L w s2 (DbMapId i) k x = (Ok (), w', s3)"
    and 3: "lm_conc e_conc s3 c {#(t, c)#} {#(w', ?c)#}" by blast
  from snap_commit [OF 3] obtain s4 where commit: "db_tx_commit L w' s3 = (Ok (), s4)"
    and 4: "lm_conc e_conc s4 ?c {#(t, c)#} {#}" by blast
  have 5: "lm_conc e_conc s5 ?c {#(t', ?c), (t, c)#} {#}" if "lmdb_transaction_ro L s4 = (Ok t', s5)" for t' s5
    using snap_begin_ro [OF 4] that by auto
  have "bt_inv (c ! i)" using snap_contents_ok(1) [OF c] i by (simp add: contents_ok_def list_all_length)
  then have new: "bt_get (?c ! i) k = Some x" using i by (simp add: bt_get_insert)
  have later: "db_tx_get E (ro_tx L) t' s5 (DbMapId i) k = Ok (Some x) \<and>
      db_tx_get E (ro_tx L) t s5 (DbMapId i) k = Ok (bt_get (c ! i) k)"
    if "lmdb_transaction_ro L s4 = (Ok t', s5)" for t' s5
    using snap_reader(1) [OF 5 [OF that] _ _ k, of t' ?c i] snap_reader(1) [OF 5 [OF that] _ i k, of t] i new
    by simp
  show ?thesis
    using put commit snap_reader(1) [OF 3 _ i k, of t] snap_writer(1) [OF 3 _ _ k, of w' ?c i]
      snap_reader(1) [OF 4 _ i k, of t] later i new
    by auto
qed

end

section \<open>An environment with this behaviour\<close>

text \<open>
  A read-only transaction is a copy of the committed maps, a read-write transaction a copy that its
  commit installs; the environment knows whether a writer is active, and how many readers are, because
  a resize waits for all transactions to end.
\<close>

record mvcc_env =
  mv_max :: nat
  mv_dbs :: named_maps
  mv_readers :: nat
  mv_writing :: bool

definition mvcc_engine ::
    "(mvcc_env, string, (data, data) btree, named_maps, named_maps, unit, unit, bool) lmdb_api" where
  "mvcc_engine =
     \<lparr>env_open = (\<lambda>b p. Ok \<lparr>mv_max = unat (eb_max_dbs b), mv_dbs = [], mv_readers = 0, mv_writing = False\<rparr>),
      env_create_db = (\<lambda>env n. case n of
          None \<Rightarrow> (Err Incompatible, env)
        | Some n \<Rightarrow>
            if n \<in> fst ` set (mv_dbs env) then (Ok n, env)
            else if length (mv_dbs env) < mv_max env
            then (Ok n, env\<lparr>mv_dbs := mv_dbs env @ [(n, bt_empty)]\<rparr>)
            else (Err DbsFull, env)),
      env_do_resize = (\<lambda>env sz. (if mv_readers env = 0 \<and> \<not> mv_writing env then Ok () else Blocked, env)),
      begin_ro_txn = (\<lambda>env. (Ok (mv_dbs env), env\<lparr>mv_readers := Suc (mv_readers env)\<rparr>)),
      begin_rw_txn = (\<lambda>env sz.
          if mv_writing env then (Blocked, env) else (Ok (mv_dbs env), env\<lparr>mv_writing := True\<rparr>)),
      ro_tx = \<lparr>tx_get = (\<lambda>t env d k. ref_get t d k),
               tx_open_ro_cursor = (\<lambda>t env d. Ok (named_get t d)),
               tx_drop = (\<lambda>_ env. env\<lparr>mv_readers := mv_readers env - 1\<rparr>)\<rparr>,
      rw_tx = \<lparr>tx_get = (\<lambda>w env d k. ref_get w d k),
               tx_open_ro_cursor = (\<lambda>w env d. Ok (named_get w d)),
               tx_drop = (\<lambda>_ env. env\<lparr>mv_writing := False\<rparr>)\<rparr>,
      into_iter_start = (\<lambda>cur. map Ok cur),
      into_iter_from = (\<lambda>cur p. map Ok (bt_range_from cur p)),
      txn_put = (\<lambda>w env d k v.
          if lmdb_key_ok k then (Ok (), named_update d (bt_insert k v) w, env) else (Err BadValSize, w, env)),
      txn_del = (\<lambda>w env d k.
          if \<not> lmdb_key_ok k then (Err BadValSize, w, env)
          else if bt_get (named_get w d) k = None then (Err NotFound, w, env)
          else (Ok (), named_update d (bt_remove k) w, env)),
      txn_commit = (\<lambda>w env. (Ok (), env\<lparr>mv_dbs := w, mv_writing := False\<rparr>)),
      default_flags = False,
      flag_write_map = (\<lambda>_. True),
      create_dir_all = (\<lambda>_. Ok ()),
      errors = ref_error_env\<rparr>"

text \<open>A transaction holds maps with the names of the environment, and sees their contents.\<close>

definition mvcc_tx :: "mvcc_env \<Rightarrow> named_maps \<times> (string \<Rightarrow> (data, data) btree) \<Rightarrow> bool" where
  "mvcc_tx env = (\<lambda>(t, v). named_ok t \<and> map fst t = map fst (mv_dbs env) \<and> v = named_get t)"

definition mvcc_conc :: "mvcc_env \<Rightarrow> (string \<times> string) list \<Rightarrow> (string \<Rightarrow> (data, data) btree) \<Rightarrow>
    (named_maps \<times> (string \<Rightarrow> (data, data) btree)) multiset \<Rightarrow>
    (named_maps \<times> (string \<Rightarrow> (data, data) btree)) multiset \<Rightarrow> bool" where
  "mvcc_conc env hs m R W \<longleftrightarrow>
     named_ok (mv_dbs env) \<and> hs = ref_handles (mv_dbs env) \<and> m = named_get (mv_dbs env) \<and>
     mv_readers env = size R \<and> size W = of_bool (mv_writing env) \<and>
     (\<forall>x \<in># R. mvcc_tx env x) \<and> (\<forall>x \<in># W. mvcc_tx env x)"

lemmas mvcc_states = mvcc_conc_def mvcc_tx_def

lemma mvcc_tx_same:
  "mvcc_tx (env\<lparr>mv_readers := n\<rparr>) = mvcc_tx env"
  "mvcc_tx (env\<lparr>mv_writing := b\<rparr>) = mvcc_tx env"
  "map fst dbs = map fst (mv_dbs env) \<Longrightarrow> mvcc_tx (env\<lparr>mv_dbs := dbs, mv_writing := b\<rparr>) = mvcc_tx env"
  by (simp_all add: mvcc_tx_def)

lemma mvcc_tx_current: "named_ok (mv_dbs env) \<Longrightarrow> mvcc_tx env (mv_dbs env, named_get (mv_dbs env))"
  by (simp add: mvcc_tx_def)

lemma mvcc_tx_update:
  assumes "mvcc_tx env (w, v)" and "d \<in> fst ` set (mv_dbs env)" and "\<And>t. bt_inv t \<Longrightarrow> bt_inv (f t)"
  shows "mvcc_tx env (named_update d f w, v(d := f (v d)))"
proof -
  from assms(1) have w: "named_ok w" "map fst w = map fst (mv_dbs env)" "v = named_get w"
    by (simp_all add: mvcc_tx_def)
  have "d \<in> set (map fst w)" using assms(2) by (simp only: w(2) set_map)
  then have "d \<in> fst ` set w" by simp
  with w assms(3) show ?thesis by (simp add: mvcc_tx_def named_get_update named_ok_update)
qed

lemma mvcc_conc_writer:
  assumes "mvcc_conc env hs m R {#(w, v)#}"
  shows "mvcc_tx env (w, v)" and "mv_writing env" and "d \<in> snd ` set hs \<Longrightarrow> d \<in> fst ` set (mv_dbs env)"
    and "mvcc_tx env (w', v') \<Longrightarrow> mvcc_conc env hs m R {#(w', v')#}"
  using assms by (simp_all add: mvcc_conc_def) (cases "mv_writing env"; simp)

interpretation mvcc: lmdb_snapshots mvcc_engine mvcc_conc mv_max "\<lambda>_. True"
proof (unfold_locales, goal_cases)
  case (1 env hs m R W d)
  then show ?case by (simp add: mvcc_conc_def named_get_inv)
next
  case (2 env hs m R W t v d)
  then have "mvcc_tx env (t, v)" by (simp add: mvcc_conc_def)
  then show ?case by (simp add: mvcc_tx_def named_get_inv)
next
  case (3 env hs m R W w v d)
  then have "mvcc_tx env (w, v)" by (simp add: mvcc_conc_def)
  then show ?case by (simp add: mvcc_tx_def named_get_inv)
next
  case (4 env hs m R W)
  then show ?case by (simp add: mvcc_conc_def)
next
  case (5 env hs m R W)
  then show ?case by (simp add: mvcc_conc_def named_ok_def)
next
  case (8 env hs m n)
  then show ?case
    by (auto simp: mvcc_engine_def mvcc_conc_def named_get_snoc ref_handles_append named_ok_def)
next
  case (10 env hs m R W)
  then show ?case by (simp add: mvcc_engine_def mvcc_conc_def mvcc_tx_same mvcc_tx_current)
next
  case (11 env hs m R W sz)
  then show ?case
    by (cases "mv_writing env") (auto simp: mvcc_engine_def mvcc_conc_def mvcc_tx_same mvcc_tx_current)
next
  case (12 env hs m R W t v d k)
  then have "mvcc_tx env (t, v)" by (simp add: mvcc_conc_def)
  with 12(4) show ?case by (simp add: mvcc_engine_def mvcc_tx_def ref_get_def split: option.split)
next
  case (13 env hs m R W w v d k)
  then have "mvcc_tx env (w, v)" by (simp add: mvcc_conc_def)
  with 13(4) show ?case by (simp add: mvcc_engine_def mvcc_tx_def ref_get_def split: option.split)
next
  case (14 env hs m R W t v d)
  then have "mvcc_tx env (t, v)" by (simp add: mvcc_conc_def)
  then show ?case by (simp add: mvcc_engine_def mvcc_tx_def)
next
  case (15 env hs m R W w v d)
  then have "mvcc_tx env (w, v)" by (simp add: mvcc_conc_def)
  then show ?case by (simp add: mvcc_engine_def mvcc_tx_def)
next
  case (16 env hs m R w v d k x)
  note w = mvcc_conc_writer [OF 16(1)]
  show ?case
    using w(4) [OF mvcc_tx_update [OF w(1) w(3) [OF 16(2)], of "bt_insert k x"]] 16(3)
    by (simp add: mvcc_engine_def)
next
  case (17 env hs m R w v d k)
  note w = mvcc_conc_writer [OF 17(1)]
  have v: "v = named_get w" using w(1) by (simp add: mvcc_tx_def)
  show ?case
    using w(4) [OF mvcc_tx_update [OF w(1) w(3) [OF 17(2)], of "bt_remove k"]] w(4) [OF w(1)] 17(3) 
    by (simp add: mvcc_engine_def v bt_remove_absent)
next
  case (18 env hs m R w v)
  note w = mvcc_conc_writer [OF 18]
  from w(1) have names: "named_ok w" "map fst w = map fst (mv_dbs env)" "v = named_get w"
    by (simp_all add: mvcc_tx_def)
  from 18 have "hs = ref_handles (mv_dbs env)" "mv_readers env = size R" "\<forall>x \<in># R. mvcc_tx env x"
    by (simp_all add: mvcc_conc_def)
  moreover have "ref_handles w = ref_handles (mv_dbs env)" by (simp add: ref_handles_def names(2))
  moreover have "txn_commit mvcc_engine w env = (Ok (), env\<lparr>mv_dbs := w, mv_writing := False\<rparr>)"
    by (simp add: mvcc_engine_def)
  ultimately show ?case
    unfolding mvcc_conc_def mvcc_tx_same(3) [OF names(2)] by (simp add: names(1,3) mvcc_tx_same(3) [OF names(2)])
next
  case (19 env hs m t v R W)
  then show ?case by (simp add: mvcc_engine_def mvcc_conc_def mvcc_tx_same)
next
  case (20 env hs m R w v)
  have "tx_drop (rw_tx mvcc_engine) w env = env\<lparr>mv_writing := False\<rparr>" by (simp add: mvcc_engine_def)
  with 20 show ?case by (simp add: mvcc_conc_def mvcc_tx_same(2))
qed (simp_all add: mvcc_engine_def mvcc_conc_def named_ok_def named_get_def ref_handles_def fun_eq_iff)

section \<open>Snapshots\<close>

text \<open>
  C15. Over an LMDB environment with snapshots, a reader is not disturbed by a writer: while the writer
  writes, and after it committed, the reader finds what was committed when it began; the writer sees
  its own write; a reader that begins after the commit finds the new value, while the old reader goes
  on seeing the old one. Neither the write nor the commit waits for the reader.
\<close>

theorem lmdb_snapshot_isolation:
  assumes "lmdb_snapshots L e_conc e_max fresh_path" and "lm_conc e_conc s c {#} {#}"
    and "i < length c" and "lmdb_key_ok k"
    and "lmdb_transaction_ro L s = (Ok t, s1)" and "lmdb_transaction_rw L s1 sz = (Ok w, s2)"
  shows "\<exists>w' s3 s4. db_tx_put L w s2 (DbMapId i) k x = (Ok (), w', s3) \<and>
    db_tx_get E (ro_tx L) t s3 (DbMapId i) k = Ok (bt_get (c ! i) k) \<and>
    db_tx_get E (rw_tx L) w' s3 (DbMapId i) k = Ok (Some x) \<and>
    db_tx_commit L w' s3 = (Ok (), s4) \<and>
    db_tx_get E (ro_tx L) t s4 (DbMapId i) k = Ok (bt_get (c ! i) k) \<and>
    (\<forall>t' s5. lmdb_transaction_ro L s4 = (Ok t', s5) \<longrightarrow>
      db_tx_get E (ro_tx L) t' s5 (DbMapId i) k = Ok (Some x) \<and>
      db_tx_get E (ro_tx L) t s5 (DbMapId i) k = Ok (bt_get (c ! i) k))"
  using assms by (rule lmdb_snapshots.reader_undisturbed)

text \<open>An empty map over the environment above.\<close>

theorem lmdb_snapshot_isolation_witness:
  "\<exists>s t s1 w s2 w' s3 s4. lmdb_transaction_ro mvcc_engine s = (Ok t, s1) \<and>
    lmdb_transaction_rw mvcc_engine s1 None = (Ok w, s2) \<and>
    db_tx_put mvcc_engine w s2 (DbMapId 0) [1] [2] = (Ok (), w', s3) \<and>
    db_tx_commit mvcc_engine w' s3 = (Ok (), s4) \<and>
    db_tx_get ref_error_env (ro_tx mvcc_engine) t s4 (DbMapId 0) [1] = Ok None"
proof -
  let ?env = "\<lambda>r b. \<lparr>mv_max = 1, mv_dbs = [(''map'', [])], mv_readers = r, mv_writing = b\<rparr>"
  let ?s = "\<lambda>r b. \<lparr>lm_env = ?env r b, lm_dbs = DbMapsData [''map''], map_resize_scheduled = False\<rparr>"
  have "mvcc_conc (?env 0 False) [(''map'', ''map'')] (named_get [(''map'', [])]) {#} {#}"
    by (simp add: mvcc_conc_def named_ok_def ref_handles_def)
  then have "lm_conc mvcc_conc (?s 0 False) [[]] {#} {#}"
    by (intro lm_concI [of _ _ "[(''map'', ''map'')]" "named_get [(''map'', [])]" "{#}" "{#}"])
      (simp_all add: lm_holds_def named_get_def)
  moreover have ro: "lmdb_transaction_ro mvcc_engine (?s 0 False) = (Ok [(''map'', [])], ?s 1 False)"
    by (simp add: lmdb_transaction_ro_def start_transaction_def mvcc_engine_def)
  moreover have rw: "lmdb_transaction_rw mvcc_engine (?s 1 False) None = (Ok [(''map'', [])], ?s 1 True)"
    by (simp add: lmdb_transaction_rw_def start_transaction_def mvcc_engine_def resize_if_resize_scheduled_def
        compare_exchange_def)
  ultimately show ?thesis
    using lmdb_snapshot_isolation [OF mvcc.lmdb_snapshots_axioms, of "?s 0 False" "[[]]" 0 "[1]"]
    by (fastforce simp: lmdb_key_ok_def)
qed

end
