(* ===== verification/Thread_Safety.thy ===== *)
theory Thread_Safety
  imports Concurrency
begin

text \<open>
  Reasoning about systems of threads one thread at a time. A judgement for threads and one for the
  main thread say what each may rely on and what it guarantees: whatever the other threads have open,
  an operation succeeds or waits, a thread that waits holds no transaction, and a commit keeps a
  protocol that relates the committed contents to the set of agents that have committed. Systems
  whose parts satisfy the judgements end well under every schedule.
\<close>

section \<open>What an agent holds\<close>

text \<open>
  An agent holds at most one transaction; with a read-write transaction the set of agents that had
  committed when it began is recorded, because it cannot change until the transaction ends. The main
  thread is agent 0, thread \<open>i\<close> is agent \<open>Suc i\<close>.
\<close>

datatype ('ro, 'rw) access = NoTx | RoTx 'ro contents | RwTx 'rw "nat set" contents

fun ro_part :: "('ro, 'rw) access \<Rightarrow> ('ro \<times> contents) multiset" where
  "ro_part (RoTx t v) = {#(t, v)#}"
| "ro_part _ = {#}"

fun rw_part :: "('ro, 'rw) access \<Rightarrow> ('rw \<times> contents) multiset" where
  "rw_part (RwTx w D v) = {#(w, v)#}"
| "rw_part _ = {#}"

fun holds_since :: "nat set \<Rightarrow> ('ro, 'rw) access \<Rightarrow> bool" where
  "holds_since D (RwTx w D' v) \<longleftrightarrow> D' = D"
| "holds_since D _ \<longleftrightarrow> True"

lemma holds_since_no_writer: "rw_part a = {#} \<Longrightarrow> holds_since D a"
  by (cases a) simp_all

text \<open>
  Operation \<open>f\<close> of agent \<open>i\<close>, which holds \<open>a\<close>, has committed if \<open>d\<close>, and knows that the agents \<open>K\<close>
  have. \<open>F\<close> and \<open>G\<close> are the transactions of the others. \<open>J\<close> is the protocol. \<open>Q\<close> is what holds of the
  result.
\<close>

definition op_step ::
    "('s \<Rightarrow> contents \<Rightarrow> ('ro \<times> contents) multiset \<Rightarrow> ('rw \<times> contents) multiset \<Rightarrow> bool) \<Rightarrow>
     (nat set \<Rightarrow> contents \<Rightarrow> bool) \<Rightarrow> nat \<Rightarrow> bool \<Rightarrow> ('ro \<times> contents) multiset \<Rightarrow> ('rw \<times> contents) multiset \<Rightarrow>
     nat set \<Rightarrow> 'x res \<times> 's \<Rightarrow> (bool \<Rightarrow> ('ro, 'rw) access \<Rightarrow> 'x \<Rightarrow> bool) \<Rightarrow> bool" where
  "op_step conc J i d F G D r Q \<longleftrightarrow>
     (\<exists>x s' c' D' d' a'. r = (Ok x, s') \<and> conc s' c' (ro_part a' + F) (rw_part a' + G) \<and> J D' c' \<and>
        (D' = D \<and> d' = d \<or> D' = insert i D \<and> d' \<and> G = {#}) \<and> holds_since D' a' \<and> Q d' a' x)"

definition op_ok ::
    "('s \<Rightarrow> contents \<Rightarrow> ('ro \<times> contents) multiset \<Rightarrow> ('rw \<times> contents) multiset \<Rightarrow> bool) \<Rightarrow>
     (nat set \<Rightarrow> contents \<Rightarrow> bool) \<Rightarrow> nat set \<Rightarrow> nat \<Rightarrow> bool \<Rightarrow> ('ro, 'rw) access \<Rightarrow> ('s, 'x) prog \<Rightarrow>
     (bool \<Rightarrow> ('ro, 'rw) access \<Rightarrow> 'x \<Rightarrow> bool) \<Rightarrow> bool" where
  "op_ok conc J K i d a f Q \<longleftrightarrow>
     (\<forall>s c F G D. conc s c (ro_part a + F) (rw_part a + G) \<longrightarrow> J D c \<longrightarrow> K \<subseteq> D \<longrightarrow> (i \<in> D \<longleftrightarrow> d) \<longrightarrow>
        holds_since D a \<longrightarrow>
        op_step conc J i d F G D (f s) Q \<or> f s = (Blocked, s) \<and> a = NoTx \<and> (F \<noteq> {#} \<or> G \<noteq> {#}))"

lemma op_okD:
  assumes "op_ok conc J K i d a f Q" and "conc s c (ro_part a + F) (rw_part a + G)" and "J D c" and "K \<subseteq> D"
    and "i \<in> D \<longleftrightarrow> d" and "holds_since D a"
  shows "op_step conc J i d F G D (f s) Q \<or> f s = (Blocked, s) \<and> a = NoTx \<and> (F \<noteq> {#} \<or> G \<noteq> {#})"
  using assms unfolding op_ok_def by blast

lemma op_okI:
  assumes "\<And>s c F G D. conc s c (ro_part a + F) (rw_part a + G) \<Longrightarrow> J D c \<Longrightarrow> K \<subseteq> D \<Longrightarrow> (i \<in> D \<longleftrightarrow> d) \<Longrightarrow>
    holds_since D a \<Longrightarrow> op_step conc J i d F G D (f s) Q \<or> f s = (Blocked, s) \<and> a = NoTx \<and> (F \<noteq> {#} \<or> G \<noteq> {#})"
  shows "op_ok conc J K i d a f Q"
  using assms unfolding op_ok_def by blast

lemma op_stepI:
  assumes "r = (Ok x, s')" and "conc s' c' (ro_part a' + F) (rw_part a' + G)" and "J D' c'"
    and "D' = D \<and> d' = d \<or> D' = insert i D \<and> d' \<and> G = {#}" and "holds_since D' a'" and "Q d' a' x"
  shows "op_step conc J i d F G D r Q"
  using assms unfolding op_step_def by blast

lemma op_stepE:
  assumes "op_step conc J i d F G D r Q"
  obtains x s' c' D' d' a' where "r = (Ok x, s')" "conc s' c' (ro_part a' + F) (rw_part a' + G)" "J D' c'"
    "D' = D \<and> d' = d \<or> D' = insert i D \<and> d' \<and> G = {#}" "holds_since D' a'" "Q d' a' x"
  using assms unfolding op_step_def by blast

lemma op_ok_weaken:
  assumes "op_ok conc J K i d a f Q" and "\<And>d a x. Q d a x \<Longrightarrow> Q' d a x"
  shows "op_ok conc J K i d a f Q'"
proof (rule op_okI)
  fix s c F G D
  assume "conc s c (ro_part a + F) (rw_part a + G)" "J D c" "K \<subseteq> D" "i \<in> D \<longleftrightarrow> d" "holds_since D a"
  from op_okD [OF assms(1) this]
  show "op_step conc J i d F G D (f s) Q' \<or> f s = (Blocked, s) \<and> a = NoTx \<and> (F \<noteq> {#} \<or> G \<noteq> {#})"
    by (auto elim!: op_stepE intro: op_stepI assms(2))
qed

lemma op_ok_mono [mono]: "Q \<le> Q' \<Longrightarrow> op_ok conc J K i d a f Q \<longrightarrow> op_ok conc J K i d a f Q'"
  by (auto simp: le_fun_def elim: op_ok_weaken)

section \<open>The judgements\<close>

text \<open>\<open>Rx i d x\<close>: agent \<open>i\<close> may return \<open>x\<close>, having committed if \<open>d\<close>.\<close>

inductive thread_safe for conc J Rx where
  t_return: "Rx i d x \<Longrightarrow> thread_safe conc J Rx K i d NoTx (Return x)"
| t_op: "op_ok conc J K i d a f (thread_safe conc J Rx K i) \<Longrightarrow> thread_safe conc J Rx K i d a (Op f)"

definition knows :: "nat \<Rightarrow> bool \<Rightarrow> nat set \<Rightarrow> nat set" where
  "knows i d K = (if d then insert i K else K)"

inductive main_safe for conc J Rx where
  m_finish: "main_safe conc J Rx K n d NoTx Finish"
| m_op: "op_ok conc J K 0 d a f (main_safe conc J Rx K n) \<Longrightarrow> main_safe conc J Rx K n d a (MOp f)"
| m_spawn: "thread_safe conc J Rx (knows 0 d K) (Suc n) False NoTx th \<Longrightarrow> main_safe conc J Rx K (Suc n) d a m \<Longrightarrow>
    main_safe conc J Rx K n d a (Spawn th m)"
| m_join: "i < n \<Longrightarrow> (\<And>d' x. Rx (Suc i) d' x \<Longrightarrow> main_safe conc J Rx (knows (Suc i) d' K) n d NoTx (k x)) \<Longrightarrow>
    main_safe conc J Rx K n d NoTx (Join i k)"

inductive_cases thread_safe_ReturnE: "thread_safe conc J Rx K i d a (Return x)"
inductive_cases thread_safe_OpE: "thread_safe conc J Rx K i d a (Op f)"
inductive_cases main_safe_FinishE: "main_safe conc J Rx K n d a Finish"
inductive_cases main_safe_MOpE: "main_safe conc J Rx K n d a (MOp f)"
inductive_cases main_safe_SpawnE: "main_safe conc J Rx K n d a (Spawn th m)"
inductive_cases main_safe_JoinE: "main_safe conc J Rx K n d a (Join i k)"

section \<open>Invariant of a running system\<close>

text \<open>The agents other than thread \<open>i\<close>, in the list of what the threads hold.\<close>

definition ro_parts :: "('ro, 'rw) access list \<Rightarrow> ('ro \<times> contents) multiset" where
  "ro_parts as = sum_list (map ro_part as)"

definition rw_parts :: "('ro, 'rw) access list \<Rightarrow> ('rw \<times> contents) multiset" where
  "rw_parts as = sum_list (map rw_part as)"

lemma ro_parts_update: "i < length as \<Longrightarrow> ro_parts (as[i := a]) = ro_part a + ro_parts (as[i := NoTx])"
  by (simp add: ro_parts_def upd_conv_take_nth_drop add.left_commute)

lemma rw_parts_update: "i < length as \<Longrightarrow> rw_parts (as[i := a]) = rw_part a + rw_parts (as[i := NoTx])"
  by (simp add: rw_parts_def upd_conv_take_nth_drop add.left_commute)

lemma ro_parts_nth: "i < length as \<Longrightarrow> ro_parts as = ro_part (as ! i) + ro_parts (as[i := NoTx])"
  using ro_parts_update [of i as "as ! i"] by simp

lemma rw_parts_nth: "i < length as \<Longrightarrow> rw_parts as = rw_part (as ! i) + rw_parts (as[i := NoTx])"
  using rw_parts_update [of i as "as ! i"] by simp

lemma rw_parts_empty: "rw_parts as = {#} \<Longrightarrow> j < length as \<Longrightarrow> rw_part (as ! j) = {#}"
  using rw_parts_nth [of j as] by simp

lemma parts_snoc [simp]: "ro_parts (as @ [NoTx]) = ro_parts as" "rw_parts (as @ [NoTx]) = rw_parts as"
  by (simp_all add: ro_parts_def rw_parts_def)

lemma parts_none:
  assumes "\<forall>j < length as. as ! j = NoTx"
  shows "ro_parts as = {#}" and "rw_parts as = {#}"
proof -
  have "as = replicate (length as) NoTx" using assms by (intro nth_equalityI) simp_all
  moreover have "sum_list (replicate n {#}) = {#}" for n :: nat by (induction n) simp_all
  ultimately show "ro_parts as = {#}" "rw_parts as = {#}"
    by (metis ro_parts_def map_replicate ro_part.simps(2), metis rw_parts_def map_replicate rw_part.simps(2))
qed

definition threads_safe where
  "threads_safe conc J Rx D as ths \<longleftrightarrow> length as = length ths \<and>
     (\<forall>i < length ths. holds_since D (as ! i) \<and>
        (\<exists>K \<subseteq> D. thread_safe conc J Rx K (Suc i) (Suc i \<in> D) (as ! i) (ths ! i)))"

definition system_inv where
  "system_inv conc J Rx sys \<longleftrightarrow> (\<exists>c D as a K.
     conc (sys_store sys) c (ro_part a + ro_parts as) (rw_part a + rw_parts as) \<and> J D c \<and>
     D \<subseteq> {..length (sys_threads sys)} \<and> K \<subseteq> D \<and> holds_since D a \<and>
     main_safe conc J Rx K (length (sys_threads sys)) (0 \<in> D) a (sys_main sys) \<and>
     threads_safe conc J Rx D as (sys_threads sys))"

lemma threads_safe_nth:
  assumes "threads_safe conc J Rx D as ths" and "i < length ths"
  obtains K where "holds_since D (as ! i)" "K \<subseteq> D" "i < length as"
    "thread_safe conc J Rx K (Suc i) (Suc i \<in> D) (as ! i) (ths ! i)"
  using assms unfolding threads_safe_def by auto

text \<open>Another agent's step, which commits only when nobody else has a read-write transaction.\<close>

lemma threads_safe_other:
  assumes "threads_safe conc J Rx D as ths"
    and "D' = D \<or> D' = insert 0 D \<and> rw_parts as = {#}"
  shows "threads_safe conc J Rx D' as ths"
  unfolding threads_safe_def
proof (intro conjI allI impI)
  show "length as = length ths" using assms(1) by (simp add: threads_safe_def)
  fix j assume "j < length ths"
  then obtain K where K: "holds_since D (as ! j)" "K \<subseteq> D" "j < length as"
    "thread_safe conc J Rx K (Suc j) (Suc j \<in> D) (as ! j) (ths ! j)"
    using threads_safe_nth [OF assms(1)] by blast
  then show "holds_since D' (as ! j)"
    using assms(2) rw_parts_empty [of as j] by (auto intro: holds_since_no_writer)
  have "Suc j \<in> D' \<longleftrightarrow> Suc j \<in> D" using assms(2) by auto
  then show "\<exists>K \<subseteq> D'. thread_safe conc J Rx K (Suc j) (Suc j \<in> D') (as ! j) (ths ! j)"
    using K(2,4) assms(2) by (intro exI [of _ K]) auto
qed

lemma threads_safe_update:
  assumes "threads_safe conc J Rx D as ths" and i: "i < length ths"
    and D': "D' = D \<or> D' = insert (Suc i) D \<and> rw_parts (as[i := NoTx]) = {#}"
    and new: "holds_since D' a'" "K \<subseteq> D'" "thread_safe conc J Rx K (Suc i) (Suc i \<in> D') a' th'"
  shows "threads_safe conc J Rx D' (as[i := a']) (ths[i := th'])"
  unfolding threads_safe_def
proof (intro conjI allI impI)
  show "length (as[i := a']) = length (ths[i := th'])" using assms(1) by (simp add: threads_safe_def)
next
  fix j assume j: "j < length (ths[i := th'])"
  then obtain Kj where Kj: "holds_since D (as ! j)" "Kj \<subseteq> D" "j < length as"
    "thread_safe conc J Rx Kj (Suc j) (Suc j \<in> D) (as ! j) (ths ! j)"
    using threads_safe_nth [OF assms(1), of j] by auto
  have other: "holds_since D' (as ! j)" if "j \<noteq> i"
    using D' Kj(1,3) rw_parts_empty [of "as[i := NoTx]" j] that by (auto intro: holds_since_no_writer)
  show "holds_since D' (as[i := a'] ! j)"
    using i j Kj(3) other new(1) by (cases "j = i") simp_all
  show "\<exists>K \<subseteq> D'. thread_safe conc J Rx K (Suc j) (Suc j \<in> D') (as[i := a'] ! j) (ths[i := th'] ! j)"
  proof (cases "j = i")
    case True
    then show ?thesis using new i Kj(3) by auto
  next
    case False
    moreover from this have "Suc j \<in> D' \<longleftrightarrow> Suc j \<in> D" using D' by auto
    ultimately show ?thesis using Kj D' by (intro exI [of _ Kj]) auto
  qed
qed

lemma threads_safe_snoc:
  assumes "threads_safe conc J Rx D as ths" and "K \<subseteq> D" and "Suc (length ths) \<notin> D"
    and "thread_safe conc J Rx K (Suc (length ths)) False NoTx th"
  shows "threads_safe conc J Rx D (as @ [NoTx]) (ths @ [th])"
  unfolding threads_safe_def
proof (intro conjI allI impI)
  have len: "length as = length ths" using assms(1) by (simp add: threads_safe_def)
  then show "length (as @ [NoTx]) = length (ths @ [th])" by simp
  fix j assume "j < length (ths @ [th])"
  then consider "j < length ths" | "j = length ths" by fastforce
  then show "holds_since D ((as @ [NoTx]) ! j)"
    and "\<exists>K \<subseteq> D. thread_safe conc J Rx K (Suc j) (Suc j \<in> D) ((as @ [NoTx]) ! j) ((ths @ [th]) ! j)"
    using assms len by (cases; auto simp: threads_safe_def nth_append)+
qed

section \<open>Every schedule ends well\<close>

lemma system_invE:
  assumes "system_inv conc J Rx sys"
  obtains c D as a K where
    "conc (sys_store sys) c (ro_part a + ro_parts as) (rw_part a + rw_parts as)" "J D c"
    "D \<subseteq> {..length (sys_threads sys)}" "K \<subseteq> D" "holds_since D a"
    "main_safe conc J Rx K (length (sys_threads sys)) (0 \<in> D) a (sys_main sys)"
    "threads_safe conc J Rx D as (sys_threads sys)"
  using assms unfolding system_inv_def by blast

lemma system_invI:
  assumes "conc (sys_store sys) c (ro_part a + ro_parts as) (rw_part a + rw_parts as)" "J D c"
    "D \<subseteq> {..length (sys_threads sys)}" "K \<subseteq> D" "holds_since D a"
    "main_safe conc J Rx K (length (sys_threads sys)) (0 \<in> D) a (sys_main sys)"
    "threads_safe conc J Rx D as (sys_threads sys)"
  shows "system_inv conc J Rx sys"
  using assms unfolding system_inv_def by blast

text \<open>The operation of thread \<open>i\<close>, in a system that satisfies the invariant.\<close>

lemma thread_op_result:
  assumes "conc (sys_store sys) c (ro_part a + ro_parts as) (rw_part a + rw_parts as)" "J D c"
    and ths: "threads_safe conc J Rx D as (sys_threads sys)"
    and i: "i < length (sys_threads sys)" and f: "sys_threads sys ! i = Op f"
  shows "(\<exists>th s' c' D' a'. f (sys_store sys) = (Ok th, s') \<and>
       conc s' c' (ro_part a + ro_parts (as[i := a'])) (rw_part a + rw_parts (as[i := a'])) \<and> J D' c' \<and>
       (D' = D \<or> D' = insert (Suc i) D \<and> rw_part a = {#} \<and> rw_parts (as[i := NoTx]) = {#}) \<and>
       threads_safe conc J Rx D' (as[i := a']) ((sys_threads sys)[i := th])) \<or>
     f (sys_store sys) = (Blocked, sys_store sys) \<and> as ! i = NoTx \<and>
       (ro_part a + ro_parts as \<noteq> {#} \<or> rw_part a + rw_parts as \<noteq> {#})"
proof -
  obtain K where K: "holds_since D (as ! i)" "K \<subseteq> D" "i < length as"
    "thread_safe conc J Rx K (Suc i) (Suc i \<in> D) (as ! i) (sys_threads sys ! i)"
    using threads_safe_nth [OF ths i] .
  let ?F = "ro_part a + ro_parts (as[i := NoTx])" and ?G = "rw_part a + rw_parts (as[i := NoTx])"
  have F: "ro_part a + ro_parts (as[i := x]) = ro_part x + ?F"
    and G: "rw_part a + rw_parts (as[i := x]) = rw_part x + ?G" for x
    using K(3) by (simp_all add: ro_parts_update [of i as x] rw_parts_update [of i as x] add.left_commute)
  have "conc (sys_store sys) c (ro_part (as ! i) + ?F) (rw_part (as ! i) + ?G)"
    using assms(1) F [of "as ! i"] G [of "as ! i"] by (simp add: add.left_commute)
  moreover have "op_ok conc J K (Suc i) (Suc i \<in> D) (as ! i) f (thread_safe conc J Rx K (Suc i))"
    using K(4) f by (auto elim: thread_safe_OpE)
  ultimately consider
    (step) th s' c' D' d' a' where "f (sys_store sys) = (Ok th, s')" "conc s' c' (ro_part a' + ?F) (rw_part a' + ?G)"
      "J D' c'" "D' = D \<and> d' = (Suc i \<in> D) \<or> D' = insert (Suc i) D \<and> d' \<and> ?G = {#}" "holds_since D' a'"
      "thread_safe conc J Rx K (Suc i) d' a' th"
    | (wait) "f (sys_store sys) = (Blocked, sys_store sys)" "as ! i = NoTx" "?F \<noteq> {#} \<or> ?G \<noteq> {#}"
    using op_okD [of conc J K "Suc i" "Suc i \<in> D" "as ! i" f] assms(2) K(1,2) by (blast elim: op_stepE)
  then show ?thesis
  proof cases
    case step
    then have "threads_safe conc J Rx D' (as[i := a']) ((sys_threads sys)[i := th])"
      using K(2) by (intro threads_safe_update [OF ths i, of D' a' K]) auto
    with step show ?thesis unfolding F [symmetric] G [symmetric] by auto
  next
    case wait
    then have "as[i := NoTx] = as" by (metis list_update_id)
    with wait show ?thesis by simp
  qed
qed

lemma main_op_result:
  assumes "conc (sys_store sys) c (ro_part a + ro_parts as) (rw_part a + rw_parts as)" "J D c" "K \<subseteq> D"
    and "holds_since D a" and ths: "threads_safe conc J Rx D as (sys_threads sys)"
    and main: "main_safe conc J Rx K n (0 \<in> D) a (MOp f)"
  shows "(\<exists>m s' c' D' a'. f (sys_store sys) = (Ok m, s') \<and>
       conc s' c' (ro_part a' + ro_parts as) (rw_part a' + rw_parts as) \<and> J D' c' \<and>
       (D' = D \<or> D' = insert 0 D) \<and> holds_since D' a' \<and> main_safe conc J Rx K n (0 \<in> D') a' m \<and>
       threads_safe conc J Rx D' as (sys_threads sys)) \<or>
     f (sys_store sys) = (Blocked, sys_store sys) \<and> a = NoTx \<and> (ro_parts as \<noteq> {#} \<or> rw_parts as \<noteq> {#})"
proof -
  have "op_ok conc J K 0 (0 \<in> D) a f (main_safe conc J Rx K n)"
    using main by (auto elim: main_safe_MOpE)
  from op_okD [OF this assms(1-3) refl assms(4)] consider
    (step) m s' c' D' d' a' where "f (sys_store sys) = (Ok m, s')"
      "conc s' c' (ro_part a' + ro_parts as) (rw_part a' + rw_parts as)" "J D' c'"
      "D' = D \<and> d' = (0 \<in> D) \<or> D' = insert 0 D \<and> d' \<and> rw_parts as = {#}" "holds_since D' a'"
      "main_safe conc J Rx K n d' a' m"
    | (wait) "f (sys_store sys) = (Blocked, sys_store sys)" "a = NoTx" "ro_parts as \<noteq> {#} \<or> rw_parts as \<noteq> {#}"
    by (blast elim: op_stepE)
  then show ?thesis
  proof cases
    case step
    then have "threads_safe conc J Rx D' as (sys_threads sys)"
      by (intro threads_safe_other [OF ths]) auto
    moreover have "d' = (0 \<in> D')" using step(4) by auto
    ultimately show ?thesis using step by blast
  qed auto
qed

lemma system_inv_step:
  assumes "system_inv conc J Rx sys" and "sys_step sys sys'"
  shows "system_inv conc J Rx sys'"
proof -
  obtain c D as a K where inv:
    "conc (sys_store sys) c (ro_part a + ro_parts as) (rw_part a + rw_parts as)" "J D c"
    "D \<subseteq> {..length (sys_threads sys)}" "K \<subseteq> D" "holds_since D a"
    "main_safe conc J Rx K (length (sys_threads sys)) (0 \<in> D) a (sys_main sys)"
    "threads_safe conc J Rx D as (sys_threads sys)"
    using assms(1) by (rule system_invE)
  from assms(2) show ?thesis
  proof (cases rule: sys_step.cases)
    case (thread_op i f th s)
    from thread_op_result [OF inv(1,2,7) thread_op(2,3)] thread_op(4) obtain c' D' a' where new:
      "conc s c' (ro_part a + ro_parts (as[i := a'])) (rw_part a + rw_parts (as[i := a']))" "J D' c'"
      "D' = D \<or> D' = insert (Suc i) D \<and> rw_part a = {#}"
      "threads_safe conc J Rx D' (as[i := a']) ((sys_threads sys)[i := th])"
      by auto
    moreover have "holds_since D' a" "0 \<in> D' \<longleftrightarrow> 0 \<in> D" "K \<subseteq> D'" "D' \<subseteq> {..length (sys_threads sys)}"
      using new(3) inv(3-5) thread_op(2) by (auto intro: holds_since_no_writer)
    ultimately show ?thesis
      unfolding thread_op(1) using inv(6) by (intro system_invI [of conc _ c' a "as[i := a']" J D' K]) simp_all
  next
    case (main_op f m s)
    from main_op_result [OF inv(1,2,4,5,7), of _ f] inv(6) main_op(2,3) obtain c' D' a' where new:
      "conc s c' (ro_part a' + ro_parts as) (rw_part a' + rw_parts as)" "J D' c'" "D' = D \<or> D' = insert 0 D"
      "holds_since D' a'" "main_safe conc J Rx K (length (sys_threads sys)) (0 \<in> D') a' m"
      "threads_safe conc J Rx D' as (sys_threads sys)"
      by fastforce
    moreover have "K \<subseteq> D'" "D' \<subseteq> {..length (sys_threads sys)}" using new(3) inv(3,4) by auto
    ultimately show ?thesis
      unfolding main_op(1) by (intro system_invI [of conc _ c' a' as J D' K]) simp_all
  next
    case (main_spawn th m)
    let ?n = "length (sys_threads sys)"
    have spawn: "thread_safe conc J Rx (knows 0 (0 \<in> D) K) (Suc ?n) False NoTx th"
      "main_safe conc J Rx K (Suc ?n) (0 \<in> D) a m"
      using inv(6) main_spawn(2) by (auto elim: main_safe_SpawnE)
    moreover have "Suc ?n \<notin> D" "knows 0 (0 \<in> D) K \<subseteq> D" using inv(3,4) by (auto simp: knows_def)
    ultimately have "threads_safe conc J Rx D (as @ [NoTx]) (sys_threads sys @ [th])"
      by (intro threads_safe_snoc [OF inv(7)])
    moreover have "D \<subseteq> {..Suc ?n}" using inv(3) by auto
    ultimately show ?thesis
      unfolding main_spawn(1) using inv(1,2,4,5) spawn(2)
      by (intro system_invI [of conc _ c a "as @ [NoTx]" J D K]) simp_all
  next
    case (main_join i k x)
    obtain Ki where "thread_safe conc J Rx Ki (Suc i) (Suc i \<in> D) (as ! i) (Return x)"
      using threads_safe_nth [OF inv(7) main_join(3)] main_join(4) by metis
    then have "Rx (Suc i) (Suc i \<in> D) x" by (rule thread_safe_ReturnE)
    moreover from inv(6) main_join(2) have "a = NoTx"
      "\<And>d' x. Rx (Suc i) d' x \<Longrightarrow>
        main_safe conc J Rx (knows (Suc i) d' K) (length (sys_threads sys)) (0 \<in> D) NoTx (k x)"
      by (auto elim: main_safe_JoinE)
    moreover have "knows (Suc i) (Suc i \<in> D) K \<subseteq> D" using inv(4) by (auto simp: knows_def)
    ultimately show ?thesis
      unfolding main_join(1) using inv
      by (intro system_invI [of conc _ c a as J D "knows (Suc i) (Suc i \<in> D) K"]) simp_all
  qed
qed

lemma system_inv_no_crash:
  assumes "system_inv conc J Rx sys"
  shows "\<not> crashes sys"
proof -
  obtain c D as a K where inv:
    "conc (sys_store sys) c (ro_part a + ro_parts as) (rw_part a + rw_parts as)" "J D c"
    "D \<subseteq> {..length (sys_threads sys)}" "K \<subseteq> D" "holds_since D a"
    "main_safe conc J Rx K (length (sys_threads sys)) (0 \<in> D) a (sys_main sys)"
    "threads_safe conc J Rx D as (sys_threads sys)"
    using assms by (rule system_invE)
  have "\<not> fails_at (sys_store sys) f" if "i < length (sys_threads sys)" "sys_threads sys ! i = Op f" for i f
    using thread_op_result [OF inv(1,2,7) that] by (auto simp: fails_at_def)
  moreover have "\<not> fails_at (sys_store sys) f" if "sys_main sys = MOp f" for f
    using main_op_result [OF inv(1,2,4,5,7), of _ f] inv(6) that by (fastforce simp: fails_at_def)
  ultimately show ?thesis by (auto simp: crashes_def)
qed

text \<open>
  An agent that holds a transaction is not waiting. So when nobody can move, nobody holds one, and
  then no operation has to wait: everything has been done.
\<close>

lemma system_inv_progress:
  assumes "system_inv conc J Rx sys" and "\<not> finished sys"
  shows "\<exists>sys'. sys_step sys sys'"
proof (rule ccontr)
  assume stuck: "\<nexists>sys'. sys_step sys sys'"
  obtain c D as a K where inv:
    "conc (sys_store sys) c (ro_part a + ro_parts as) (rw_part a + rw_parts as)" "J D c"
    "D \<subseteq> {..length (sys_threads sys)}" "K \<subseteq> D" "holds_since D a"
    "main_safe conc J Rx K (length (sys_threads sys)) (0 \<in> D) a (sys_main sys)"
    "threads_safe conc J Rx D as (sys_threads sys)"
    using assms(1) by (rule system_invE)
  have wait: "as ! i = NoTx \<and> (ro_part a + ro_parts as \<noteq> {#} \<or> rw_part a + rw_parts as \<noteq> {#})"
    if "i < length (sys_threads sys)" "sys_threads sys ! i = Op f" for i f
    using thread_op_result [OF inv(1,2,7) that] stuck sys_step.thread_op [OF that] by blast
  have main_wait: "a = NoTx \<and> (ro_parts as \<noteq> {#} \<or> rw_parts as \<noteq> {#})" if "sys_main sys = MOp f" for f
    using main_op_result [OF inv(1,2,4,5,7), of _ f] inv(6) that stuck sys_step.main_op [OF that] by metis
  have len: "length as = length (sys_threads sys)" using inv(7) by (simp add: threads_safe_def)
  have none: "as ! i = NoTx" if i: "i < length (sys_threads sys)" for i
  proof (cases "sys_threads sys ! i")
    case (Return x)
    with threads_safe_nth [OF inv(7) i] show ?thesis by (metis thread_safe_ReturnE)
  next
    case (Op f)
    with wait [OF i] show ?thesis by blast
  qed
  then have parts: "ro_parts as = {#}" "rw_parts as = {#}" using parts_none [of as] len by auto
  have "a = NoTx"
  proof (cases "sys_main sys")
    case Finish
    with inv(6) show ?thesis by (auto elim: main_safe_FinishE)
  next
    case (MOp f)
    with main_wait show ?thesis by blast
  next
    case (Spawn th m)
    with stuck show ?thesis by (blast intro: sys_step.main_spawn)
  next
    case (Join i k)
    with inv(6) show ?thesis by (auto elim: main_safe_JoinE)
  qed
  then have returned: "\<exists>x. sys_threads sys ! i = Return x" if "i < length (sys_threads sys)" for i
    using wait [OF that] parts by (cases "sys_threads sys ! i") auto
  show False
  proof (cases "sys_main sys")
    case Finish
    have "\<exists>x. th = Return x" if "th \<in> set (sys_threads sys)" for th
    proof -
      from that obtain i where "i < length (sys_threads sys)" "sys_threads sys ! i = th"
        by (auto simp: in_set_conv_nth)
      with returned [of i] show ?thesis by simp
    qed
    with Finish assms(2) show False by (simp add: finished_def)
  next
    case (MOp f)
    with main_wait parts show False by blast
  next
    case (Spawn th m)
    with stuck show False by (blast intro: sys_step.main_spawn)
  next
    case (Join i k)
    with inv(6) have "i < length (sys_threads sys)" by (auto elim: main_safe_JoinE)
    with Join returned stuck show False by (blast intro: sys_step.main_join)
  qed
qed

lemma system_inv_ends_well: "system_inv conc J Rx sys \<Longrightarrow> ends_well sys"
proof (induction sys rule: wf_induct_rule [OF wf_system_order])
  case (1 sys)
  show ?case
  proof (cases "finished sys")
    case True
    then show ?thesis by (rule ends_well.finish)
  next
    case False
    from system_inv_progress [OF 1(2) this] obtain sys' where "sys_step sys sys'" ..
    with system_inv_no_crash [OF 1(2)] show ?thesis
      by (rule ends_well.continue) (rule 1(1) [OF sys_step_order system_inv_step [OF 1(2)]])
  qed
qed

text \<open>A system that has just begun: no threads yet, no transaction open, nobody has committed.\<close>

lemma main_safe_ends_well:
  assumes "conc s c {#} {#}" and "J {} c" and "main_safe conc J Rx {} 0 False NoTx m"
  shows "ends_well \<lparr>sys_store = s, sys_main = m, sys_threads = []\<rparr>"
proof (rule system_inv_ends_well, rule system_invI [of conc _ c NoTx "[]" J "{}" "{}"])
  show "threads_safe conc J Rx {} [] (sys_threads \<lparr>sys_store = s, sys_main = m, sys_threads = []\<rparr>)"
    by (simp add: threads_safe_def)
qed (use assms in \<open>simp_all add: ro_parts_def rw_parts_def\<close>)

section \<open>Operations on the backend\<close>

text \<open>A step of a thread or of the main thread: a program and what follows its result.\<close>

definition op_then :: "('s, 'x) prog \<Rightarrow> ('x \<Rightarrow> 'y) \<Rightarrow> ('s, 'y) prog" where
  "op_then p k = (\<lambda>s. case p s of (r, s') \<Rightarrow> (o_map k r, s'))"

definition thr :: "('s, 'x) prog \<Rightarrow> ('x \<Rightarrow> ('s, 'a) thread) \<Rightarrow> ('s, 'a) thread" where
  "thr p k = Op (op_then p k)"

definition mthr :: "('s, 'x) prog \<Rightarrow> ('x \<Rightarrow> ('s, 'a) main_thread) \<Rightarrow> ('s, 'a) main_thread" where
  "mthr p k = MOp (op_then p k)"

lemma op_ok_then:
  assumes "op_ok conc J K i d a p (\<lambda>d' a' x. Q d' a' (k x))"
  shows "op_ok conc J K i d a (op_then p k) Q"
proof (rule op_okI)
  fix s c F G D
  assume "conc s c (ro_part a + F) (rw_part a + G)" "J D c" "K \<subseteq> D" "i \<in> D \<longleftrightarrow> d" "holds_since D a"
  from op_okD [OF assms this]
  show "op_step conc J i d F G D (op_then p k s) Q \<or>
    op_then p k s = (Blocked, s) \<and> a = NoTx \<and> (F \<noteq> {#} \<or> G \<noteq> {#})"
  proof
    assume "op_step conc J i d F G D (p s) (\<lambda>d' a' x. Q d' a' (k x))"
    then show ?thesis
    proof (rule op_stepE)
      fix x s' c' D' d' a'
      assume "p s = (Ok x, s')" "conc s' c' (ro_part a' + F) (rw_part a' + G)" "J D' c'"
        "D' = D \<and> d' = d \<or> D' = insert i D \<and> d' \<and> G = {#}" "holds_since D' a'" "Q d' a' (k x)"
      then have "op_step conc J i d F G D (op_then p k s) Q"
        by (intro op_stepI [of _ "k x" s' conc c' a' _ _ J D' _ d']) (simp_all add: op_then_def)
      then show ?thesis ..
    qed
  qed (simp add: op_then_def)
qed

lemma safe_thr:
  "op_ok conc J K i d a p (\<lambda>d' a' x. thread_safe conc J Rx K i d' a' (k x)) \<Longrightarrow>
    thread_safe conc J Rx K i d a (thr p k)"
  unfolding thr_def by (intro thread_safe.t_op op_ok_then)

lemma safe_mthr:
  "op_ok conc J K 0 d a p (\<lambda>d' a' x. main_safe conc J Rx K n d' a' (k x)) \<Longrightarrow>
    main_safe conc J Rx K n d a (mthr p k)"
  unfolding mthr_def by (intro main_safe.m_op op_ok_then)

context concurrent_backend
begin

lemma op_start_ro:
  assumes "\<And>t D c. J D c \<Longrightarrow> K \<subseteq> D \<Longrightarrow> i \<in> D \<longleftrightarrow> d \<Longrightarrow> Q d (RoTx t c) t"
  shows "op_ok conc J K i d NoTx (start_ro (be_impl B)) Q"
proof (rule op_okI)
  fix s c F G D
  assume c: "conc s c (ro_part NoTx + F) (rw_part NoTx + G)" "J D c" "K \<subseteq> D" "i \<in> D \<longleftrightarrow> d"
  then consider t s' where "transaction_ro (be_impl B) s = (Ok t, s')" "conc s' c (add_mset (t, c) F) G"
    | "transaction_ro (be_impl B) s = (Blocked, s)" "F \<noteq> {#} \<or> G \<noteq> {#}"
    using begin_ro_conc [of s c F G] by auto
  then show "op_step conc J i d F G D (start_ro (be_impl B) s) Q \<or>
    start_ro (be_impl B) s = (Blocked, s) \<and> NoTx = NoTx \<and> (F \<noteq> {#} \<or> G \<noteq> {#})"
  proof cases
    case (1 t s')
    with c assms [of D c t] show ?thesis
      by (intro disjI1 op_stepI [of _ t s' conc c "RoTx t c" _ _ J D _ d]) (simp_all add: start_ro_def)
  qed (simp add: start_ro_def o_unwrap_def)
qed

lemma op_start_rw:
  assumes "\<And>w D c. J D c \<Longrightarrow> K \<subseteq> D \<Longrightarrow> i \<in> D \<longleftrightarrow> d \<Longrightarrow> Q d (RwTx w D c) w"
  shows "op_ok conc J K i d NoTx (start_rw (be_impl B)) Q"
proof (rule op_okI)
  fix s c F G D
  assume c: "conc s c (ro_part NoTx + F) (rw_part NoTx + G)" "J D c" "K \<subseteq> D" "i \<in> D \<longleftrightarrow> d"
  then consider w s' where "transaction_rw (be_impl B) s None = (Ok w, s')" "G = {#}" "conc s' c F {#(w, c)#}"
    | "transaction_rw (be_impl B) s None = (Blocked, s)" "F \<noteq> {#} \<or> G \<noteq> {#}"
    using begin_rw_conc [of s c F G None] by auto
  then show "op_step conc J i d F G D (start_rw (be_impl B) s) Q \<or>
    start_rw (be_impl B) s = (Blocked, s) \<and> NoTx = NoTx \<and> (F \<noteq> {#} \<or> G \<noteq> {#})"
  proof cases
    case (1 w s')
    with c assms [of D c w] show ?thesis
      by (intro disjI1 op_stepI [of _ w s' conc c "RwTx w D c" _ _ J D _ d]) (simp_all add: start_rw_def)
  qed (simp add: start_rw_def o_unwrap_def)
qed

lemma op_read_ro:
  assumes "\<And>ops. reads key_ok ops v \<Longrightarrow> \<exists>x. f ops = Ok x \<and> Q d (RoTx t v) x"
  shows "op_ok conc J K i d (RoTx t v) (read_ro (be_impl B) t f) Q"
proof (rule op_okI, rule disjI1)
  fix s c F G D
  assume c: "conc s c (ro_part (RoTx t v) + F) (rw_part (RoTx t v) + G)" "J D c"
  then have "(t, v) \<in># add_mset (t, v) F" "conc s c (add_mset (t, v) F) G" by simp_all
  then have "reads key_ok (ro_ops (be_impl B) t s) v"
    unfolding reads_def ro_ops_def by (auto intro: conc_ro_ok ro_get_conc ro_iter_conc)
  from assms [OF this] obtain x where "f (ro_ops (be_impl B) t s) = Ok x" "Q d (RoTx t v) x" by blast
  with c show "op_step conc J i d F G D (read_ro (be_impl B) t f s) Q"
    by (intro op_stepI [of _ x s conc c "RoTx t v" _ _ J D _ d]) (simp_all add: read_ro_def)
qed

lemma op_drop_ro:
  assumes "Q d NoTx ()"
  shows "op_ok conc J K i d (RoTx t v) (drop_ro (be_impl B) t) Q"
proof (rule op_okI, rule disjI1)
  fix s c F G D
  assume c: "conc s c (ro_part (RoTx t v) + F) (rw_part (RoTx t v) + G)" "J D c"
  then have "conc (ro_drop (be_impl B) t s) c F G" by (auto intro: ro_drop_conc)
  with c assms show "op_step conc J i d F G D (drop_ro (be_impl B) t s) Q"
    by (intro op_stepI [of _ "()" "ro_drop (be_impl B) t s" conc c NoTx _ _ J D _ d]) (simp_all add: drop_ro_def)
qed

lemma sole_writer: "conc s c R (rw_part (RwTx w D v) + G) \<Longrightarrow> G = {#}"
  using one_writer [of s c R "rw_part (RwTx w D v) + G"] by simp

lemma op_read_rw:
  assumes "\<And>ops. reads key_ok ops v \<Longrightarrow> \<exists>x. f ops = Ok x \<and> Q d (RwTx w D v) x"
  shows "op_ok conc J K i d (RwTx w D v) (read_rw (be_impl B) w f) Q"
proof (rule op_okI, rule disjI1)
  fix s c F G D'
  assume c: "conc s c (ro_part (RwTx w D v) + F) (rw_part (RwTx w D v) + G)" "J D' c" "holds_since D' (RwTx w D v)"
  then have "(w, v) \<in># add_mset (w, v) G" "conc s c F (add_mset (w, v) G)" by simp_all
  then have "reads key_ok (rw_ops (be_impl B) w s) v"
    unfolding reads_def rw_ops_def by (auto intro: rw_get_conc rw_iter_conc dest: conc_rw_ok)
  from assms [OF this] obtain x where "f (rw_ops (be_impl B) w s) = Ok x" "Q d (RwTx w D v) x" by blast
  with c show "op_step conc J i d F G D' (read_rw (be_impl B) w f s) Q"
    by (intro op_stepI [of _ x s conc c "RwTx w D v" _ _ J D' _ d]) (simp_all add: read_rw_def)
qed

lemma op_put:
  assumes "m < length v" and "key_ok k" and "\<And>w'. Q d (RwTx w' D (contents_put m k x v)) w'"
  shows "op_ok conc J K i d (RwTx w D v) (tx_put (be_impl B) (DbMapId m) k x w) Q"
proof (rule op_okI, rule disjI1)
  fix s c F G D'
  assume c: "conc s c (ro_part (RwTx w D v) + F) (rw_part (RwTx w D v) + G)" "J D' c" "holds_since D' (RwTx w D v)"
  from sole_writer [OF c(1)] have G: "G = {#}" .
  with c(1) rw_put_conc [of s c F w v m k x] assms(1,2) obtain w' s' where
    "rw_put (be_impl B) w s (DbMapId m) k x = (Ok (), w', s')" "conc s' c F {#(w', contents_put m k x v)#}"
    by auto
  with c G assms(3) show "op_step conc J i d F G D' (tx_put (be_impl B) (DbMapId m) k x w s) Q"
    by (intro op_stepI [of _ w' s' conc c "RwTx w' D (contents_put m k x v)" _ _ J D' _ d]) (simp_all add: tx_put_def)
qed

lemma op_commit:
  assumes "K \<subseteq> D \<Longrightarrow> i \<in> D \<longleftrightarrow> d \<Longrightarrow> J (insert i D) v" and "Q True NoTx ()"
  shows "op_ok conc J K i d (RwTx w D v) (tx_commit (be_impl B) w) Q"
proof (rule op_okI, rule disjI1)
  fix s c F G D'
  assume c: "conc s c (ro_part (RwTx w D v) + F) (rw_part (RwTx w D v) + G)" "J D' c" "K \<subseteq> D'" "i \<in> D' \<longleftrightarrow> d"
    "holds_since D' (RwTx w D v)"
  from sole_writer [OF c(1)] have G: "G = {#}" .
  with c(1) rw_commit_conc [of s c F w v] obtain s' where
    "rw_commit (be_impl B) w s = (Ok (), s')" "conc s' v F {#}" by auto
  with c G assms show "op_step conc J i d F G D' (tx_commit (be_impl B) w s) Q"
    by (intro op_stepI [of _ "()" s' conc v NoTx _ _ J "insert i D" _ True]) (simp_all add: tx_commit_def)
qed

end

end
