(* ===== verification/Suite_Concurrent.thy ===== *)
theory Suite_Concurrent
  imports Thread_Safety
begin

text \<open>
  The concurrent tests of the backend test suite
  (\<open>storage/backend-test-suite/src/concurrent.rs\<close>): each is a main thread that spawns threads over
  clones of one store. On every backend that keeps the concurrent contract each test ends well,
  whatever the schedule: no assertion fails, no thread panics and none waits forever.
\<close>

section \<open>The tests\<close>

definition TEST_KEY :: data where
  "TEST_KEY = bytes ''foo''"

text \<open>\<open>backend_fn().open(desc(1)).expect("db open to succeed")\<close>, then the test's main thread.\<close>

definition conc_test ::
    "('b, 's, 'ro, 'rw) backend \<Rightarrow> 'b \<Rightarrow> ('s, 'a) main_thread \<Rightarrow> bool" where
  "conc_test B cfg m \<longleftrightarrow>
     (case o_bind (desc 1) (\<lambda>d. o_expect ''db open to succeed'' (be_open B cfg d) :: 's res) of
        Ok s \<Rightarrow> ends_well \<lparr>sys_store = s, sys_main = m, sys_threads = []\<rparr>
      | _ \<Rightarrow> False)"

definition suite_setup ::
    "('s, 'ro, 'rw) backend_impl \<Rightarrow> data \<Rightarrow> ('s, 'a) main_thread \<Rightarrow> ('s, 'a) main_thread" where
  "suite_setup I init rest =
     mthr (start_rw I) (\<lambda>dbtx.
     mthr (tx_put I (fst MAPID) TEST_KEY init dbtx) (\<lambda>dbtx.
     mthr (tx_commit I dbtx) (\<lambda>_. rest)))"

text \<open>The closure of a thread that writes one value and commits.\<close>

definition put_thread :: "('s, 'ro, 'rw) backend_impl \<Rightarrow> data \<Rightarrow> data \<Rightarrow> ('s, unit) thread" where
  "put_thread I k v =
     thr (start_rw I) (\<lambda>dbtx.
     thr (tx_put I (fst MAPID) k v dbtx) (\<lambda>dbtx.
     thr (tx_commit I dbtx) Return))"

definition assert_that :: "bool \<Rightarrow> unit res" where
  "assert_that b = (if b then Ok () else Panic ''assertion failed'')"

definition get_test_key :: "read_ops \<Rightarrow> data option res" where
  "get_test_key dbtx = o_unwrap (r_get dbtx (fst MAPID) TEST_KEY)"

text \<open>A read-only transaction of the main thread, with an assertion, dropped before what follows.\<close>

definition main_reads ::
    "('s, 'ro, 'rw) backend_impl \<Rightarrow> (read_ops \<Rightarrow> unit res) \<Rightarrow> ('s, 'a) main_thread \<Rightarrow> ('s, 'a) main_thread" where
  "main_reads I f rest =
     mthr (start_ro I) (\<lambda>dbtx.
     mthr (read_ro I dbtx f) (\<lambda>_.
     mthr (drop_ro I dbtx) (\<lambda>_. rest)))"

definition read_initialize_race :: "('s, 'ro, 'rw) backend_impl \<Rightarrow> ('s, unit) main_thread" where
  "read_initialize_race I =
     Spawn (put_thread I TEST_KEY [2])
     (main_reads I (\<lambda>dbtx. o_bind (get_test_key dbtx) (\<lambda>v. assert_that (v \<in> {None, Some [2]})))
     (Join 0 (\<lambda>_. Finish)))"

definition read_write_race :: "('s, 'ro, 'rw) backend_impl \<Rightarrow> ('s, unit) main_thread" where
  "read_write_race I =
     suite_setup I [0]
     (Spawn (put_thread I TEST_KEY [2])
     (main_reads I (\<lambda>dbtx. o_bind (o_bind (get_test_key dbtx) opt_unwrap) (\<lambda>v. assert_that (v \<in> {[0], [2]})))
     (Join 0 (\<lambda>_. Finish))))"

text \<open>\<open>b + n\<close> on \<open>u8\<close>, which panics on overflow in the profile the tests run in.\<close>

definition u8_add :: "byte \<Rightarrow> byte \<Rightarrow> byte res" where
  "u8_add b n = (if unat b + unat n < 256 then Ok (b + n) else Panic ''attempt to add with overflow'')"

definition list_first :: "'a list \<Rightarrow> 'a option" where
  "list_first v = (case v of [] \<Rightarrow> None | x # _ \<Rightarrow> Some x)"

definition add_thread :: "('s, 'ro, 'rw) backend_impl \<Rightarrow> byte \<Rightarrow> ('s, unit) thread" where
  "add_thread I n =
     thr (start_rw I) (\<lambda>dbtx.
     thr (read_rw I dbtx (\<lambda>ops.
       o_bind (o_bind (get_test_key ops) opt_unwrap) (\<lambda>v.
       o_bind (opt_unwrap (list_first v)) (\<lambda>b. u8_add b n)))) (\<lambda>b.
     thr (tx_put I (fst MAPID) TEST_KEY [b] dbtx) (\<lambda>dbtx.
     thr (tx_commit I dbtx) Return)))"

definition commutative_read_modify_write :: "('s, 'ro, 'rw) backend_impl \<Rightarrow> ('s, unit) main_thread" where
  "commutative_read_modify_write I =
     suite_setup I [0]
     (Spawn (add_thread I 5)
     (Spawn (add_thread I 3)
     (Join 0 (\<lambda>_. Join 1 (\<lambda>_.
      main_reads I (\<lambda>dbtx. o_bind (o_bind (get_test_key dbtx) opt_unwrap) (\<lambda>v. assert_that (v = [8])))
      Finish)))))"

definition read_thread :: "('s, 'ro, 'rw) backend_impl \<Rightarrow> ('s, data) thread" where
  "read_thread I =
     thr (start_ro I) (\<lambda>dbtx.
     thr (read_ro I dbtx (\<lambda>ops. o_bind (get_test_key ops) opt_unwrap)) (\<lambda>v.
     thr (drop_ro I dbtx) (\<lambda>_. Return v)))"

definition main_assert :: "bool \<Rightarrow> ('s, 'a) main_thread \<Rightarrow> ('s, 'a) main_thread" where
  "main_assert b rest = mthr (p_assert b) (\<lambda>_. rest)"

definition threaded_reads_consistent :: "('s, 'ro, 'rw) backend_impl \<Rightarrow> ('s, data) main_thread" where
  "threaded_reads_consistent I =
     (let val = [0x77, 0x88, 0x99] in
      suite_setup I val
      (Spawn (read_thread I)
      (Spawn (read_thread I)
      (Join 0 (\<lambda>v. main_assert (v = val)
      (Join 1 (\<lambda>v. main_assert (v = val) Finish)))))))"

definition write_different_keys_and_iterate :: "('s, 'ro, 'rw) backend_impl \<Rightarrow> ('s, unit) main_thread" where
  "write_different_keys_and_iterate I =
     Spawn (put_thread I [0x01] [0xf1])
     (Spawn (put_thread I [0x02] [0xf2])
     (Join 0 (\<lambda>_. Join 1 (\<lambda>_.
      main_reads I (check_scan (fst MAPID) [] (\<lambda>es. es = [([0x01], [0xf1]), ([0x02], [0xf2])])) Finish))))"

section \<open>What the committed contents are\<close>

text \<open>One map that holds at most the test key; \<open>D\<close> is the set of agents that have committed.\<close>

definition race_value :: "nat set \<Rightarrow> data option" where
  "race_value D = (if 1 \<in> D then Some [2] else if 0 \<in> D then Some [0] else None)"

definition sum_value :: "nat set \<Rightarrow> data option" where
  "sum_value D = (if 0 \<in> D then Some [(if 1 \<in> D then 5 else 0) + (if 2 \<in> D then 3 else 0)] else None)"

definition test_key_is :: "data option \<Rightarrow> contents" where
  "test_key_is v = [case v of None \<Rightarrow> [] | Some x \<Rightarrow> [(TEST_KEY, x)]]"

definition keys_written :: "nat set \<Rightarrow> contents" where
  "keys_written D = [(if 1 \<in> D then [([0x01], [0xf1])] else []) @ (if 2 \<in> D then [([0x02], [0xf2])] else [])]"

lemma length_contents [simp]: "length (test_key_is v) = 1" "length (keys_written D) = 1"
  by (simp_all add: test_key_is_def keys_written_def)

lemma test_key_put [simp]: "contents_put 0 TEST_KEY x (test_key_is v) = test_key_is (Some x)"
  by (cases v) (simp_all add: test_key_is_def contents_put_def bt_empty_def)

lemma test_key_get:
  "reads key_ok ops (test_key_is v) \<Longrightarrow> key_ok TEST_KEY \<Longrightarrow> get_test_key ops = Ok v"
  by (cases v) (auto simp: get_test_key_def reads_def MAPID_def test_key_is_def bt_get_def)

lemma empty_is_test_key: "[bt_empty] = test_key_is None"
  by (simp add: test_key_is_def bt_empty_def)

lemma keys_written_put:
  "1 \<notin> D \<Longrightarrow> contents_put 0 [0x01] [0xf1] (keys_written D) = keys_written (insert 1 D)"
  "2 \<notin> D \<Longrightarrow> contents_put 0 [0x02] [0xf2] (keys_written D) = keys_written (insert 2 D)"
  by (auto simp: keys_written_def contents_put_def)

lemma keys_written_scan:
  assumes "reads key_ok ops (keys_written D)" and "1 \<in> D" and "2 \<in> D"
  shows "check_scan (fst MAPID) [] (\<lambda>es. es = [([0x01], [0xf1]), ([0x02], [0xf2])]) ops = Ok ()"
  unfolding MAPID_def fst_conv using assms(1)
  by (rule check_scan_Ok) (use assms(2,3) in \<open>simp_all add: keys_written_def bt_prefix_def\<close>)

lemma keys_written_none [simp]: "keys_written {} = [bt_empty]"
  by (simp add: keys_written_def bt_empty_def)

section \<open>The parts of the tests are safe\<close>

context concurrent_backend
begin

lemma key_ok_test [simp]: "key_ok TEST_KEY" "key_ok [b]"
  by (simp_all add: key_ok_length TEST_KEY_def bytes_def)

lemma safe_put_thread:
  assumes "key_ok k" and "Rx i True ()"
    and "\<And>D c. J D c \<Longrightarrow> K \<subseteq> D \<Longrightarrow> i \<notin> D \<Longrightarrow> length c = 1 \<and> J (insert i D) (contents_put 0 k v c)"
  shows "thread_safe conc J Rx K i False NoTx (put_thread (be_impl B) k v)"
  unfolding put_thread_def MAPID_def fst_conv
  by (intro safe_thr op_start_rw op_put op_commit thread_safe.t_return) (use assms in auto)

lemma safe_setup:
  assumes "J (insert 0 {}) (contents_put 0 TEST_KEY v (empty_contents 1))"
    and "\<And>D c. J D c \<Longrightarrow> 0 \<notin> D \<Longrightarrow> D = {} \<and> c = empty_contents 1"
    and "main_safe conc J Rx K n True NoTx rest"
  shows "main_safe conc J Rx K n False NoTx (suite_setup (be_impl B) v rest)"
  unfolding suite_setup_def MAPID_def fst_conv
  by (intro safe_mthr op_start_rw op_put op_commit) (use assms in fastforce)+

lemma safe_main_reads:
  assumes "\<And>D c ops. J D c \<Longrightarrow> K \<subseteq> D \<Longrightarrow> 0 \<in> D \<longleftrightarrow> d \<Longrightarrow> reads key_ok ops c \<Longrightarrow> f ops = Ok ()"
    and "main_safe conc J Rx K n d NoTx rest"
  shows "main_safe conc J Rx K n d NoTx (main_reads (be_impl B) f rest)"
  unfolding main_reads_def
  by (intro safe_mthr op_start_ro op_read_ro) (use assms in \<open>auto intro!: safe_mthr op_drop_ro\<close>)

lemma safe_main_assert:
  "b \<Longrightarrow> main_safe conc J Rx K n d NoTx rest \<Longrightarrow> main_safe conc J Rx K n d NoTx (main_assert b rest)"
  unfolding main_assert_def
  by (intro safe_mthr op_okI disjI1 op_stepI [where d' = d and a' = NoTx]) (auto simp: p_assert_def)

lemma safe_read_thread:
  assumes "\<And>D c ops. J D c \<Longrightarrow> K \<subseteq> D \<Longrightarrow> reads key_ok ops c \<Longrightarrow>
      \<exists>v. get_test_key ops = Ok (Some v) \<and> Rx i d v"
  shows "thread_safe conc J Rx K i d NoTx (read_thread (be_impl B))"
  unfolding read_thread_def
proof (intro safe_thr op_start_ro op_read_ro)
  fix t D c ops
  assume "J D c" "K \<subseteq> D" "reads key_ok ops c"
  from assms [OF this] obtain v where v: "get_test_key ops = Ok (Some v)" "Rx i d v" by blast
  then have "thread_safe conc J Rx K i d (RoTx t c) (thr (drop_ro (be_impl B) t) (\<lambda>_. Return v))"
    by (intro safe_thr op_drop_ro thread_safe.t_return)
  with v show "\<exists>x. o_bind (get_test_key ops) opt_unwrap = Ok x \<and>
      thread_safe conc J Rx K i d (RoTx t c) (thr (drop_ro (be_impl B) t) (\<lambda>_. Return x))"
    by auto
qed

lemma conc_test_ends_well:
  assumes "cfg_ok cfg (suite_desc 1)" and "J {} (empty_contents 1)"
    and "main_safe conc J Rx {} 0 False NoTx m"
  shows "conc_test B cfg m"
proof -
  have "distinct (map desc_name (maps_vec (map_descs (suite_desc 1))))"
    using suite_names_distinct [of 1] by (simp add: suite_desc_def)
  from open_conc [OF assms(1) this] obtain s where
    "be_open B cfg (suite_desc 1) = Ok s" "conc s (empty_contents 1) {#} {#}" by auto
  then show ?thesis
    using main_safe_ends_well [OF _ assms(2,3), of s] by (simp add: conc_test_def desc_eq)
qed

section \<open>The tests end well\<close>

lemmas test_parts_safe = main_safe.m_finish main_safe.m_spawn main_safe.m_join safe_setup safe_main_reads
  safe_main_assert safe_put_thread safe_read_thread

lemmas test_simps = test_key_get assert_that_def knows_def empty_is_test_key

lemmas test_simps_keys = assert_that_def knows_def
  keys_written_put [unfolded numeral_2_eq_2 One_nat_def] keys_written_scan [unfolded numeral_2_eq_2 One_nat_def]

lemma read_initialize_race_ok:
  assumes "cfg_ok cfg (suite_desc 1)"
  shows "conc_test B cfg (read_initialize_race (be_impl B))"
  unfolding read_initialize_race_def
  by (rule conc_test_ends_well [where Rx = "\<lambda>_ _ _. True" and J = "\<lambda>D c. 0 \<notin> D \<and> c = test_key_is (race_value D)"];
      (intro test_parts_safe)?; (use assms in \<open>auto simp: test_simps race_value_def\<close>))

lemma read_write_race_ok:
  assumes "cfg_ok cfg (suite_desc 1)"
  shows "conc_test B cfg (read_write_race (be_impl B))"
  unfolding read_write_race_def
  by (rule conc_test_ends_well [where Rx = "\<lambda>_ _ _. True" and
        J = "\<lambda>D c. c = test_key_is (race_value D) \<and> (D \<noteq> {} \<longrightarrow> 0 \<in> D)"];
      (intro test_parts_safe)?; (use assms in \<open>auto simp: test_simps race_value_def\<close>))

lemma threaded_reads_consistent_ok:
  assumes "cfg_ok cfg (suite_desc 1)"
  shows "conc_test B cfg (threaded_reads_consistent (be_impl B))"
  unfolding threaded_reads_consistent_def Let_def
  by (rule conc_test_ends_well [where Rx = "\<lambda>_ _ v. v = [0x77, 0x88, 0x99]" and
        J = "\<lambda>D c. D \<subseteq> {0} \<and> c = test_key_is (if 0 \<in> D then Some [0x77, 0x88, 0x99] else None)"];
      (intro test_parts_safe)?; (use assms in \<open>auto simp: test_simps\<close>))

lemma write_different_keys_and_iterate_ok:
  assumes "cfg_ok cfg (suite_desc 1)"
  shows "conc_test B cfg (write_different_keys_and_iterate (be_impl B))"
  unfolding write_different_keys_and_iterate_def
  by (rule conc_test_ends_well [where Rx = "\<lambda>_ d _. d" and J = "\<lambda>D c. c = keys_written D"];
      (intro test_parts_safe)?; (use assms in \<open>auto simp: test_simps_keys\<close>))

lemma safe_add_thread:
  assumes "i = 1 \<and> n = 5 \<or> i = 2 \<and> n = 3" and "0 \<in> K"
  shows "thread_safe conc (\<lambda>D c. c = test_key_is (sum_value D) \<and> (D \<noteq> {} \<longrightarrow> 0 \<in> D)) (\<lambda>_ d _. d) K i False NoTx
    (add_thread (be_impl B) n)"
  unfolding add_thread_def MAPID_def fst_conv
proof (intro safe_thr op_start_rw op_read_rw)
  let ?J = "\<lambda>D c. c = test_key_is (sum_value D) \<and> (D \<noteq> {} \<longrightarrow> 0 \<in> D)"
  fix w D c ops
  assume J: "?J D c" and D: "K \<subseteq> D" "(i \<in> D) = False" and ops: "reads key_ok ops c"
  define b where "b = (if 1 \<in> D then 5 else 0 :: byte) + (if 2 \<in> D then 3 else 0)"
  have z: "0 \<in> D" using D(1) assms(2) by blast
  then have v: "sum_value D = Some [b]" by (auto simp: sum_value_def b_def)
  have "get_test_key ops = Ok (Some [b])" using test_key_get [of key_ok ops] ops J v by simp
  moreover have "u8_add b n = Ok (b + n)" using assms D by (auto simp: u8_add_def b_def)
  moreover have "sum_value (insert i D) = Some [b + n]" using assms D by (auto simp: sum_value_def b_def)
  moreover have "thread_safe conc ?J (\<lambda>_ d _. d) K i False (RwTx w D c)
      (thr (tx_put (be_impl B) (DbMapId 0) TEST_KEY [b + n] w) (\<lambda>dbtx. thr (tx_commit (be_impl B) dbtx) Return))"
    by (intro safe_thr op_put op_commit thread_safe.t_return) (use J z calculation(3) in simp_all)
  ultimately show "\<exists>x. o_bind (o_bind (get_test_key ops) opt_unwrap)
        (\<lambda>v. o_bind (opt_unwrap (list_first v)) (\<lambda>b. u8_add b n)) = Ok x \<and>
      thread_safe conc ?J (\<lambda>_ d _. d) K i False (RwTx w D c)
      (thr (tx_put (be_impl B) (DbMapId 0) TEST_KEY [x] w) (\<lambda>dbtx. thr (tx_commit (be_impl B) dbtx) Return))"
    by (auto simp: list_first_def)
qed

lemma commutative_read_modify_write_ok:
  assumes "cfg_ok cfg (suite_desc 1)"
  shows "conc_test B cfg (commutative_read_modify_write (be_impl B))"
  unfolding commutative_read_modify_write_def
  by (rule conc_test_ends_well [where Rx = "\<lambda>_ d _. d" and
        J = "\<lambda>D c. c = test_key_is (sum_value D) \<and> (D \<noteq> {} \<longrightarrow> 0 \<in> D)"];
      (intro test_parts_safe safe_add_thread)?;
      (use assms in \<open>auto simp: test_simps sum_value_def numeral_2_eq_2\<close>))

end

end
