(* ===== verification/Concurrent_Backends.thy ===== *)
theory Concurrent_Backends
  imports In_Memory Sqlite_Contract Lmdb_Snapshots Suite_Concurrent
begin

text \<open>
  The backends under the concurrent contract. The locking adaptor lets many readers in at once, all
  of them reading the store itself, or one writer, whose changes stay in its own deltas until it
  commits. SQLite lets one transaction of either kind in. LMDB gives readers snapshots, beside one
  writer. So the concurrent tests end well on all three.
\<close>

section \<open>The locking adaptor\<close>

definition lk_shared :: "('t \<Rightarrow> contents) \<Rightarrow> ('t \<Rightarrow> bool) \<Rightarrow> 't lock_impl \<Rightarrow> contents \<Rightarrow> nat \<Rightarrow> bool" where
  "lk_shared view valid s c n \<longleftrightarrow> rw_readers (li_db s) = n \<and> \<not> rw_writer (li_db s) \<and> \<not> rw_poisoned (li_db s) \<and>
     valid (locked_db s) \<and> view (locked_db s) = c \<and> length c = count_as_usize (li_num_maps s)"

definition lk_conc :: "('t \<Rightarrow> contents) \<Rightarrow> ('t \<Rightarrow> bool) \<Rightarrow> 't lock_impl \<Rightarrow> contents \<Rightarrow>
    (tx_ro \<times> contents) multiset \<Rightarrow> (tx_rw \<times> contents) multiset \<Rightarrow> bool" where
  "lk_conc view valid s c R W \<longleftrightarrow>
     W = {#} \<and> lk_shared view valid s c (size R) \<and> (\<forall>(t, v) \<in># R. v = c) \<or>
     R = {#} \<and> (\<exists>w v. W = {#(w, v)#} \<and> lk_rw view valid w s c v)"

lemma lk_shared_idle: "lk_shared view valid s c 0 = lk_idle view valid s c"
  by (auto simp: lk_shared_def lk_idle_def lock_free_def)

lemma lk_concE:
  assumes "lk_conc view valid s c R W"
  obtains (shared) "W = {#}" "lk_shared view valid s c (size R)" "\<And>t v. (t, v) \<in># R \<Longrightarrow> v = c"
    | (writer) w v where "R = {#}" "W = {#(w, v)#}" "lk_rw view valid w s c v"
  using assms unfolding lk_conc_def by fastforce

lemma lk_conc_idle: "lk_idle view valid s c \<Longrightarrow> lk_conc view valid s c {#} {#}"
  by (simp add: lk_conc_def lk_shared_idle)

lemma lk_conc_writer: "lk_conc view valid s c R {#(w, v)#} \<longleftrightarrow> R = {#} \<and> lk_rw view valid w s c v"
  by (auto simp: lk_conc_def)

context locking_adaptor
begin

lemmas lk_impl = locking_backend_def locking_impl_def

lemma shared_begin_ro:
  "lk_shared view valid s c n \<Longrightarrow>
    \<exists>t s'. transaction_ro (be_impl (locking_backend mjb ops)) s = (Ok t, s') \<and> lk_shared view valid s' c (Suc n)"
  by (auto simp: lk_impl locking_transaction_ro_def rwlock_read_def lk_shared_def locked_db_def)

lemma shared_drop:
  "lk_shared view valid s c (Suc n) \<Longrightarrow>
    lk_shared view valid (ro_drop (be_impl (locking_backend mjb ops)) t s) c n"
  by (auto simp: lk_impl tx_ro_drop_def drop_read_guard_def lk_shared_def locked_db_def)

lemma shared_no_writer:
  "lk_shared view valid s c n \<Longrightarrow> 0 < n \<Longrightarrow>
    transaction_rw (be_impl (locking_backend mjb ops)) s sz = (Blocked, s)"
  by (auto simp: lk_impl locking_transaction_rw_def rwlock_write_def lk_shared_def)

lemma writer_excludes:
  "lk_rw view valid w s b c \<Longrightarrow>
    transaction_ro (be_impl (locking_backend mjb ops)) s = (Blocked, s) \<and>
    transaction_rw (be_impl (locking_backend mjb ops)) s sz = (Blocked, s)"
  by (auto simp: lk_impl locking_transaction_ro_def locking_transaction_rw_def rwlock_read_def rwlock_write_def
      lk_rw_def)

lemma shared_get:
  "lk_shared view valid s c n \<Longrightarrow> i < length c \<Longrightarrow>
    ro_get (be_impl (locking_backend mjb ops)) t s (DbMapId i) k = Ok (bt_get (c ! i) k)"
  by (auto simp: lk_impl tx_ro_get_def lk_shared_def intro: get_spec)

lemma shared_iter:
  "lk_shared view valid s c n \<Longrightarrow> i < length c \<Longrightarrow>
    ro_prefix_iter (be_impl (locking_backend mjb ops)) t s (DbMapId i) p = Ok (bt_prefix p (c ! i))"
  by (auto simp: lk_impl tx_ro_prefix_iter_def lk_shared_def intro: prefix_iter_spec)

lemma rw_base: "lk_rw view valid w s b c \<Longrightarrow> contents_ok b"
  by (auto simp: lk_rw_def intro: view_ok)

sublocale lkc: concurrent_backend "locking_backend mjb ops" "\<lambda>_ _. True" "\<lambda>_. True" "lk_conc view valid"
proof unfold_locales
  fix s c R W
  assume conc: "lk_conc view valid s c R W"
  show "contents_ok c"
    using conc by (rule lk_concE) (auto simp: lk_shared_def intro: view_ok rw_base)
  show "size W \<le> 1" using conc by (rule lk_concE) simp_all
  show "contents_ok v" if "(t, v) \<in># R" for t v
    using conc by (rule lk_concE) (use that in \<open>auto simp: lk_shared_def intro: view_ok\<close>)
  show "contents_ok v \<and> length v = length c" if "(w, v) \<in># W" for w v
    using conc by (rule lk_concE) (use that in \<open>auto dest: lk_rw_ok\<close>)
  show "(\<exists>t s'. transaction_ro (be_impl (locking_backend mjb ops)) s = (Ok t, s') \<and>
        lk_conc view valid s' c (add_mset (t, c) R) W) \<or>
      transaction_ro (be_impl (locking_backend mjb ops)) s = (Blocked, s) \<and> (R \<noteq> {#} \<or> W \<noteq> {#})"
    using conc
  proof (cases rule: lk_concE)
    case shared
    with shared_begin_ro [OF shared(2)] show ?thesis by (fastforce simp: lk_conc_def)
  next
    case writer
    with writer_excludes [OF writer(3)] show ?thesis by simp
  qed
  show "(\<exists>w s'. transaction_rw (be_impl (locking_backend mjb ops)) s sz = (Ok w, s') \<and> W = {#} \<and>
        lk_conc view valid s' c R {#(w, c)#}) \<or>
      transaction_rw (be_impl (locking_backend mjb ops)) s sz = (Blocked, s) \<and> (R \<noteq> {#} \<or> W \<noteq> {#})" for sz
    using conc
  proof (cases rule: lk_concE)
    case shared
    show ?thesis
    proof (cases "R = {#}")
      case True
      with shared have "lk_idle view valid s c" by (simp add: lk_shared_idle)
      from lk.begin_rw_spec [OF this, of sz] True shared(1) show ?thesis by (auto simp: lk_conc_writer)
    next
      case False
      then have "0 < size R" by (simp add: nonempty_has_size [symmetric])
      from shared_no_writer [OF shared(2) this] False show ?thesis by simp
    qed
  next
    case writer
    with writer_excludes [OF writer(3)] show ?thesis by simp
  qed
  show "ro_get (be_impl (locking_backend mjb ops)) t s (DbMapId i) k = Ok (bt_get (v ! i) k)"
    if "(t, v) \<in># R" "i < length v" for t v i k
    using conc by (rule lk_concE) (use that shared_get in auto)
  show "ro_prefix_iter (be_impl (locking_backend mjb ops)) t s (DbMapId i) p = Ok (bt_prefix p (v ! i))"
    if "(t, v) \<in># R" "i < length v" for t v i p
    using conc by (rule lk_concE) (use that shared_iter in auto)
  show "rw_get (be_impl (locking_backend mjb ops)) w s (DbMapId i) k = Ok (bt_get (v ! i) k)"
    if "(w, v) \<in># W" "i < length v" for w v i k
    using conc by (rule lk_concE) (use that lk.rw_get_spec in auto)
  show "rw_prefix_iter (be_impl (locking_backend mjb ops)) w s (DbMapId i) p = Ok (bt_prefix p (v ! i))"
    if "(w, v) \<in># W" "i < length v" for w v i p
    using conc by (rule lk_concE) (use that lk.rw_iter_spec in auto)
next
  fix s c t v R W
  assume "lk_conc view valid s c (add_mset (t, v) R) W"
  then show "lk_conc view valid (ro_drop (be_impl (locking_backend mjb ops)) t s) c R W"
    by (rule lk_concE) (auto simp: lk_conc_def intro: shared_drop)
qed (use lk.open_spec lk.rw_put_spec lk.rw_del_spec lk.rw_commit_spec lk.rw_drop_spec in
    \<open>fastforce simp: lk_conc_writer intro: lk_conc_idle\<close>)+

lemmas locking_concurrent = lkc.concurrent_backend_axioms

end

section \<open>SQLite\<close>

context sqlite_engine
begin

lemma sqlite_exclusive:
  "exclusive_backend (sqlite_backend Q)
     (\<lambda>cfg d. fresh_mode (sqlite_mode cfg) \<and>
        (\<forall>desc \<in> set (maps_vec (map_descs d)). ident_ok (desc_name desc)) \<and>
        distinct (map (\<lambda>desc. sql_fold (desc_name desc)) (maps_vec (map_descs d))))
     (\<lambda>_. True) (sq_idle q_idle) (sq_ro q_tx) (sq_rw q_tx)"
proof (rule exclusive_backend.intro [OF sqlite_contract], unfold_locales)
  show "contents_ok b" if "sq_rw q_tx w s b c" for w s b c
    using that by (auto simp: sq_rw_def sq_holds_def contents_ok_def list_all_length)
qed (simp_all add: sqlite_backend_def sqlite_impl_ops_def sq_ro_def sq_rw_def sqlite_start_transaction_def
    sq_contents_ok)

end

section \<open>The concurrent tests on the backends\<close>

interpretation im_lock: locking_adaptor storage_maps_ops maps_view maps_valid join_ref
  by (rule locking_adaptor.intro) (rule mem.core_store_axioms, rule join_ref.merge_join_axioms)

lemma in_memory_impl: "be_impl (in_memory_backend mjb) = be_impl (locking_backend mjb storage_maps_ops)"
  by (simp add: in_memory_backend_def locking_backend_def)

lemma in_memory_open_eq: "be_open (in_memory_backend mjb) cfg d =
    be_open (locking_backend mjb storage_maps_ops) (in_memory_locking cfg) d"
  by (simp add: in_memory_backend_def locking_backend_def in_memory_open_def)

lemma in_memory_concurrent:
  assumes "merge_join mjb"
  shows "concurrent_backend (in_memory_backend mjb) (\<lambda>_ _. True) (\<lambda>_. True) (lk_conc maps_view maps_valid)"
proof -
  have "locking_adaptor storage_maps_ops maps_view maps_valid mjb"
    using mem.core_store_axioms assms by (rule locking_adaptor.intro)
  then have "concurrent_backend (locking_backend mjb storage_maps_ops) (\<lambda>_ _. True) (\<lambda>_. True)
      (lk_conc maps_view maps_valid)"
    by (rule locking_adaptor.locking_concurrent)
  then show ?thesis
    unfolding concurrent_backend_def by (simp add: in_memory_impl in_memory_open_eq)
qed

interpretation imc: concurrent_backend "in_memory_backend join_ref" "\<lambda>_ _. True" "\<lambda>_. True"
  "lk_conc maps_view maps_valid"
  by (rule in_memory_concurrent) (rule join_ref.merge_join_axioms)

interpretation sqlite_excl: exclusive_backend "sqlite_backend ref_sqlite"
  "\<lambda>cfg d. sqlite_mode cfg \<noteq> existing_file \<and> (\<forall>desc \<in> set (maps_vec (map_descs d)). True) \<and>
     distinct (map (\<lambda>desc. sql_fold (desc_name desc)) (maps_vec (map_descs d)))"
  "\<lambda>_. True" "sq_idle ref_conn_idle" "sq_ro ref_conn_tx" "sq_rw ref_conn_tx"
  by (rule sqlite_ref.sqlite_exclusive)

text \<open>
  C13. Every concurrent test of the suite ends well on every backend that keeps the concurrent contract:
  under every schedule of the threads no assertion fails, no operation fails or panics, nobody waits
  forever, the addition to the byte never overflows, and the run is finite.
\<close>

theorem concurrent_tests_end_well:
  assumes "concurrent_backend B cfg_ok key_ok conc" and "cfg_ok cfg (suite_desc 1)"
  shows "conc_test B cfg (commutative_read_modify_write (be_impl B)) \<and>
    conc_test B cfg (read_initialize_race (be_impl B)) \<and>
    conc_test B cfg (read_write_race (be_impl B)) \<and>
    conc_test B cfg (threaded_reads_consistent (be_impl B)) \<and>
    conc_test B cfg (write_different_keys_and_iterate (be_impl B))"
  using assms(2) concurrent_backend.commutative_read_modify_write_ok [OF assms(1)]
    concurrent_backend.read_initialize_race_ok [OF assms(1)] concurrent_backend.read_write_race_ok [OF assms(1)]
    concurrent_backend.threaded_reads_consistent_ok [OF assms(1)]
    concurrent_backend.write_different_keys_and_iterate_ok [OF assms(1)]
  by simp

text \<open>
  On the in-memory backend, and on LMDB and SQLite over an environment and a connection that behave as
  documented.
\<close>

theorem concurrent_tests_end_well_witness:
  "conc_test (in_memory_backend join_ref) in_memory_new
     (commutative_read_modify_write (be_impl (in_memory_backend join_ref))) \<and>
   conc_test (lmdb_backend mvcc_engine) (lmdb_new mvcc_engine ''path'' ims_default () (MapResizeCallback None))
     (commutative_read_modify_write (be_impl (lmdb_backend mvcc_engine))) \<and>
   conc_test (sqlite_backend ref_sqlite) sqlite_new_in_memory
     (commutative_read_modify_write (be_impl (sqlite_backend ref_sqlite)))"
proof (intro conjI)
  show "conc_test (in_memory_backend join_ref) in_memory_new
      (commutative_read_modify_write (be_impl (in_memory_backend join_ref)))"
    using concurrent_tests_end_well [OF imc.concurrent_backend_axioms, of in_memory_new] by simp
  have "count_as_usize (desc_map_count (suite_desc 1)) < 2 ^ 32"
    by (simp add: suite_desc_def desc_map_count_def maps_map_count_def)
  then show "conc_test (lmdb_backend mvcc_engine)
      (lmdb_new mvcc_engine ''path'' ims_default () (MapResizeCallback None))
      (commutative_read_modify_write (be_impl (lmdb_backend mvcc_engine)))"
    using concurrent_tests_end_well [OF mvcc.lmdb_concurrent] by simp
  have "sqlite_mode sqlite_new_in_memory \<noteq> existing_file"
    by (simp add: sqlite_new_in_memory_def existing_file_def)
  moreover have "distinct (map (\<lambda>d. sql_fold (desc_name d)) (maps_vec (map_descs (suite_desc 1))))"
    by (simp add: suite_desc_def)
  ultimately show "conc_test (sqlite_backend ref_sqlite) sqlite_new_in_memory
      (commutative_read_modify_write (be_impl (sqlite_backend ref_sqlite)))"
    using concurrent_tests_end_well [OF sqlite_excl.one_tx.concurrent_backend_axioms, of sqlite_new_in_memory]
    by simp
qed

end
