(* ===== verification/Backend_Equivalence.thy ===== *)
theory Backend_Equivalence
  imports In_Memory Sqlite_Contract Suite_Model
begin

text \<open>
  Backends are interchangeable: a client that runs transactions one after the other gets the same
  answers from every backend that keeps the contract, namely those of a plain array of ordered maps.
  A client is a script of transactions; its answers are the results of its reads.
\<close>

datatype script_op = ScriptGet nat data | ScriptScan nat data | ScriptPut nat data data | ScriptDel nat data

datatype script_tx =
  ReadTx "script_op list"
| WriteTx "script_op list" bool

datatype answer = Value "data option" | Entries "(data \<times> data) list" | Written

section \<open>Scripts on a backend\<close>

fun ro_script :: "('s, 'ro, 'rw) backend_impl \<Rightarrow> script_op list \<Rightarrow> 'ro \<Rightarrow> ('s, answer list) prog" where
  "ro_script I [] tx = p_return []"
| "ro_script I (ScriptGet i k # ops) tx =
     p_bind (read_ro I tx (\<lambda>t. o_unwrap (r_get t (DbMapId i) k))) (\<lambda>v.
     p_bind (ro_script I ops tx) (\<lambda>as. p_return (Value v # as)))"
| "ro_script I (ScriptScan i p # ops) tx =
     p_bind (read_ro I tx (\<lambda>t. o_unwrap (r_prefix_iter t (DbMapId i) p))) (\<lambda>es.
     p_bind (ro_script I ops tx) (\<lambda>as. p_return (Entries es # as)))"
| "ro_script I (_ # ops) tx = ro_script I ops tx"

fun rw_script :: "('s, 'ro, 'rw) backend_impl \<Rightarrow> script_op list \<Rightarrow> 'rw \<Rightarrow> ('s, answer list \<times> 'rw) prog" where
  "rw_script I [] tx = p_return ([], tx)"
| "rw_script I (ScriptGet i k # ops) tx =
     p_bind (read_rw I tx (\<lambda>t. o_unwrap (r_get t (DbMapId i) k))) (\<lambda>v.
     p_bind (rw_script I ops tx) (\<lambda>r. p_return (Value v # fst r, snd r)))"
| "rw_script I (ScriptScan i p # ops) tx =
     p_bind (read_rw I tx (\<lambda>t. o_unwrap (r_prefix_iter t (DbMapId i) p))) (\<lambda>es.
     p_bind (rw_script I ops tx) (\<lambda>r. p_return (Entries es # fst r, snd r)))"
| "rw_script I (ScriptPut i k v # ops) tx =
     p_bind (tx_put I (DbMapId i) k v tx) (\<lambda>tx.
     p_bind (rw_script I ops tx) (\<lambda>r. p_return (Written # fst r, snd r)))"
| "rw_script I (ScriptDel i k # ops) tx =
     p_bind (tx_del I (DbMapId i) k tx) (\<lambda>tx.
     p_bind (rw_script I ops tx) (\<lambda>r. p_return (Written # fst r, snd r)))"

text \<open>A script ends its read-write transactions with a commit or by dropping them.\<close>

fun script :: "('s, 'ro, 'rw) backend_impl \<Rightarrow> script_tx list \<Rightarrow> ('s, answer list list) prog" where
  "script I [] = p_return []"
| "script I (ReadTx ops # txs) =
     p_bind (start_ro I) (\<lambda>tx.
     p_bind (ro_script I ops tx) (\<lambda>as.
     p_then (drop_ro I tx) (
     p_bind (script I txs) (\<lambda>rest. p_return (as # rest)))))"
| "script I (WriteTx ops commit # txs) =
     p_bind (start_rw I) (\<lambda>tx.
     p_bind (rw_script I ops tx) (\<lambda>r.
     p_then (if commit then tx_commit I (snd r) else drop_rw I (snd r)) (
     p_bind (script I txs) (\<lambda>rest. p_return (fst r # rest)))))"

section \<open>Scripts on an array of ordered maps\<close>

fun spec_ops :: "script_op list \<Rightarrow> contents \<Rightarrow> answer list \<times> contents" where
  "spec_ops [] c = ([], c)"
| "spec_ops (ScriptGet i k # ops) c = apfst ((#) (Value (bt_get (c ! i) k))) (spec_ops ops c)"
| "spec_ops (ScriptScan i p # ops) c = apfst ((#) (Entries (bt_prefix p (c ! i)))) (spec_ops ops c)"
| "spec_ops (ScriptPut i k v # ops) c = apfst ((#) Written) (spec_ops ops (contents_put i k v c))"
| "spec_ops (ScriptDel i k # ops) c = apfst ((#) Written) (spec_ops ops (contents_del i k c))"

fun is_read :: "script_op \<Rightarrow> bool" where
  "is_read (ScriptGet i k) = True"
| "is_read (ScriptScan i p) = True"
| "is_read _ = False"

fun spec_script :: "script_tx list \<Rightarrow> contents \<Rightarrow> answer list list" where
  "spec_script [] c = []"
| "spec_script (ReadTx ops # txs) c = fst (spec_ops (filter is_read ops) c) # spec_script txs c"
| "spec_script (WriteTx ops commit # txs) c =
     (case spec_ops ops c of (as, c') \<Rightarrow> as # spec_script txs (if commit then c' else c))"

text \<open>The operations name maps that exist and keys that the backend accepts.\<close>

fun op_fits :: "nat \<Rightarrow> (data \<Rightarrow> bool) \<Rightarrow> script_op \<Rightarrow> bool" where
  "op_fits n key_ok (ScriptGet i k) \<longleftrightarrow> i < n \<and> key_ok k"
| "op_fits n key_ok (ScriptScan i p) \<longleftrightarrow> i < n"
| "op_fits n key_ok (ScriptPut i k v) \<longleftrightarrow> i < n \<and> key_ok k"
| "op_fits n key_ok (ScriptDel i k) \<longleftrightarrow> i < n \<and> key_ok k"

fun tx_fits :: "nat \<Rightarrow> (data \<Rightarrow> bool) \<Rightarrow> script_tx \<Rightarrow> bool" where
  "tx_fits n key_ok (ReadTx ops) \<longleftrightarrow> list_all (op_fits n key_ok) ops"
| "tx_fits n key_ok (WriteTx ops commit) \<longleftrightarrow> list_all (op_fits n key_ok) ops"

lemma length_spec_ops [simp]: "length (snd (spec_ops ops c)) = length c"
  by (induction ops c rule: spec_ops.induct) auto

context backend_contract
begin

lemma runs_ro_script:
  assumes "ro_open tx s c" and "contents_ok c" and "list_all (op_fits (length c) key_ok) ops"
  shows "runs (ro_script (be_impl B) ops tx) s (\<lambda>as s'. ro_open tx s' c \<and> as = fst (spec_ops (filter is_read ops) c))"
  using assms(1,3)
proof (induction ops arbitrary: s)
  case Nil
  then show ?case by (auto intro: runs_return)
next
  case (Cons op ops)
  note IH = Cons.IH [OF Cons.prems(1)]
  show ?case
  proof (cases op)
    case (ScriptGet i k)
    have "o_unwrap (r_get t (DbMapId i) k) = (Ok (bt_get (c ! i) k) :: data option res)" if "reads key_ok t c" for t
      using that ScriptGet Cons.prems by (simp add: reads_def)
    then show ?thesis
      using ScriptGet Cons.prems IH assms(2)
      by (auto intro!: runs_bind runs_read_ro [OF Cons.prems(1) assms(2)] runs_return elim: runs_mono)
  next
    case (ScriptScan i p)
    have "o_unwrap (r_prefix_iter t (DbMapId i) p) = (Ok (bt_prefix p (c ! i)) :: (data \<times> data) list res)"
      if "reads key_ok t c" for t
      using that ScriptScan Cons.prems by (simp add: reads_def)
    then show ?thesis
      using ScriptScan Cons.prems IH assms(2)
      by (auto intro!: runs_bind runs_read_ro [OF Cons.prems(1) assms(2)] runs_return elim: runs_mono)
  qed (use Cons.prems IH in simp_all)
qed

lemma runs_rw_script:
  assumes "rw_open tx s b c" and "list_all (op_fits (length c) key_ok) ops"
  shows "runs (rw_script (be_impl B) ops tx) s
    (\<lambda>r s'. rw_open (snd r) s' b (snd (spec_ops ops c)) \<and> fst r = fst (spec_ops ops c))"
  using assms
proof (induction ops arbitrary: tx s c)
  case Nil
  then show ?case by (auto intro: runs_return)
next
  case (Cons op ops)
  show ?case
  proof (cases op)
    case (ScriptGet i k)
    have "o_unwrap (r_get t (DbMapId i) k) = (Ok (bt_get (c ! i) k) :: data option res)" if "reads key_ok t c" for t
      using that ScriptGet Cons.prems by (simp add: reads_def)
    then show ?thesis
      using ScriptGet Cons.prems Cons.IH [OF Cons.prems(1)]
      by (auto intro!: runs_bind runs_read_rw [OF Cons.prems(1)] runs_return elim: runs_mono)
  next
    case (ScriptScan i p)
    have "o_unwrap (r_prefix_iter t (DbMapId i) p) = (Ok (bt_prefix p (c ! i)) :: (data \<times> data) list res)"
      if "reads key_ok t c" for t
      using that ScriptScan Cons.prems by (simp add: reads_def)
    then show ?thesis
      using ScriptScan Cons.prems Cons.IH [OF Cons.prems(1)]
      by (auto intro!: runs_bind runs_read_rw [OF Cons.prems(1)] runs_return elim: runs_mono)
  next
    case (ScriptPut i k v)
    with Cons.prems show ?thesis
      by (auto intro!: runs_bind runs_tx_put [OF Cons.prems(1)] runs_return elim: runs_mono [OF Cons.IH])
  next
    case (ScriptDel i k)
    with Cons.prems show ?thesis
      by (auto intro!: runs_bind runs_tx_del [OF Cons.prems(1)] runs_return elim: runs_mono [OF Cons.IH])
  qed
qed

lemma runs_script:
  assumes "idle s c" and "list_all (tx_fits (length c) key_ok) txs"
  shows "runs (script (be_impl B) txs) s (\<lambda>as s'. as = spec_script txs c)"
  using assms
proof (induction txs arbitrary: s c)
  case Nil
  then show ?case by (auto intro: runs_return)
next
  case (Cons t txs)
  show ?case
  proof (cases t)
    case (ReadTx ops)
    with Cons.prems show ?thesis
      by (auto intro!: runs_bind runs_then runs_start_ro [OF Cons.prems(1)] runs_drop_ro runs_return
          elim!: runs_mono [OF runs_ro_script] runs_mono [OF Cons.IH])
  next
    case (WriteTx ops commit)
    obtain as c' where sp: "spec_ops ops c = (as, c')" by fastforce
    with length_spec_ops [of ops c] have "length c' = length c" by simp
    with sp WriteTx Cons.prems show ?thesis
      by (auto intro!: runs_bind runs_then runs_start_rw [OF Cons.prems(1)] runs_drop_rw runs_tx_commit runs_return
          elim!: runs_mono [OF runs_rw_script] runs_mono [OF Cons.IH] split: prod.splits)
  qed
qed

lemma script_answers:
  assumes "cfg_ok cfg (suite_desc n)" and "list_all (tx_fits n key_ok) txs"
  shows "with_store B cfg n (script (be_impl B) txs) = Ok (spec_script txs (empty_contents n))"
proof -
  have "distinct (map desc_name (maps_vec (map_descs (suite_desc n))))"
    using suite_names_distinct [of n] by (simp add: suite_desc_def)
  from open_spec [OF assms(1) this] obtain s where
    s: "be_open B cfg (suite_desc n) = Ok s" "idle s (empty_contents n)" by auto
  from runs_script [OF s(2)] assms(2) obtain s' where
    "script (be_impl B) txs s = (Ok (spec_script txs (empty_contents n)), s')" by (auto simp: runs_def)
  with s(1) show ?thesis by (simp add: with_store_def desc_eq)
qed

end

lemma op_fits_mono: "op_fits n key_ok op \<Longrightarrow> op_fits n (\<lambda>_. True) op"
  by (cases op) simp_all

lemma tx_fits_mono: "tx_fits n key_ok tx \<Longrightarrow> tx_fits n (\<lambda>_. True) tx"
  by (cases tx) (auto simp: list_all_iff intro: op_fits_mono)

text \<open>
  C9. Backends are interchangeable: whatever script of transactions a client runs on a fresh store, over
  keys the backend accepts, a backend that keeps the contract and the in-memory backend give the same
  answers, and these are the answers of an array of ordered maps on which committed transactions act
  and aborted ones do not.
\<close>

theorem backends_interchangeable:
  assumes "backend_contract B cfg_ok key_ok idle ro_open rw_open"
    and "cfg_ok cfg (suite_desc n)" and "list_all (tx_fits n key_ok) txs"
  shows "with_store B cfg n (script (be_impl B) txs) =
      with_store (in_memory_backend join_ref) in_memory_new n (script (be_impl (in_memory_backend join_ref)) txs) \<and>
    with_store B cfg n (script (be_impl B) txs) = Ok (spec_script txs (empty_contents n))"
proof -
  have "list_all (tx_fits n (\<lambda>_. True)) txs"
    using assms(3) by (auto simp: list_all_iff intro: tx_fits_mono)
  then show ?thesis
    using backend_contract.script_answers [OF assms] im.script_answers [where cfg = in_memory_new and n = n and txs = txs] by simp
qed

theorem backends_interchangeable_witness:
  "with_store (sqlite_backend ref_sqlite) sqlite_new_in_memory 1
     (script (be_impl (sqlite_backend ref_sqlite))
        [WriteTx [ScriptPut 0 [1] [7], ScriptGet 0 [1]] True,
         WriteTx [ScriptDel 0 [1], ScriptScan 0 []] False,
         ReadTx [ScriptGet 0 [1], ScriptScan 0 []]]) =
   Ok [[Written, Value (Some [7])], [Written, Entries []], [Value (Some [7]), Entries [([1], [7])]]]"
proof -
  let ?txs = "[WriteTx [ScriptPut 0 [1] [7], ScriptGet 0 [1]] True,
    WriteTx [ScriptDel 0 [1], ScriptScan 0 []] False, ReadTx [ScriptGet 0 [1], ScriptScan 0 []]]"
  have "sqlite_mode sqlite_new_in_memory \<noteq> existing_file"
    by (simp add: sqlite_new_in_memory_def existing_file_def)
  moreover have "distinct (map (\<lambda>d. sql_fold (desc_name d)) (maps_vec (map_descs (suite_desc 1))))"
    by (simp add: suite_desc_def)
  moreover have "list_all (tx_fits 1 (\<lambda>_. True)) ?txs" by simp
  ultimately have "with_store (sqlite_backend ref_sqlite) sqlite_new_in_memory 1
      (script (be_impl (sqlite_backend ref_sqlite)) ?txs) = Ok (spec_script ?txs (empty_contents 1))"
    by (intro conjunct2 [OF backends_interchangeable [OF sqlite_ref.sqlite_contract]]) blast+
  also have "spec_script ?txs (empty_contents 1) =
      [[Written, Value (Some [7])], [Written, Entries []], [Value (Some [7]), Entries [([1], [7])]]]"
    by (simp add: contents_put_def contents_del_def bt_prefix_def bt_empty_def bt_get_def)
  finally show ?thesis .
qed

end
