(* ===== verification/Test_Utils.thy ===== *)
theory Test_Utils
  imports Prelude "HOL-Library.Multiset"
begin

text \<open>
  The test utilities (\<open>test-utils/src/lib.rs\<close> and \<open>random.rs\<close>): random texts, random partitions of a
  value, shuffling. A random number generator is a state with the operations of the \<open>rand\<close> crate the
  code uses, which are a parameter; the locale states the ranges their documentation promises.
\<close>

section \<open>Generators\<close>

record 'r rng =
  gen_u8 :: "'r \<Rightarrow> byte \<times> 'r"
  gen_usize :: "'r \<Rightarrow> usize \<times> 'r"
  gen_range :: "usize \<Rightarrow> usize \<Rightarrow> 'r \<Rightarrow> usize \<times> 'r"
  gen_range_u128 :: "128 word \<Rightarrow> 128 word \<Rightarrow> 'r \<Rightarrow> 128 word \<times> 'r"
  sample_alphanumeric :: "'r \<Rightarrow> byte \<times> 'r"

definition is_ascii_alphanumeric :: "byte \<Rightarrow> bool" where
  "is_ascii_alphanumeric b \<longleftrightarrow>
     (0x30 \<le> b \<and> b \<le> 0x39) \<or> (0x41 \<le> b \<and> b \<le> 0x5A) \<or> (0x61 \<le> b \<and> b \<le> 0x7A)"

locale uniform_rng =
  fixes G :: "'r rng"
  assumes range_bounds: "lo < hi \<Longrightarrow> lo \<le> fst (gen_range G lo hi r) \<and> fst (gen_range G lo hi r) < hi"
    and range_u128_bounds: "v < w \<Longrightarrow>
      v \<le> fst (gen_range_u128 G v w r) \<and> fst (gen_range_u128 G v w r) < w"
    and sample_ok: "is_ascii_alphanumeric (fst (sample_alphanumeric G r))"

text \<open>A generator that counts.\<close>

definition counting_rng :: "nat rng" where
  "counting_rng =
     \<lparr>gen_u8 = (\<lambda>r. (of_nat r, Suc r)),
      gen_usize = (\<lambda>r. (r mod 2 ^ 64, Suc r)),
      gen_range = (\<lambda>lo hi r. (lo + r mod (hi - lo), Suc r)),
      gen_range_u128 = (\<lambda>lo hi r. (lo + of_nat r mod (hi - lo), Suc r)),
      sample_alphanumeric = (\<lambda>r. (0x61 + of_nat (r mod 26), Suc r))\<rparr>"

lemma word_range_bounds:
  fixes lo hi x :: "'a :: len word"
  assumes "lo < hi"
  shows "lo \<le> lo + x mod (hi - lo) \<and> lo + x mod (hi - lo) < hi"
proof -
  have d: "0 < unat (hi - lo)" "unat (hi - lo) = unat hi - unat lo"
    using assms by (simp_all add: unat_sub word_less_nat_alt order_less_imp_le)
  then have "unat (x mod (hi - lo)) < unat hi - unat lo" by (simp add: unat_mod)
  moreover have "unat hi < 2 ^ LENGTH('a)" by simp
  ultimately have "unat (lo + x mod (hi - lo)) = unat lo + unat (x mod (hi - lo))"
    by (intro unat_add_lem [THEN iffD1]) linarith
  with \<open>unat (x mod (hi - lo)) < unat hi - unat lo\<close> show ?thesis
    by (simp add: word_less_nat_alt word_le_nat_alt)
qed

interpretation counting: uniform_rng counting_rng
proof
  fix r :: nat
  have "r mod 26 < 26" by simp
  then show "is_ascii_alphanumeric (fst (sample_alphanumeric counting_rng r))"
    by (simp add: counting_rng_def is_ascii_alphanumeric_def word_le_nat_alt unat_word_ariths unat_of_nat)
next
  fix lo hi r :: nat
  assume "lo < hi"
  then have "r mod (hi - lo) < hi - lo" by simp
  then show "lo \<le> fst (gen_range counting_rng lo hi r) \<and> fst (gen_range counting_rng lo hi r) < hi"
    by (simp add: counting_rng_def)
qed (simp add: counting_rng_def word_range_bounds)

section \<open>Random texts\<close>

text \<open>The loop of at most 1000 attempts.\<close>

fun sample_non_alphanumeric :: "'r rng \<Rightarrow> nat \<Rightarrow> 'r \<Rightarrow> (byte, 'e) outcome \<times> 'r" where
  "sample_non_alphanumeric G 0 r = (Panic ''couldn't sample non_ascii_alphanumeric_char'', r)"
| "sample_non_alphanumeric G (Suc n) r =
     (case gen_u8 G r of (random_byte, r) \<Rightarrow>
        if \<not> is_ascii_alphanumeric random_byte then (Ok random_byte, r)
        else sample_non_alphanumeric G n r)"

definition get_random_non_ascii_alphanumeric_byte :: "'r rng \<Rightarrow> 'r \<Rightarrow> (byte, 'e) outcome \<times> 'r" where
  "get_random_non_ascii_alphanumeric_byte G r = sample_non_alphanumeric G 1000 r"

fun text_tokens :: "'r rng \<Rightarrow> byte \<Rightarrow> usize \<Rightarrow> usize list \<Rightarrow> 'r \<Rightarrow> byte list \<times> 'r" where
  "text_tokens G c index_to_replace [] r = ([], r)"
| "text_tokens G c index_to_replace (idx # idxs) r =
     (case (if idx \<noteq> index_to_replace then sample_alphanumeric G r else (c, r)) of
        (b, r) \<Rightarrow> (case text_tokens G c index_to_replace idxs r of (bs, r) \<Rightarrow> (b # bs, r)))"

text \<open>The remainder by a zero \<open>max_len\<close> panics; a sum that overflows \<open>usize\<close> would need \<open>max_len = 2^64\<close>.\<close>

definition gen_text_with_non_ascii ::
    "byte \<Rightarrow> 'r rng \<Rightarrow> usize \<Rightarrow> 'r \<Rightarrow> (byte list, 'e) outcome \<times> 'r" where
  "gen_text_with_non_ascii c G max_len r =
     (if is_ascii_alphanumeric c then (Panic ''assertion failed: !c.is_ascii_alphanumeric()'', r)
      else (case gen_usize G r of (x, r) \<Rightarrow>
        if max_len = 0 then (Panic ''attempt to calculate the remainder with a divisor of zero'', r)
        else (let text_len = 1 + x mod max_len in
          case gen_usize G r of (y, r) \<Rightarrow>
          case text_tokens G c (y mod text_len) [0..<text_len] r of (bs, r) \<Rightarrow>
            (Ok (take text_len bs), r))))"

lemma text_tokens_shape:
  assumes "uniform_rng G"
  shows "list_all2 (\<lambda>idx b. if idx = j then b = c else is_ascii_alphanumeric b) idxs
    (fst (text_tokens G c j idxs r))"
proof (induction idxs arbitrary: r)
  case (Cons idx idxs)
  show ?case
    using Cons uniform_rng.sample_ok [OF assms, of r]
    by (auto simp: case_prod_beta)
qed simp

lemma sample_non_alphanumeric_result:
  "case fst (sample_non_alphanumeric G n r :: (byte, 'e) outcome \<times> 'r) of
     Ok b \<Rightarrow> \<not> is_ascii_alphanumeric b | Panic m \<Rightarrow> True | Err e \<Rightarrow> False | Blocked \<Rightarrow> False"
  by (induction n arbitrary: r) (simp_all split: prod.split)

section \<open>Partitions of a value\<close>

text \<open>
  \<open>split_value\<close>: the differences of neighbours in a sorted list from 0 to the value. The subtraction is
  checked.
\<close>

definition u128_sub :: "128 word \<Rightarrow> 128 word \<Rightarrow> (128 word, 'e) outcome" where
  "u128_sub a b = (if b \<le> a then Ok (a - b) else Panic ''attempt to subtract with overflow'')"

fun gen_numbers :: "'r rng \<Rightarrow> 128 word \<Rightarrow> nat \<Rightarrow> 'r \<Rightarrow> 128 word list \<times> 'r" where
  "gen_numbers G val 0 r = ([], r)"
| "gen_numbers G val (Suc n) r =
     (case gen_range_u128 G 1 val r of (x, r) \<Rightarrow>
        (case gen_numbers G val n r of (xs, r) \<Rightarrow> (x # xs, r)))"

fun window_differences :: "128 word list \<Rightarrow> (128 word, 'e) outcome list" where
  "window_differences (v0 # v1 # vs) = u128_sub v1 v0 # window_differences (v1 # vs)"
| "window_differences _ = []"

definition split_value :: "'r rng \<Rightarrow> 128 word \<Rightarrow> 'r \<Rightarrow> (128 word list, 'e) outcome \<times> 'r" where
  "split_value G val r =
     (let numbers = [0, val] in
      case gen_range G 0 10 r of (n, r) \<Rightarrow>
      case (if 1 < val \<and> 0 < n
            then (case gen_numbers G val (n + 1) r of (xs, r) \<Rightarrow> (sort (numbers @ xs), r))
            else (numbers, r)) of
        (numbers, r) \<Rightarrow> (o_collect (window_differences numbers), r))"

lemma window_differences_sum:
  assumes "sorted (v # vs)"
  shows "\<exists>ds. o_collect (window_differences (v # vs)) = (Ok ds :: (128 word list, 'e) outcome) \<and> length ds = length vs \<and>
    sum_list (map unat ds) + unat v = unat (last (v # vs))"
  using assms
proof (induction vs arbitrary: v)
  case (Cons w vs)
  have "sorted (w # vs)" using Cons.prems by simp
  from Cons.IH [OF this] obtain ds where ds:
    "o_collect (window_differences (w # vs)) = (Ok ds :: (128 word list, 'e) outcome)"
    "length ds = length vs" "sum_list (map unat ds) + unat w = unat (last (w # vs))" by blast
  have "v \<le> w" using Cons.prems by simp
  then have "unat (w - v) + unat v = unat w" by (simp add: unat_sub word_le_nat_alt)
  with ds \<open>v \<le> w\<close> show ?case by (auto simp: u128_sub_def)
qed simp

lemma gen_numbers_bounds:
  assumes "uniform_rng G" and "1 < val"
  shows "length (fst (gen_numbers G val n r)) = n \<and>
    (\<forall>x \<in> set (fst (gen_numbers G val n r)). 1 \<le> x \<and> x < val)"
  using uniform_rng.range_u128_bounds [OF assms]
  by (induction n arbitrary: r) (auto simp: case_prod_beta)

lemma sorted_le_last: "sorted xs \<Longrightarrow> x \<in> set xs \<Longrightarrow> x \<le> last xs"
  by (induction xs) auto

lemma sort_ends:
  fixes xs :: "'a :: linorder list"
  assumes "\<forall>x \<in> set xs. lo \<le> x \<and> x \<le> hi" and "lo \<in> set xs" and "hi \<in> set xs"
  shows "\<exists>ys. sort xs = lo # ys \<and> last (lo # ys) = hi \<and> length ys + 1 = length xs"
proof -
  have "sort xs \<noteq> []" using assms(2) by (metis empty_iff set_sort list.set(1))
  then obtain y ys where ys: "sort xs = y # ys" by (auto simp: neq_Nil_conv)
  have sorted: "sorted (y # ys)" using ys by (metis sorted_sort)
  have set_ys: "set (y # ys) = set xs" using ys by (metis set_sort)
  have "y = lo" using sorted set_ys assms(1,2) by (auto intro!: antisym)
  moreover have "last (y # ys) = hi"
  proof -
    have "last (y # ys) \<in> set xs" using set_ys last_in_set [of "y # ys"] by auto
    then have "last (y # ys) \<le> hi" using assms(1) by blast
    moreover have "hi \<in> set (y # ys)" using set_ys assms(3) by blast
    then have "hi \<le> last (y # ys)" using sorted by (rule sorted_le_last [rotated])
    ultimately show ?thesis by simp
  qed
  ultimately show ?thesis using ys by (metis length_Cons length_sort Suc_eq_plus1)
qed

lemma split_value_parts:
  assumes "uniform_rng G"
  shows "\<exists>parts r'. split_value G val r = (Ok parts :: (128 word list, 'e) outcome, r') \<and>
    sum_list (map unat parts) = unat val \<and>
    (length parts = 1 \<or> 3 \<le> length parts \<and> length parts \<le> 11)"
proof -
  obtain n r1 where n: "gen_range G 0 10 r = (n, r1)" by fastforce
  then have "n < 10" using uniform_rng.range_bounds [OF assms, of 0 10 r] by simp
  show ?thesis
  proof (cases "1 < val \<and> 0 < n")
    case True
    obtain xs r2 where xs: "gen_numbers G val (n + 1) r1 = (xs, r2)" by fastforce
    with gen_numbers_bounds [OF assms conjunct1 [OF True], of "n + 1" r1]
    have b: "length xs = n + 1" "\<forall>x \<in> set xs. x < val" by auto
    have "\<forall>x \<in> set ([0, val] @ xs). 0 \<le> x \<and> x \<le> val" using b(2) by auto
    from sort_ends [OF this] obtain ys where ys: "sort ([0, val] @ xs) = 0 # ys" "last (0 # ys) = val"
      "length ys + 1 = length ([0, val] @ xs)" by auto
    have "sorted (0 # ys)" using ys(1) by (metis sorted_sort)
    from window_differences_sum [OF this] obtain ds where
      "o_collect (window_differences (0 # ys)) = (Ok ds :: (128 word list, 'e) outcome)"
      "length ds = length ys" "sum_list (map unat ds) = unat val"
      using ys(2) by auto
    with True n xs ys \<open>n < 10\<close> b(1) show ?thesis by (simp add: split_value_def)
  next
    case False
    with n show ?thesis by (auto simp: split_value_def u128_sub_def)
  qed
qed

section \<open>Shuffling\<close>

definition slice_swap :: "'a list \<Rightarrow> nat \<Rightarrow> nat \<Rightarrow> 'a list" where
  "slice_swap xs i j = xs[i := xs ! j, j := xs ! i]"

text \<open>One pass over the indices from the last one down to 1.\<close>

fun shuffle_pass :: "'r rng \<Rightarrow> nat list \<Rightarrow> 'a list \<Rightarrow> bool \<Rightarrow> 'r \<Rightarrow> 'a list \<times> bool \<times> 'r" where
  "shuffle_pass G [] xs swapped r = (xs, swapped, r)"
| "shuffle_pass G (i # is) xs swapped r =
     (case gen_range G 0 (i + 1) r of (other_idx, r) \<Rightarrow>
        if other_idx \<noteq> i then shuffle_pass G is (slice_swap xs i other_idx) True r
        else shuffle_pass G is xs swapped r)"

fun shuffle_attempts :: "'r rng \<Rightarrow> nat \<Rightarrow> 'a list \<Rightarrow> 'r \<Rightarrow> ('a list, 'e) outcome \<times> 'r" where
  "shuffle_attempts G 0 xs r = (Panic ''Can't shuffle the slice'', r)"
| "shuffle_attempts G (Suc n) xs r =
     (case shuffle_pass G (rev [1..<length xs]) xs False r of (xs, swapped, r) \<Rightarrow>
        if swapped then (Ok xs, r) else shuffle_attempts G n xs r)"

definition shuffle_until_different :: "'r rng \<Rightarrow> 'a list \<Rightarrow> 'r \<Rightarrow> ('a list, 'e) outcome \<times> 'r" where
  "shuffle_until_different G xs r = (let MAX_ATTEMPTS = 1000 in shuffle_attempts G MAX_ATTEMPTS xs r)"

lemma length_slice_swap [simp]: "length (slice_swap xs i j) = length xs"
  by (simp add: slice_swap_def)

lemma mset_slice_swap [simp]:
  "i < length xs \<Longrightarrow> j < length xs \<Longrightarrow> mset (slice_swap xs i j) = mset xs"
  unfolding slice_swap_def by (rule mset_swap)

lemma nth_slice_swap:
  "i < length xs \<Longrightarrow> j < length xs \<Longrightarrow> slice_swap xs i j ! l = (if l = j then xs ! i else if l = i then xs ! j else xs ! l)"
  by (cases "l < length xs") (auto simp: slice_swap_def nth_list_update list_update_beyond)

text \<open>
  A pass permutes the slice; it leaves it alone unless it swaps, and the entry it swaps first does not
  move again.
\<close>

lemma shuffle_pass_spec:
  assumes "uniform_rng G"
  shows "j < length xs \<Longrightarrow> shuffle_pass G (rev [1..<Suc j]) xs swapped r = (ys, swapped', r') \<Longrightarrow>
    mset ys = mset xs \<and> (\<forall>l. j < l \<longrightarrow> ys ! l = xs ! l) \<and>
    (swapped \<longrightarrow> swapped') \<and> (\<not> swapped' \<longrightarrow> ys = xs) \<and>
    (swapped' \<and> \<not> swapped \<and> distinct xs \<longrightarrow> ys \<noteq> xs)"
proof (induction j arbitrary: xs swapped r)
  case (Suc j)
  obtain o_idx r1 where gen: "gen_range G 0 (Suc j + 1) r = (o_idx, r1)" by fastforce
  then have o_idx: "o_idx < Suc (Suc j)"
    using uniform_rng.range_bounds(1) [OF assms, of 0 "Suc j + 1" r] by simp
  have indices: "rev [1..<Suc (Suc j)] = Suc j # rev [1..<Suc j]" by simp
  show ?case
  proof (cases "o_idx = Suc j")
    case True
    with Suc.prems gen have "shuffle_pass G (rev [1..<Suc j]) xs swapped r1 = (ys, swapped', r')"
      unfolding indices by simp
    from Suc.IH [OF _ this] Suc.prems(1) show ?thesis by auto
  next
    case False
    let ?xs = "slice_swap xs (Suc j) o_idx"
    have "shuffle_pass G (rev [1..<Suc j]) ?xs True r1 = (ys, swapped', r')"
      using Suc.prems(2) gen False unfolding indices by simp
    from Suc.IH [OF _ this] Suc.prems(1) o_idx have IH:
      "mset ys = mset xs" "\<forall>l. j < l \<longrightarrow> ys ! l = ?xs ! l" "swapped'" by auto
    have moved: "?xs ! Suc j = xs ! o_idx" using Suc.prems(1) o_idx False by (simp add: nth_slice_swap)
    have "ys \<noteq> xs" if "distinct xs"
    proof
      assume "ys = xs"
      then have "xs ! Suc j = xs ! o_idx" using IH(2) moved by simp
      with that Suc.prems(1) o_idx False show False by (simp add: nth_eq_iff_index_eq)
    qed
    moreover have "\<forall>l. Suc j < l \<longrightarrow> ys ! l = xs ! l"
      using IH(2) Suc.prems(1) o_idx by (auto simp: nth_slice_swap)
    ultimately show ?thesis using IH by blast
  qed
qed simp

lemma shuffle_attempts_spec:
  assumes "uniform_rng G"
  shows "case fst (shuffle_attempts G n xs r :: ('a list, 'e) outcome \<times> 'r) of
      Ok ys \<Rightarrow> mset ys = mset xs \<and> (distinct xs \<longrightarrow> ys \<noteq> xs)
    | Panic m \<Rightarrow> True | Err e \<Rightarrow> False | Blocked \<Rightarrow> False"
proof (induction n arbitrary: r)
  case (Suc n)
  obtain ys swapped r1 where pass: "shuffle_pass G (rev [1..<length xs]) xs False r = (ys, swapped, r1)"
    by (metis prod_cases3)
  show ?case
  proof (cases xs)
    case Nil
    with pass Suc [of r1] show ?thesis by auto
  next
    case (Cons x xs')
    then have len: "length xs = Suc (length xs')" "length xs' < length xs" by simp_all
    from shuffle_pass_spec [OF assms len(2) pass [unfolded len(1)]] pass Suc [of r1]
    show ?thesis by auto
  qed
qed simp

lemma shuffle_short_panics:
  assumes "length xs < 2"
  shows "\<exists>m r'. (shuffle_attempts G n xs r :: ('a list, 'e) outcome \<times> 'r) = (Panic m, r')"
proof -
  have pass: "shuffle_pass G (rev [1..<length xs]) xs False r = (xs, False, r)" for r
    using assms by simp
  show ?thesis
  proof (induction n)
    case (Suc n)
    then show ?case by (simp only: shuffle_attempts.simps pass prod.case if_False)
  qed simp
qed

section \<open>Properties\<close>

text \<open>
  \<open>shuffle_until_different\<close> either panics or returns a permutation of the slice, which differs from
  the slice when its entries are distinct; a slice of fewer than two entries panics.
\<close>

lemma shuffle_permutes_and_differs:
  assumes "uniform_rng G"
  shows "case fst (shuffle_until_different G xs r :: ('a list, 'e) outcome \<times> 'r) of
      Ok ys \<Rightarrow> mset ys = mset xs \<and> (distinct xs \<longrightarrow> ys \<noteq> xs) \<and> 2 \<le> length xs
    | Panic m \<Rightarrow> True | Err e \<Rightarrow> False | Blocked \<Rightarrow> False"
proof (cases "length xs < 2")
  case True
  from shuffle_short_panics [OF True, where G = G and n = 1000 and r = r and 'e = 'e] show ?thesis
    by (auto simp: shuffle_until_different_def)
next
  case False
  with shuffle_attempts_spec [OF assms, where n = 1000 and xs = xs and r = r and 'e = 'e] show ?thesis
    by (simp add: shuffle_until_different_def split: outcome.splits)
qed

text \<open>
  C37. \<open>split_value\<close> never overflows or panics: it returns 1 or 3 to 11 parts that add up, as natural
  numbers, to the value.
\<close>

theorem split_value_partitions:
  assumes "uniform_rng G"
  shows "\<exists>parts r'. split_value G val r = (Ok parts :: (128 word list, 'e) outcome, r') \<and>
    sum_list (map unat parts) = unat val \<and>
    (length parts = 1 \<or> 3 \<le> length parts \<and> length parts \<le> 11)"
  using assms by (rule split_value_parts)

theorem split_value_partitions_witness:
  "\<exists>parts r'. split_value counting_rng 1000 3 = (Ok parts :: (128 word list, unit) outcome, r') \<and>
    sum_list (map unat parts) = 1000"
  using split_value_partitions [OF counting.uniform_rng_axioms, of 1000 3] by auto

text \<open>
  A text generated around a byte that is not alphanumeric has between 1 and \<open>max_len\<close> bytes, that
  byte once and alphanumeric bytes elsewhere; an alphanumeric byte or a zero length panics. The byte
  drawn for such a text is never alphanumeric.
\<close>

lemma generated_text_shape:
  assumes "uniform_rng G"
  shows "(case fst (gen_text_with_non_ascii c G max_len r :: (byte list, 'e) outcome \<times> 'r) of
      Ok bs \<Rightarrow> 1 \<le> length bs \<and> length bs \<le> max_len \<and>
        (\<exists>j < length bs. bs ! j = c \<and> (\<forall>l < length bs. l \<noteq> j \<longrightarrow> is_ascii_alphanumeric (bs ! l)))
    | Panic m \<Rightarrow> is_ascii_alphanumeric c \<or> max_len = 0
    | Err e \<Rightarrow> False | Blocked \<Rightarrow> False) \<and>
    (\<forall>b. fst (get_random_non_ascii_alphanumeric_byte G r) = (Ok b :: (byte, 'e) outcome) \<longrightarrow>
      \<not> is_ascii_alphanumeric b)"
proof
  obtain x r1 where x: "gen_usize G r = (x, r1)" by fastforce
  obtain y r2 where y: "gen_usize G r1 = (y, r2)" by fastforce
  define len where "len = 1 + x mod max_len"
  define j where "j = y mod len"
  define bs where "bs = fst (text_tokens G c j [0..<len] r2)"
  have len: "1 \<le> len" "0 < max_len \<Longrightarrow> len \<le> max_len" and "j < len"
    by (auto simp: len_def j_def Suc_leI)
  have "list_all2 (\<lambda>idx b. if idx = j then b = c else is_ascii_alphanumeric b) [0..<len] bs"
    unfolding bs_def using assms by (rule text_tokens_shape)
  then have bs: "length bs = len" "\<forall>l < len. if l = j then bs ! l = c else is_ascii_alphanumeric (bs ! l)"
    by (auto simp: list_all2_conv_all_nth)
  have ok: "fst (gen_text_with_non_ascii c G max_len r :: (byte list, 'e) outcome \<times> 'r) = Ok bs"
    if "\<not> is_ascii_alphanumeric c" "max_len \<noteq> 0"
    using that x y bs(1) unfolding bs_def j_def len_def
    by (simp add: gen_text_with_non_ascii_def case_prod_beta)
  show "case fst (gen_text_with_non_ascii c G max_len r :: (byte list, 'e) outcome \<times> 'r) of
      Ok bs \<Rightarrow> 1 \<le> length bs \<and> length bs \<le> max_len \<and>
        (\<exists>j < length bs. bs ! j = c \<and> (\<forall>l < length bs. l \<noteq> j \<longrightarrow> is_ascii_alphanumeric (bs ! l)))
    | Panic m \<Rightarrow> is_ascii_alphanumeric c \<or> max_len = 0
    | Err e \<Rightarrow> False | Blocked \<Rightarrow> False"
  proof (cases "is_ascii_alphanumeric c \<or> max_len = 0")
    case True
    then show ?thesis by (auto simp: gen_text_with_non_ascii_def case_prod_beta)
  next
    case False
    then have "\<exists>j < length bs. bs ! j = c \<and> (\<forall>l < length bs. l \<noteq> j \<longrightarrow> is_ascii_alphanumeric (bs ! l))"
      using bs \<open>j < len\<close> by auto
    with False ok len bs(1) show ?thesis by simp
  qed
  show "\<forall>b. fst (get_random_non_ascii_alphanumeric_byte G r) = (Ok b :: (byte, 'e) outcome) \<longrightarrow>
      \<not> is_ascii_alphanumeric b"
    using sample_non_alphanumeric_result [where G = G and n = 1000 and r = r and 'e = 'e]
    by (auto simp: get_random_non_ascii_alphanumeric_byte_def split: outcome.splits)
qed

end
