(* ===== verification/Resize_Tests.thy ===== *)
theory Resize_Tests
  imports Complex_Main Lmdb_Contract Test_Utils
begin

text \<open>
  The tests of automatic map resizing (\<open>storage/lmdb/src/resize_tests.rs\<close>): random data five times the
  size of the initial map is written entry by entry in transactions of its own, or in one transaction
  that starts over whenever the map is full. The loop that starts over is a partial function, whose
  value is \<open>None\<close> when it does not return.
\<close>

section \<open>Random data\<close>

fun gen_u8s :: "'r rng \<Rightarrow> nat \<Rightarrow> 'r \<Rightarrow> data \<times> 'r" where
  "gen_u8s G 0 r = ([], r)"
| "gen_u8s G (Suc n) r = (case gen_u8 G r of (b, r) \<Rightarrow> (case gen_u8s G n r of (bs, r) \<Rightarrow> (b # bs, r)))"

lemma length_gen_u8s [simp]: "length (fst (gen_u8s G n r)) = n"
  by (induction n arbitrary: r) (simp_all split: prod.split, metis fst_conv)

text \<open>\<open>1 + rng.gen::<usize>() % max\<close>; the remainder by zero panics.\<close>

definition random_size :: "'r rng \<Rightarrow> usize \<Rightarrow> 'r \<Rightarrow> (usize, 'e) outcome \<times> 'r" where
  "random_size G max_size r =
     (case gen_usize G r of (x, r) \<Rightarrow>
        (if max_size = 0 then Panic ''attempt to calculate the remainder with a divisor of zero'' else Ok (1 + x mod max_size), r))"

function data_loop ::
    "'r rng \<Rightarrow> usize \<Rightarrow> usize \<Rightarrow> usize \<Rightarrow> (data, data) btree \<Rightarrow> usize \<Rightarrow> 'r \<Rightarrow>
       ((data, data) btree, 'e) outcome \<times> 'r" where
  "data_loop G required_size key_max_size val_max_size result total_size r =
     (if total_size < required_size
      then (case random_size G key_max_size r :: (usize, 'e) outcome \<times> 'r of
          (Ok key_size, r) \<Rightarrow> (case gen_u8s G key_size r of (key, r) \<Rightarrow>
            (case random_size G val_max_size r :: (usize, 'e) outcome \<times> 'r of
               (Ok val_size, r) \<Rightarrow> (case gen_u8s G val_size r of (val, r) \<Rightarrow>
                 data_loop G required_size key_max_size val_max_size (bt_insert key val result)
                   (total_size + key_size + val_size) r)
             | (Err e, r) \<Rightarrow> (Err e, r)
             | (Panic m, r) \<Rightarrow> (Panic m, r)
             | (Blocked, r) \<Rightarrow> (Blocked, r)))
        | (Err e, r) \<Rightarrow> (Err e, r)
        | (Panic m, r) \<Rightarrow> (Panic m, r)
        | (Blocked, r) \<Rightarrow> (Blocked, r))
      else (Ok result, r))"
  by pat_completeness auto
termination
  by (relation "measure (\<lambda>(G, required, kmax, vmax, result, total, r). required - total)")
    (auto simp: random_size_def split: if_splits prod.splits)

declare data_loop.simps [simp del]

definition create_random_data_map_with_target_byte_size ::
    "'r rng \<Rightarrow> usize \<Rightarrow> usize \<Rightarrow> usize \<Rightarrow> 'r \<Rightarrow> ((data, data) btree, 'e) outcome \<times> 'r" where
  "create_random_data_map_with_target_byte_size G required_size key_max_size val_max_size r =
     data_loop G required_size key_max_size val_max_size bt_empty 0 r"

section \<open>Settings, actions and checks\<close>

text \<open>
  \<open>DatabaseResizeSettings\<close> and \<open>DatabaseResizeInfo\<close> of the \<open>lmdb\<close> crate, with the fields the tests use.
\<close>

record resize_settings =
  min_resize_step :: nat
  max_resize_step :: nat
  default_resize_ratio_percentage :: nat
  resize_trigger_percentage :: rat

record resize_info =
  old_size :: nat
  new_size :: nat

text \<open>
  A resize callback is a closure: the variable it captured, here the vector shared with the test through
  an \<open>Arc\<close>, and its code, which turns a call's argument and the captured value into the new value. The
  closure of the tests pushes its argument onto a vector that is empty at first.
\<close>

record resize_callback =
  cb_captured :: "resize_info list"
  cb_code :: "resize_info \<Rightarrow> resize_info list \<Rightarrow> resize_info list"

definition call_callback :: "resize_info \<Rightarrow> resize_callback \<Rightarrow> resize_callback" where
  "call_callback info cb = cb\<lparr>cb_captured := cb_code cb info (cb_captured cb)\<rparr>"

definition pushing_callback :: resize_callback where
  "pushing_callback = \<lparr>cb_captured = [], cb_code = (\<lambda>v resize_actions. resize_actions @ [v])\<rparr>"

text \<open>
  What the test reads through its own handle on the vector. The environment owns the closure; when it was
  given none, nobody ever pushes.
\<close>

definition resize_actions_for_check ::
    "('env \<Rightarrow> resize_callback option) \<Rightarrow> ('env, 'db) lmdb_impl \<Rightarrow> resize_info list" where
  "resize_actions_for_check callback_of s =
     (case callback_of (lm_env s) of None \<Rightarrow> cb_captured pushing_callback | Some cb \<Rightarrow> cb_captured cb)"

definition test_resize_settings :: resize_settings where
  "test_resize_settings =
     \<lparr>min_resize_step = 2 ^ 16, max_resize_step = 2 ^ 20, default_resize_ratio_percentage = 10,
      resize_trigger_percentage = 9 / 10\<rparr>"

definition initial_size :: "64 word" where
  "initial_size = 2 ^ 20"

definition check :: "bool \<Rightarrow> string \<Rightarrow> (unit, 'e) outcome" where
  "check b m = (if b then Ok () else Panic m)"

definition check_action :: "resize_settings \<Rightarrow> resize_info \<Rightarrow> (unit, 'e) outcome" where
  "check_action S act =
     o_bind (check (old_size act < new_size act) ''assertion failed'') (\<lambda>_.
     o_bind (check (min_resize_step S \<le> new_size act - old_size act) ''assertion failed'') (\<lambda>_.
       check (new_size act - old_size act \<le> max_resize_step S) ''assertion failed''))"

definition check_actions :: "resize_settings \<Rightarrow> resize_info list \<Rightarrow> (unit, 'e) outcome" where
  "check_actions S acts =
     o_bind (check (acts \<noteq> []) ''assertion failed: !resize_action_result.is_empty()'') (\<lambda>_.
       o_map (\<lambda>_. ()) (o_collect (map (check_action S) acts)))"

definition check_entry :: "data option res \<Rightarrow> data \<Rightarrow> unit res" where
  "check_entry r val =
     o_bind (o_unwrap r) (\<lambda>v. case v of
       None \<Rightarrow> Panic ''called `Option::unwrap()` on a `None` value''
     | Some v \<Rightarrow> check (v = val) ''assertion failed'')"

definition check_data ::
    "('env, 'db, 'cur, 'ro, 'rw, 'rs, 'cb, 'fl) lmdb_api \<Rightarrow> (data, data) btree \<Rightarrow> ('env, 'db) lmdb_impl \<Rightarrow> unit res" where
  "check_data L data s =
     (case lmdb_transaction_ro L s of (r, s) \<Rightarrow>
        o_bind (o_unwrap r) (\<lambda>tx.
          o_map (\<lambda>_. ()) (o_collect (map (\<lambda>(key, val).
            check_entry (db_tx_get (errors L) (ro_tx L) tx s (DbMapId 0) key) val) data))))"

text \<open>The settings of the environment are built from the record by \<open>settings\<close>; \<open>path\<close> is a temporary directory.\<close>

definition open_test_db ::
    "('env, 'db, 'cur, 'ro, 'rw, 'rs, resize_callback, 'fl) lmdb_api \<Rightarrow> (resize_settings \<Rightarrow> 'rs) \<Rightarrow> string \<Rightarrow>
       ('env, 'db) lmdb_impl res" where
  "open_test_db L settings path =
     o_bind (construct_db_desc [db_map_desc_new ''SomeDb'']) (\<lambda>desc.
       o_unwrap (lmdb_open L
         (lmdb_new L path (ims_from (ms_from_bytes initial_size)) (settings test_resize_settings)
           (mrc_new pushing_callback))
         desc))"

definition test_data :: "'r rng \<Rightarrow> 'r \<Rightarrow> (data, data) btree res" where
  "test_data G r =
     fst (create_random_data_map_with_target_byte_size G (unat (initial_size * 5)) 500 10000 r)"

section \<open>One transaction for each entry\<close>

fun write_each ::
    "('env, 'db, 'cur, 'ro, 'rw, 'rs, 'cb, 'fl) lmdb_api \<Rightarrow> (data \<times> data) list \<Rightarrow> nat \<Rightarrow> ('env, 'db) lmdb_impl \<Rightarrow>
       nat res \<times> ('env, 'db) lmdb_impl" where
  "write_each L [] resizes_via_commit_count s = (Ok resizes_via_commit_count, s)"
| "write_each L ((key, val) # data) resizes_via_commit_count s =
     (case lmdb_transaction_rw L s None of (r, s) \<Rightarrow>
      case o_unwrap r of
        Ok tx \<Rightarrow>
          (case db_tx_put L tx s (DbMapId 0) key val of (r, tx, s) \<Rightarrow>
           case o_unwrap r :: unit res of
             Ok _ \<Rightarrow>
               (case db_tx_commit L tx s of
                  (Ok _, s) \<Rightarrow> write_each L data (resizes_via_commit_count + 1) s
                | (Err e, s) \<Rightarrow> (Panic ''Failed to commit'', s)
                | (Panic m, s) \<Rightarrow> (Panic m, s)
                | (Blocked, s) \<Rightarrow> (Blocked, s))
           | Err e \<Rightarrow> (Err e, s)
           | Panic m \<Rightarrow> (Panic m, s)
           | Blocked \<Rightarrow> (Blocked, s))
      | Err e \<Rightarrow> (Err e, s)
      | Panic m \<Rightarrow> (Panic m, s)
      | Blocked \<Rightarrow> (Blocked, s))"

definition auto_map_resize_between_txs ::
    "('env, 'db, 'cur, 'ro, 'rw, 'rs, resize_callback, 'fl) lmdb_api \<Rightarrow> (resize_settings \<Rightarrow> 'rs) \<Rightarrow>
       ('env \<Rightarrow> resize_callback option) \<Rightarrow> string \<Rightarrow> 'r rng \<Rightarrow> 'r \<Rightarrow> unit res" where
  "auto_map_resize_between_txs L settings callback_of path G r =
     o_bind (open_test_db L settings path) (\<lambda>s.
     o_bind (test_data G r) (\<lambda>data.
       case write_each L data 0 s of (r, s) \<Rightarrow>
         o_bind r (\<lambda>resizes_via_commit_count.
         o_bind (check_actions test_resize_settings (resize_actions_for_check callback_of s)) (\<lambda>_.
         o_bind (check_data L data s) (\<lambda>_.
           check (0 < resizes_via_commit_count) ''Not a single resize was scheduled after a transaction'')))))"

section \<open>One transaction, started over when the map is full\<close>

text \<open>
  The inner loop pops the data off the stack, whose top is the end of the list, as it writes it. It
  ends with \<open>False\<close> when a write failed.
\<close>

function write_stack ::
    "('env, 'db, 'cur, 'ro, 'rw, 'rs, 'cb, 'fl) lmdb_api \<Rightarrow> 'rw \<Rightarrow> ('env, 'db) lmdb_impl \<Rightarrow>
       (data \<times> data) list \<Rightarrow> (data \<times> data) list \<Rightarrow>
       bool res \<times> 'rw \<times> ('env, 'db) lmdb_impl \<times> (data \<times> data) list \<times> (data \<times> data) list" where
  "write_stack L tx s data_stack written =
     (if data_stack = [] then (Ok True, tx, s, data_stack, written)
      else (case last data_stack of (key, val) \<Rightarrow>
        (case db_tx_put L tx s (DbMapId 0) key val of
           (Ok _, tx, s) \<Rightarrow> write_stack L tx s (butlast data_stack) (written @ [last data_stack])
         | (Err _, tx, s) \<Rightarrow> (Ok False, tx, s, data_stack, written)
         | (Panic m, tx, s) \<Rightarrow> (Panic m, tx, s, data_stack, written)
         | (Blocked, tx, s) \<Rightarrow> (Blocked, tx, s, data_stack, written))))"
  by pat_completeness auto
termination
  by (relation "measure (\<lambda>(L, tx, s, data_stack, written). length data_stack)") auto

declare write_stack.simps [simp del]

partial_function (option) write_loop ::
    "('env, 'db, 'cur, 'ro, 'rw, 'rs, 'cb, 'fl) lmdb_api \<Rightarrow> ('env, 'db) lmdb_impl \<Rightarrow> (data \<times> data) list \<Rightarrow> nat \<Rightarrow>
       (nat res \<times> ('env, 'db) lmdb_impl) option" where
  "write_loop L s data_stack resizes_via_put_count =
     (case lmdb_transaction_rw L s None of (r, s) \<Rightarrow>
      case o_unwrap r of
        Ok tx \<Rightarrow>
          (case write_stack L tx s data_stack [] of (r, tx, s, data_stack, written) \<Rightarrow>
           case r of
             Ok all_written \<Rightarrow>
               (if all_written
                then (case db_tx_commit L tx s of (r, s) \<Rightarrow>
                      case r of
                        Ok _ \<Rightarrow> Some (Ok resizes_via_put_count, s)
                      | Err _ \<Rightarrow> write_loop L s (data_stack @ written) resizes_via_put_count
                      | Panic m \<Rightarrow> Some (Panic m, s)
                      | Blocked \<Rightarrow> Some (Blocked, s))
                else write_loop L (db_tx_drop (rw_tx L) tx s) (data_stack @ written) (resizes_via_put_count + 1))
           | Err e \<Rightarrow> Some (Err e, s)
           | Panic m \<Rightarrow> Some (Panic m, s)
           | Blocked \<Rightarrow> Some (Blocked, s))
      | Err e \<Rightarrow> Some (Err e, s)
      | Panic m \<Rightarrow> Some (Panic m, s)
      | Blocked \<Rightarrow> Some (Blocked, s))"

definition auto_map_resize_between_puts ::
    "('env, 'db, 'cur, 'ro, 'rw, 'rs, resize_callback, 'fl) lmdb_api \<Rightarrow> (resize_settings \<Rightarrow> 'rs) \<Rightarrow>
       ('env \<Rightarrow> resize_callback option) \<Rightarrow> string \<Rightarrow> 'r rng \<Rightarrow> 'r \<Rightarrow> unit res option" where
  "auto_map_resize_between_puts L settings callback_of path G r =
     (case o_bind (open_test_db L settings path) (\<lambda>s. o_map (\<lambda>data. (s, data)) (test_data G r)) of
        Ok (s, data) \<Rightarrow>
          map_option (\<lambda>(r, s).
            o_bind r (\<lambda>resizes_via_put_count.
            o_bind (check_actions test_resize_settings (resize_actions_for_check callback_of s)) (\<lambda>_.
            o_bind (check_data L data s) (\<lambda>_.
              check (0 < resizes_via_put_count) ''Not a single resize was scheduled after a write/put''))))
            (write_loop L s data 0)
      | Err e \<Rightarrow> Some (Err e)
      | Panic m \<Rightarrow> Some (Panic m)
      | Blocked \<Rightarrow> Some Blocked)"

end
