(* ===== verification/Resize_Contract.thy ===== *)
theory Resize_Contract
  imports Resize_Tests
begin

text \<open>
  The tests of automatic resizing end and pass over an LMDB environment whose map grows on demand.
  \<open>growing_engine\<close> states what a full map does to writes and commits and what a resize does to the size;
  \<open>headroom_engine\<close> adds that beginning a read-write transaction resizes a map that is nearly full, and
  that a write for which the map has no room fails; \<open>resize_test_engine\<close> adds the opening, the readers, and
  that each resize calls the callback of the environment.
\<close>

section \<open>Data\<close>

definition entry_ok :: "data \<times> data \<Rightarrow> bool" where
  "entry_ok = (\<lambda>(k, v). 1 \<le> length k \<and> length k \<le> 500 \<and> length v \<le> 10000)"

lemma entry_ok_key: "entry_ok (k, v) \<Longrightarrow> lmdb_key_ok k"
  by (simp add: entry_ok_def lmdb_key_ok_def)

lemma random_size_ok: "0 < n \<Longrightarrow> \<exists>x r'. random_size G n r = (Ok x, r') \<and> 1 \<le> x \<and> x \<le> n"
  by (auto simp: random_size_def Suc_le_eq split: prod.split)

lemma data_loop_ok:
  assumes "bt_inv m" and "\<forall>e \<in> set m. entry_ok e"
  shows "\<exists>m' r'. data_loop G required 500 10000 m sofar r = (Ok m' :: ((data, data) btree, 'e) outcome, r') \<and>
    bt_inv m' \<and> (\<forall>e \<in> set m'. entry_ok e) \<and> (m \<noteq> [] \<or> sofar < required \<longrightarrow> m' \<noteq> [])"
  using assms
proof (induction "required - sofar" arbitrary: m sofar r rule: less_induct)
  case less
  show ?case
  proof (cases "sofar < required")
    case True
    obtain x r1 where x: "random_size G 500 r = (Ok x :: (usize, 'e) outcome, r1)" "1 \<le> x" "x \<le> 500"
      using random_size_ok [of 500 G r] by auto
    obtain k r2 where k: "gen_u8s G x r1 = (k, r2)" by fastforce
    obtain y r3 where y: "random_size G 10000 r2 = (Ok y :: (usize, 'e) outcome, r3)" "1 \<le> y" "y \<le> 10000"
      using random_size_ok [of 10000 G r2] by auto
    obtain v r4 where v: "gen_u8s G y r3 = (v, r4)" by fastforce
    have "length k = x" "length v = y" using length_gen_u8s [of G x r1] length_gen_u8s [of G y r3] k v by simp_all
    then have "entry_ok (k, v)" using x y by (simp add: entry_ok_def)
    with less.prems have "\<forall>e \<in> set (bt_insert k v m). entry_ok e" by (auto dest: set_bt_insert)
    with less.hyps [of "sofar + x + y" "bt_insert k v m" r4] less.prems True x(2)
    obtain m' r' where "data_loop G required 500 10000 (bt_insert k v m) (sofar + x + y) r4 =
      (Ok m' :: ((data, data) btree, 'e) outcome, r')" "bt_inv m'" "\<forall>e \<in> set m'. entry_ok e"
      "bt_insert k v m \<noteq> [] \<longrightarrow> m' \<noteq> []" by fastforce
    moreover have "bt_insert k v m \<noteq> []" by (cases m) (auto split: if_splits)
    ultimately show ?thesis using True x k y v by (subst data_loop.simps) simp
  next
    case False
    with less.prems show ?thesis by (subst data_loop.simps) simp
  qed
qed

lemma test_data_ok:
  obtains m where "test_data G r = Ok m" "bt_inv m" "\<forall>e \<in> set m. entry_ok e" "m \<noteq> []"
proof -
  obtain m r' where "data_loop G (unat (initial_size * 5)) 500 10000 bt_empty 0 r = (Ok m :: (data, data) btree res, r')"
    "bt_inv m" "\<forall>e \<in> set m. entry_ok e" "m \<noteq> []"
    using data_loop_ok [of bt_empty G "unat (initial_size * 5)" 0 r] by (auto simp: bt_empty_def initial_size_def)
  then show ?thesis
    using that by (simp add: test_data_def create_random_data_map_with_target_byte_size_def)
qed

text \<open>Writing entries into a map.\<close>

definition puts :: "(data \<times> data) list \<Rightarrow> (data, data) btree \<Rightarrow> (data, data) btree" where
  "puts xs m = fold (\<lambda>(k, v). bt_insert k v) xs m"

lemma puts_simps [simp]:
  "puts [] m = m" "puts ((k, v) # xs) m = puts xs (bt_insert k v m)" "puts (xs @ ys) m = puts ys (puts xs m)"
  by (simp_all add: puts_def)

lemma bt_inv_puts: "bt_inv m \<Longrightarrow> bt_inv (puts xs m)"
  by (induction xs arbitrary: m) auto

lemma bt_get_puts: "bt_inv m \<Longrightarrow> bt_get (puts xs m) = bt_get m ++ map_of (rev xs)"
  by (induction xs arbitrary: m) (auto simp: bt_get_insert map_add_def fun_eq_iff split: option.splits)

text \<open>The entries of a map, written in any order into an empty one, give the map.\<close>

lemma puts_permutation:
  assumes "bt_inv data" and "mset xs = mset data"
  shows "puts xs bt_empty = data"
proof (rule bt_ext)
  show "bt_inv (puts xs bt_empty)" "bt_inv data" using assms by (simp_all add: bt_inv_puts)
  have "distinct (map fst data)" using assms(1) by (rule bt_inv_distinct)
  moreover have "mset (map fst (rev xs)) = mset (map fst data)" using assms(2) by simp
  ultimately have "distinct (map fst (rev xs))" by (metis mset_eq_imp_distinct_iff)
  moreover have "set (rev xs) = set data" using mset_eq_setD [OF assms(2)] by simp
  ultimately have "map_of (rev xs) = map_of data"
    using \<open>distinct (map fst data)\<close> by (simp add: map_of_inject_set)
  then show "bt_get (puts xs bt_empty) = bt_get data"
    by (simp add: bt_get_puts fun_eq_iff map_add_def) (simp add: bt_get_def bt_empty_def split: option.split)
qed

section \<open>What the tests rely on\<close>

text \<open>One resize of a map of size \<open>n\<close>, or none.\<close>

definition grows :: "resize_settings \<Rightarrow> resize_info list \<Rightarrow> nat \<Rightarrow> resize_info list \<Rightarrow> nat \<Rightarrow> bool" where
  "grows S acts n acts' n' \<longleftrightarrow> acts' = acts @ [\<lparr>old_size = n, new_size = n'\<rparr>] \<and>
     n + min_resize_step S \<le> n' \<and> n' \<le> n + max_resize_step S"

text \<open>
  \<open>idle env d m n\<close>: no transaction is open, the database \<open>d\<close> holds \<open>m\<close> and the map has size \<open>n\<close>;
  \<open>writing w env d b m n\<close>: the read-write transaction \<open>w\<close> has turned the committed contents \<open>b\<close> into \<open>m\<close>;
  \<open>failed w env d b n\<close>: a write of \<open>w\<close> failed and \<open>w\<close> can only be dropped. \<open>fits n m\<close>: a map of size \<open>n\<close> has
  room for \<open>m\<close>. Writes and commits only fail because the map is full; a write may succeed although there is
  no room to commit it. \<open>actions env\<close> lists the resizes of the environment.
\<close>

locale growing_engine =
  fixes L :: "('env, 'db, 'cur, 'ro, 'rw, 'rs, 'cb, 'fl) lmdb_api"
    and S :: resize_settings
    and actions :: "'env \<Rightarrow> resize_info list"
    and idle :: "'env \<Rightarrow> 'db \<Rightarrow> (data, data) btree \<Rightarrow> nat \<Rightarrow> bool"
    and writing :: "'rw \<Rightarrow> 'env \<Rightarrow> 'db \<Rightarrow> (data, data) btree \<Rightarrow> (data, data) btree \<Rightarrow> nat \<Rightarrow> bool"
    and failed :: "'rw \<Rightarrow> 'env \<Rightarrow> 'db \<Rightarrow> (data, data) btree \<Rightarrow> nat \<Rightarrow> bool"
    and fits :: "nat \<Rightarrow> (data, data) btree \<Rightarrow> bool"
  assumes step_positive: "0 < min_resize_step S"
    and fits_mono: "fits n m \<Longrightarrow> n \<le> n' \<Longrightarrow> fits n' m"
    and fits_some: "\<exists>n. fits n m"
    and resize_idle: "idle env d m n \<Longrightarrow>
        \<exists>env' n'. env_do_resize L env None = (Ok (), env') \<and> idle env' d m n' \<and>
          grows S (actions env) n (actions env') n'"
    and begin_writer: "idle env d m n \<Longrightarrow>
        \<exists>w env' n'. begin_rw_txn L env None = (Ok w, env') \<and> writing w env' d m m n' \<and>
          (n' = n \<and> actions env' = actions env \<or> grows S (actions env) n (actions env') n')"
    and put_writer: "writing w env d b m n \<Longrightarrow> lmdb_key_ok k \<Longrightarrow>
        \<exists>r w' env'. txn_put L w env d k v = (r, w', env') \<and> actions env' = actions env \<and>
          (r = Ok () \<and> writing w' env' d b (bt_insert k v m) n \<or>
           r = Err MapFull \<and> \<not> fits n (bt_insert k v m) \<and> failed w' env' d b n)"
    and commit_writer: "writing w env d b m n \<Longrightarrow>
        \<exists>r env'. txn_commit L w env = (r, env') \<and> actions env' = actions env \<and>
          (r = Ok () \<and> idle env' d m n \<or> r = Err MapFull \<and> \<not> fits n m \<and> idle env' d b n)"
    and drop_failed: "failed w env d b n \<Longrightarrow>
        idle (tx_drop (rw_tx L) w env) d b n \<and> actions (tx_drop (rw_tx L) w env) = actions env"

text \<open>A state of the backend between transactions.\<close>

definition rests ::
    "('env \<Rightarrow> 'db \<Rightarrow> (data, data) btree \<Rightarrow> nat \<Rightarrow> bool) \<Rightarrow> ('env, 'db) lmdb_impl \<Rightarrow> 'db \<Rightarrow> (data, data) btree \<Rightarrow> nat \<Rightarrow> bool" where
  "rests idle s d m n \<longleftrightarrow> maps_vec (lm_dbs s) = [d] \<and> idle (lm_env s) d m n"

text \<open>All resizes so far took proper steps, and there was one if the size changed.\<close>

definition steps_ok :: "resize_settings \<Rightarrow> nat \<Rightarrow> resize_info list \<Rightarrow> nat \<Rightarrow> bool" where
  "steps_ok S n0 acts n \<longleftrightarrow> (acts = [] \<longrightarrow> n = n0) \<and> (\<forall>act \<in> set acts. check_action S act = (Ok () :: unit res))"

lemma steps_ok_grows:
  "steps_ok S n0 acts n \<Longrightarrow> grows S acts n acts' n' \<Longrightarrow> 0 < min_resize_step S \<Longrightarrow> steps_ok S n0 acts' n'"
  by (auto simp: steps_ok_def grows_def check_action_def check_def)

lemma o_collect_all_Ok: "\<forall>x \<in> set xs. f x = Ok () \<Longrightarrow> o_collect (map f xs) = Ok (map (\<lambda>_. ()) xs)"
  by (simp add: o_collect_Ok_iff)

lemma steps_ok_check:
  assumes "steps_ok S n0 acts n" and "acts \<noteq> []"
  shows "check_actions S acts = (Ok () :: unit res)"
  using assms by (simp add: check_actions_def check_def steps_ok_def o_collect_all_Ok)

context growing_engine
begin

lemma maps_index_first: "maps_vec dbs = [d] \<Longrightarrow> maps_index dbs (DbMapId 0) = Ok d"
  by (simp add: maps_index_def)

text \<open>The map of size \<open>n\<close> took a write that led to the contents \<open>m'\<close>.\<close>

definition wrote :: "nat \<Rightarrow> (data, data) btree \<Rightarrow> bool" where
  "wrote n m' \<longleftrightarrow> (\<exists>w env d b m k v w' env'. writing w env d b m n \<and> lmdb_key_ok k \<and>
     txn_put L w env d k v = (Ok (), w', env') \<and> m' = bt_insert k v m)"

text \<open>Beginning a read-write transaction does the resize that is scheduled, and may do one of its own.\<close>

lemma begin_test_tx:
  assumes "rests idle s d m n" and "steps_ok S n0 (actions (lm_env s)) n"
  shows "\<exists>w s' n'. lmdb_transaction_rw L s None = (Ok w, s') \<and> maps_vec (lm_dbs s') = [d] \<and>
    writing w (lm_env s') d m m n' \<and> steps_ok S n0 (actions (lm_env s')) n' \<and> \<not> map_resize_scheduled s' \<and>
    n + (if map_resize_scheduled s then min_resize_step S else 0) \<le> n' \<and>
    (\<not> map_resize_scheduled s \<longrightarrow> n' \<le> n + max_resize_step S) \<and>
    (\<exists>env0 n1. idle env0 d m n1 \<and> begin_rw_txn L env0 None = (Ok w, lm_env s'))"
proof -
  obtain s1 n1 where 1: "resize_if_resize_scheduled L s = (Ok (), s1)" "rests idle s1 d m n1"
    "steps_ok S n0 (actions (lm_env s1)) n1" "\<not> map_resize_scheduled s1"
    "n + (if map_resize_scheduled s then min_resize_step S else 0) \<le> n1" "\<not> map_resize_scheduled s \<longrightarrow> n1 = n"
  proof (cases "map_resize_scheduled s")
    case True
    obtain env' n' where "env_do_resize L (lm_env s) None = (Ok (), env')" "idle env' d m n'"
      "grows S (actions (lm_env s)) n (actions env') n'"
      using resize_idle assms(1) by (metis rests_def)
    with True assms that [of "s\<lparr>map_resize_scheduled := False, lm_env := env'\<rparr>" n'] show ?thesis
      by (simp add: resize_if_resize_scheduled_def compare_exchange_def rests_def steps_ok_grows step_positive)
        (simp add: grows_def)
  next
    case False
    then have "resize_if_resize_scheduled L s = (Ok (), s)"
      by (cases s) (simp add: resize_if_resize_scheduled_def compare_exchange_def)
    with False assms that [of s n] show ?thesis by simp
  qed
  obtain w env' n' where 2: "begin_rw_txn L (lm_env s1) None = (Ok w, env')" "writing w env' d m m n'"
    "n' = n1 \<and> actions env' = actions (lm_env s1) \<or> grows S (actions (lm_env s1)) n1 (actions env') n'"
    using begin_writer 1(2) by (metis rests_def)
  have "steps_ok S n0 (actions env') n'" "n1 \<le> n'" "n' \<le> n1 + max_resize_step S"
    using 2(3) 1(3) steps_ok_grows [OF 1(3) _ step_positive] by (auto simp: grows_def)
  with 1 2(1,2) show ?thesis
    by (intro exI [of _ w] exI [of _ "s1\<lparr>lm_env := env'\<rparr>"] exI [of _ n'])
      (auto simp: lmdb_transaction_rw_def start_transaction_def rests_def)
qed

text \<open>A write succeeds, or it fails for want of room and schedules a resize.\<close>

lemma put_test_entry:
  assumes "writing w (lm_env s) d b m n" and "maps_vec (lm_dbs s) = [d]" and "lmdb_key_ok k"
  shows "\<exists>r w' s'. db_tx_put L w s (DbMapId 0) k v = (r, w', s') \<and> maps_vec (lm_dbs s') = [d] \<and>
    actions (lm_env s') = actions (lm_env s) \<and>
    (r = Ok () \<and> wrote n (bt_insert k v m) \<and> writing w' (lm_env s') d b (bt_insert k v m) n \<and>
       map_resize_scheduled s' = map_resize_scheduled s \<or>
     (\<exists>e. r = Err e) \<and> \<not> fits n (bt_insert k v m) \<and> failed w' (lm_env s') d b n \<and> map_resize_scheduled s')"
proof -
  obtain r w' env' where put: "txn_put L w (lm_env s) d k v = (r, w', env')" "actions env' = actions (lm_env s)"
    "r = Ok () \<and> writing w' env' d b (bt_insert k v m) n \<or>
     r = Err MapFull \<and> \<not> fits n (bt_insert k v m) \<and> failed w' env' d b n"
    using put_writer [OF assms(1,3)] by blast
  from put(3) show ?thesis
  proof (elim disjE conjE)
    assume "r = Ok ()" "writing w' env' d b (bt_insert k v m) n"
    moreover from this put(1) assms(1,3) have "wrote n (bt_insert k v m)" unfolding wrote_def by blast
    ultimately show ?thesis using put(1,2) assms(2) by (simp add: db_tx_put_def maps_index_first write_result_def)
  next
    assume "r = Err MapFull" "\<not> fits n (bt_insert k v m)" "failed w' env' d b n"
    with put(1,2) assms(2) show ?thesis
      by (auto simp: db_tx_put_def maps_index_first write_result_def schedule_map_resize_if_map_full_def
          schedule_map_resize_def process_with_unit_def)
  qed
qed

text \<open>
  How the inner loop ends, from the map \<open>m\<close> and the state \<open>s\<close>: either everything is written, or a write
  failed, a resize is scheduled, and some of the data did not fit. In both cases no entry got lost.
\<close>

definition stack_ends ::
    "'db \<Rightarrow> (data, data) btree \<Rightarrow> nat \<Rightarrow> ('env, 'db) lmdb_impl \<Rightarrow> (data, data) btree \<Rightarrow> (data \<times> data) list \<Rightarrow>
       (data \<times> data) list \<Rightarrow>
       bool res \<times> 'rw \<times> ('env, 'db) lmdb_impl \<times> (data \<times> data) list \<times> (data \<times> data) list \<Rightarrow> bool" where
  "stack_ends d b n s m stack written = (\<lambda>(r, w', s', stack', written').
     maps_vec (lm_dbs s') = [d] \<and> actions (lm_env s') = actions (lm_env s) \<and>
     mset (stack' @ written') = mset (stack @ written) \<and>
     (r = Ok True \<and> writing w' (lm_env s') d b (puts (rev stack) m) n \<and>
        map_resize_scheduled s' = map_resize_scheduled s \<and> (stack \<noteq> [] \<longrightarrow> wrote n (puts (rev stack) m)) \<or>
      r = Ok False \<and> failed w' (lm_env s') d b n \<and> map_resize_scheduled s' \<and>
        (\<exists>xs. set xs \<subseteq> set stack \<and> length xs \<le> length stack \<and> \<not> fits n (puts xs m))))"

lemma stack_ends_snoc:
  assumes "stack_ends d b n s1 (bt_insert k v m) stack (written @ [(k, v)]) r"
    and "actions (lm_env s1) = actions (lm_env s)" and "map_resize_scheduled s1 = map_resize_scheduled s"
    and "wrote n (bt_insert k v m)"
  shows "stack_ends d b n s m (stack @ [(k, v)]) written r"
proof -
  have "\<exists>ys. set ys \<subseteq> set (stack @ [(k, v)]) \<and> length ys \<le> length (stack @ [(k, v)]) \<and> \<not> fits n (puts ys m)"
    if "set xs \<subseteq> set stack" "length xs \<le> length stack" "\<not> fits n (puts xs (bt_insert k v m))" for xs
    using that by (intro exI [of _ "(k, v) # xs"]) auto
  moreover have "stack = [] \<Longrightarrow> wrote n (puts (rev stack) (bt_insert k v m))" using assms(4) by simp
  ultimately show ?thesis
    using assms(1-3) unfolding stack_ends_def by (auto split: prod.splits)
qed

lemma write_stack_result:
  assumes "writing w (lm_env s) d b m n" and "maps_vec (lm_dbs s) = [d]" and "\<forall>e \<in> set stack. entry_ok e"
  shows "stack_ends d b n s m stack written (write_stack L w s stack written)"
  using assms
proof (induction stack arbitrary: w s m written rule: rev_induct)
  case Nil
  then show ?case by (subst write_stack.simps) (simp add: stack_ends_def)
next
  case (snoc e stack)
  obtain k v where e: "e = (k, v)" by (cases e)
  with snoc.prems have "lmdb_key_ok k" by (auto intro: entry_ok_key)
  from put_test_entry [OF snoc.prems(1,2) this, of v] obtain r w1 s1 where put:
    "db_tx_put L w s (DbMapId 0) k v = (r, w1, s1)" "maps_vec (lm_dbs s1) = [d]"
    "actions (lm_env s1) = actions (lm_env s)"
    "r = Ok () \<and> wrote n (bt_insert k v m) \<and> writing w1 (lm_env s1) d b (bt_insert k v m) n \<and>
       map_resize_scheduled s1 = map_resize_scheduled s \<or>
     (\<exists>e. r = Err e) \<and> \<not> fits n (bt_insert k v m) \<and> failed w1 (lm_env s1) d b n \<and> map_resize_scheduled s1" by blast
  from put(4) show ?case
  proof (elim disjE conjE exE)
    fix err
    assume err: "r = Err err" "\<not> fits n (bt_insert k v m)" "failed w1 (lm_env s1) d b n" "map_resize_scheduled s1"
    have "write_stack L w s (stack @ [e]) written = (Ok False, w1, s1, stack @ [e], written)"
      using put(1) err(1) e by (subst write_stack.simps) simp
    moreover have "set [e] \<subseteq> set (stack @ [e])" "length [e] \<le> length (stack @ [e])" "\<not> fits n (puts [e] m)"
      using err(2) e by simp_all
    ultimately show ?thesis
      using put(2,3) err(3,4) unfolding stack_ends_def by (simp only: split) blast
  next
    assume ok: "r = Ok ()" "wrote n (bt_insert k v m)" "writing w1 (lm_env s1) d b (bt_insert k v m) n"
      "map_resize_scheduled s1 = map_resize_scheduled s"
    have step: "write_stack L w s (stack @ [e]) written = write_stack L w1 s1 stack (written @ [e])"
      using put(1) ok(1) e by (subst write_stack.simps) simp
    have "\<forall>e \<in> set stack. entry_ok e" using snoc.prems(3) by simp
    from snoc.IH [OF ok(3) put(2) this, of "written @ [e]"]
    have "stack_ends d b n s m (stack @ [(k, v)]) written (write_stack L w1 s1 stack (written @ [e]))"
      unfolding e by (rule stack_ends_snoc [OF _ put(3) ok(4,2)])
    then show ?thesis unfolding step by (simp only: e)
  qed
qed

text \<open>Some size has room for whatever a run of the inner loop may have written.\<close>

lemma room_for_all:
  "\<exists>N. \<forall>xs. set xs \<subseteq> set data \<and> length xs \<le> length data \<longrightarrow> fits N (puts xs m)"
proof -
  have "finite A \<Longrightarrow> \<exists>N. \<forall>xs \<in> A. fits N (puts xs m)" for A
  proof (induction rule: finite_induct)
    case (insert xs A)
    then obtain N where N: "\<forall>xs \<in> A. fits N (puts xs m)" by blast
    obtain N' where "fits N' (puts xs m)" using fits_some by blast
    with N have "\<forall>xs \<in> insert xs A. fits (max N N') (puts xs m)"
      by (simp add: fits_mono [OF _ max.cobounded1] fits_mono [OF _ max.cobounded2])
    then show ?case by blast
  qed simp
  from this [OF finite_lists_length_le [of "set data" "length data"]] show ?thesis by simp
qed

lemma commit_test_tx:
  assumes "writing w (lm_env s) d b m n" and "maps_vec (lm_dbs s) = [d]" and "\<not> map_resize_scheduled s"
    and "steps_ok S n0 (actions (lm_env s)) n"
  shows "\<exists>r s' n'. db_tx_commit L w s = (r, s') \<and> steps_ok S n0 (actions (lm_env s')) n' \<and>
    \<not> map_resize_scheduled s' \<and>
    (r = Ok () \<and> rests idle s' d m n' \<and> n' = n \<or>
     (\<exists>e. r = Err e) \<and> \<not> fits n m \<and> rests idle s' d b n' \<and> n + min_resize_step S \<le> n')"
proof -
  obtain r env1 where c: "txn_commit L w (lm_env s) = (r, env1)" "actions env1 = actions (lm_env s)"
    "r = Ok () \<and> idle env1 d m n \<or> r = Err MapFull \<and> \<not> fits n m \<and> idle env1 d b n"
    using commit_writer [OF assms(1)] by blast
  from c(3) show ?thesis
  proof (elim disjE conjE)
    assume "r = Ok ()" "idle env1 d m n"
    with c(1,2) assms show ?thesis by (simp add: db_tx_commit_def rests_def)
  next
    assume full: "r = Err MapFull" "\<not> fits n m" "idle env1 d b n"
    obtain env2 n' where g: "env_do_resize L env1 None = (Ok (), env2)" "idle env2 d b n'"
      "grows S (actions env1) n (actions env2) n'"
      using resize_idle [OF full(3)] by blast
    have "steps_ok S n0 (actions env2) n'" using steps_ok_grows assms(4) g(3) step_positive c(2) by metis
    moreover have "n + min_resize_step S \<le> n'" using g(3) by (simp add: grows_def)
    ultimately show ?thesis using c(1) full g(1,2) assms(2)
      by (auto simp: db_tx_commit_def resize_if_map_full_def unschedule_map_resize_def process_with_unit_def rests_def)
  qed
qed

lemma drop_test_tx:
  assumes "failed w (lm_env s) d b n" and "maps_vec (lm_dbs s) = [d]"
  shows "rests idle (db_tx_drop (rw_tx L) w s) d b n"
    and "actions (lm_env (db_tx_drop (rw_tx L) w s)) = actions (lm_env s)"
    and "map_resize_scheduled (db_tx_drop (rw_tx L) w s) = map_resize_scheduled s"
  using drop_failed [OF assms(1)] assms(2) by (simp_all add: db_tx_drop_def rests_def)

text \<open>
  The size at which the next transaction begins is at least \<open>next_size\<close>; every round that starts over
  raises it by a step, up to the size \<open>N\<close> that has room for all the data.
\<close>

definition next_size :: "('env, 'db) lmdb_impl \<Rightarrow> nat \<Rightarrow> nat" where
  "next_size s n = n + (if map_resize_scheduled s then min_resize_step S else 0)"

text \<open>
  One round of the outer loop: the loop ends with everything written and committed, or it starts over
  with the same data, not having had room for some of it, and with room for more from now on.
\<close>

lemma write_loop_round:
  assumes rests: "rests idle s d m n" and steps: "steps_ok S n0 (actions (lm_env s)) n"
    and ok: "\<forall>e \<in> set stack. entry_ok e"
  obtains
    (written) s' n' where "write_loop L s stack k0 = Some (Ok k0, s')" "rests idle s' d (puts (rev stack) m) n'"
      "steps_ok S n0 (actions (lm_env s')) n'" "next_size s n \<le> n'"
      "stack \<noteq> [] \<longrightarrow> wrote n' (puts (rev stack) m)"
      "\<not> map_resize_scheduled s \<longrightarrow> n' \<le> n + max_resize_step S"
  | (again) s' n' stack' k xs n1 where "write_loop L s stack k0 = write_loop L s' stack' k" "mset stack' = mset stack"
      "rests idle s' d m n'" "steps_ok S n0 (actions (lm_env s')) n'"
      "set xs \<subseteq> set stack" "length xs \<le> length stack" "\<not> fits n1 (puts xs m)" "next_size s n \<le> n1"
      "n1 + min_resize_step S \<le> next_size s' n'"
      "k = Suc k0 \<or> k = k0 \<and> (stack \<noteq> [] \<longrightarrow> wrote n1 (puts (rev stack) m))"
      "\<not> map_resize_scheduled s \<longrightarrow> n1 \<le> n + max_resize_step S"
proof -
  obtain w s1 n1 where b: "lmdb_transaction_rw L s None = (Ok w, s1)" "maps_vec (lm_dbs s1) = [d]"
    "writing w (lm_env s1) d m m n1" "steps_ok S n0 (actions (lm_env s1)) n1" "\<not> map_resize_scheduled s1"
    "next_size s n \<le> n1" "\<not> map_resize_scheduled s \<longrightarrow> n1 \<le> n + max_resize_step S"
    using begin_test_tx [OF rests steps] unfolding next_size_def by blast
  obtain r w2 s2 stack' written where ws: "write_stack L w s1 stack [] = (r, w2, s2, stack', written)"
    by (metis prod_cases5)
  from write_stack_result [OF b(3,2) ok, of "[]"] have ends: "maps_vec (lm_dbs s2) = [d]"
    "steps_ok S n0 (actions (lm_env s2)) n1" "mset (stack' @ written) = mset stack"
    "r = Ok True \<and> writing w2 (lm_env s2) d m (puts (rev stack) m) n1 \<and>
       \<not> map_resize_scheduled s2 \<and> (stack \<noteq> [] \<longrightarrow> wrote n1 (puts (rev stack) m)) \<or>
     r = Ok False \<and> failed w2 (lm_env s2) d m n1 \<and> map_resize_scheduled s2 \<and>
       (\<exists>xs. set xs \<subseteq> set stack \<and> length xs \<le> length stack \<and> \<not> fits n1 (puts xs m))"
    using b(4,5) by (simp_all add: ws stack_ends_def)
  from ends(4) show thesis
  proof (elim disjE conjE exE)
    fix xs
    assume r: "r = Ok False" "map_resize_scheduled s2" and w: "failed w2 (lm_env s2) d m n1"
      and xs: "set xs \<subseteq> set stack" "length xs \<le> length stack" "\<not> fits n1 (puts xs m)"
    let ?s3 = "db_tx_drop (rw_tx L) w2 s2"
    have "write_loop L s stack k0 = write_loop L ?s3 (stack' @ written) (Suc k0)"
      using b(1) ws r(1) by (subst write_loop.simps) simp
    moreover have "next_size ?s3 n1 = n1 + min_resize_step S"
      by (simp add: next_size_def drop_test_tx [OF w ends(1)] r(2))
    ultimately show thesis
      using again [of ?s3 "stack' @ written" "Suc k0" n1 xs n1] drop_test_tx [OF w ends(1)] ends(2,3) xs b(6,7) by simp
  next
    assume r: "r = Ok True" "\<not> map_resize_scheduled s2" and w: "writing w2 (lm_env s2) d m (puts (rev stack) m) n1"
      and all: "stack \<noteq> [] \<longrightarrow> wrote n1 (puts (rev stack) m)"
    obtain r3 s3 n3 where c: "db_tx_commit L w2 s2 = (r3, s3)"
      "steps_ok S n0 (actions (lm_env s3)) n3" "\<not> map_resize_scheduled s3"
      "r3 = Ok () \<and> rests idle s3 d (puts (rev stack) m) n3 \<and> n3 = n1 \<or>
       (\<exists>e. r3 = Err e) \<and> \<not> fits n1 (puts (rev stack) m) \<and> rests idle s3 d m n3 \<and> n1 + min_resize_step S \<le> n3"
      using commit_test_tx [OF w ends(1) r(2) ends(2)] by blast
    from c(4) show thesis
    proof (elim disjE conjE exE)
      assume "r3 = Ok ()" "rests idle s3 d (puts (rev stack) m) n3" "n3 = n1"
      moreover from this b(1) ws c(1) r(1) have "write_loop L s stack k0 = Some (Ok k0, s3)"
        by (subst write_loop.simps) simp
      ultimately show thesis using written [of s3 n3] c(2) all b(6,7) by simp
    next
      fix e
      assume "r3 = Err e" "\<not> fits n1 (puts (rev stack) m)" "rests idle s3 d m n3" "n1 + min_resize_step S \<le> n3"
      moreover from this b(1) ws c(1) r(1) have "write_loop L s stack k0 = write_loop L s3 (stack' @ written) k0"
        by (subst write_loop.simps) simp
      moreover have "next_size s3 n3 = n3" using c(3) by (simp add: next_size_def)
      ultimately show thesis
        using again [of s3 "stack' @ written" k0 n3 "rev stack" n1] c(2) all ends(3) b(6,7) by auto
    qed
  qed
qed

text \<open>A map at most one step larger than \<open>n\<close> took all of the data.\<close>

definition wrote_soon :: "nat \<Rightarrow> (data \<times> data) list \<Rightarrow> (data, data) btree \<Rightarrow> bool" where
  "wrote_soon n data m \<longleftrightarrow> (\<exists>n1 ys. n1 \<le> n + max_resize_step S \<and> mset ys = mset data \<and> wrote n1 (puts ys m))"

text \<open>
  The number of rounds that start over after a failed write is bounded by the steps from the size now to
  the size \<open>N\<close> that has room for all the data.
\<close>

lemma write_loop_ends:
  assumes room: "\<forall>xs. set xs \<subseteq> set data \<and> length xs \<le> length data \<longrightarrow> fits N (puts xs m)"
    and ok: "\<forall>e \<in> set data. entry_ok e"
    and "rests idle s d m n" and "steps_ok S n0 (actions (lm_env s)) n" and "mset stack = mset data"
  shows "\<exists>k1 s' n' xs. write_loop L s stack k0 = Some (Ok k1, s') \<and> mset xs = mset data \<and>
    rests idle s' d (puts xs m) n' \<and> steps_ok S n0 (actions (lm_env s')) n' \<and>
    next_size s n \<le> n' \<and> k0 \<le> k1 \<and> (k1 = k0 \<or> next_size s n + min_resize_step S \<le> n') \<and>
    (k1 = k0 \<or> next_size s n + (k1 - k0 - 1) * min_resize_step S < N) \<and>
    (k1 = k0 \<and> data \<noteq> [] \<and> \<not> map_resize_scheduled s \<longrightarrow> wrote_soon n data m)"
  using assms(3-)
proof (induction "N + min_resize_step S - next_size s n" arbitrary: s n stack k0 rule: less_induct)
  case less
  note stack = mset_eq_setD [OF less.prems(3)] mset_eq_length [OF less.prems(3)]
  have rev: "data \<noteq> [] \<longrightarrow> stack \<noteq> []" "mset (rev stack) = mset data" using less.prems(3) by auto
  have "\<forall>e \<in> set stack. entry_ok e" using ok stack by simp
  from less.prems(1,2) this show ?case
  proof (cases rule: write_loop_round [where ?k0.0 = k0])
    case (written s' n')
    then have "data \<noteq> [] \<and> \<not> map_resize_scheduled s \<longrightarrow> wrote_soon n data m"
      using rev unfolding wrote_soon_def by blast
    with written rev show ?thesis by (intro exI [of _ k0] exI [of _ s'] exI [of _ n'] exI [of _ "rev stack"]) simp
  next
    case (again s' n' stack' k xs n1)
    have n1: "n1 < N"
    proof (rule ccontr)
      assume "\<not> n1 < N"
      moreover have "fits N (puts xs m)" using room again(5,6) stack by simp
      ultimately show False using again(7) fits_mono [of N "puts xs m" n1] by simp
    qed
    with again(8,9) step_positive
    have dec: "N + min_resize_step S - next_size s' n' < N + min_resize_step S - next_size s n" by simp
    have "mset stack' = mset data" using again(2) less.prems(3) by simp
    from less.hyps [OF dec again(3,4) this, of k] obtain k1 s'' n'' ys where IH:
      "write_loop L s' stack' k = Some (Ok k1, s'')" "mset ys = mset data" "rests idle s'' d (puts ys m) n''"
      "steps_ok S n0 (actions (lm_env s'')) n''" "next_size s' n' \<le> n''" "k \<le> k1"
      "k1 = k \<or> next_size s' n' + (k1 - k - 1) * min_resize_step S < N" by blast
    have bound: "k1 = k0 \<or> next_size s n + (k1 - k0 - 1) * min_resize_step S < N"
      using again(10)
    proof (elim disjE conjE)
      assume k: "k = Suc k0"
      show ?thesis
      proof (cases "k1 = k")
        case False
        then have "k1 - k0 - 1 = Suc (k1 - k - 1)" using IH(6) k by simp
        with IH(7) False again(8,9) show ?thesis by simp
      qed (use k n1 again(8) in simp)
    qed (use IH(7) again(8,9) in auto)
    have "next_size s n + min_resize_step S \<le> n''" using again(8,9) IH(5) by linarith
    moreover have "k0 \<le> k1" using again(10) IH(6) by auto
    moreover have "wrote_soon n data m" if "k1 = k0" "data \<noteq> []" "\<not> map_resize_scheduled s"
    proof -
      have "wrote n1 (puts (rev stack) m)" "n1 \<le> n + max_resize_step S" using again(10,11) IH(6) rev that by auto
      with rev(2) show ?thesis unfolding wrote_soon_def by blast
    qed
    moreover have "write_loop L s stack k0 = Some (Ok k1, s'')" using again(1) IH(1) by simp
    ultimately show ?thesis using IH(2-4) bound by (intro exI conjI) (assumption | simp)+
  qed
qed

end

locale headroom_engine = growing_engine +
  assumes headroom: "idle env d m n \<Longrightarrow> begin_rw_txn L env None = (Ok w, env') \<Longrightarrow>
      writing w env' d m m n' \<Longrightarrow> entry_ok (k, v) \<Longrightarrow> fits n' (bt_insert k v m)"
    and put_full: "writing w env d b m n \<Longrightarrow> lmdb_key_ok k \<Longrightarrow> txn_put L w env d k v = (Ok (), w', env') \<Longrightarrow>
      fits n (bt_insert k v m)"

context headroom_engine
begin

lemma wrote_fits: "wrote n m \<Longrightarrow> fits n m"
  unfolding wrote_def using put_full by blast

lemma wrote_soon_fits: "wrote_soon n data m \<Longrightarrow> \<exists>ys. mset ys = mset data \<and> fits (n + max_resize_step S) (puts ys m)"
  unfolding wrote_soon_def using wrote_fits fits_mono by blast

text \<open>With headroom, a transaction for each entry never fails.\<close>

lemma write_each_ok:
  assumes "rests idle s d m n" and "\<not> map_resize_scheduled s" and "steps_ok S n0 (actions (lm_env s)) n"
    and "\<forall>e \<in> set data. entry_ok e"
  shows "\<exists>s' n'. write_each L data c s = (Ok (c + length data), s') \<and> rests idle s' d (puts data m) n' \<and>
    \<not> map_resize_scheduled s' \<and> steps_ok S n0 (actions (lm_env s')) n' \<and> (data \<noteq> [] \<longrightarrow> fits n' (puts data m))"
  using assms
proof (induction data arbitrary: s m n c)
  case (Cons e data)
  obtain k v where e: "e = (k, v)" by (cases e)
  with Cons.prems(4) have kv: "entry_ok (k, v)" "lmdb_key_ok k" by (auto intro: entry_ok_key)
  obtain w s1 n1 env0 n2 where b: "lmdb_transaction_rw L s None = (Ok w, s1)" "maps_vec (lm_dbs s1) = [d]"
    "writing w (lm_env s1) d m m n1" "steps_ok S n0 (actions (lm_env s1)) n1" "\<not> map_resize_scheduled s1"
    "idle env0 d m n2" "begin_rw_txn L env0 None = (Ok w, lm_env s1)"
    using begin_test_tx [OF Cons.prems(1,3)] by blast
  have room: "fits n1 (bt_insert k v m)" using headroom [OF b(6,7,3) kv(1)] .
  with put_test_entry [OF b(3,2) kv(2), of v] obtain w2 s2 where put:
    "db_tx_put L w s1 (DbMapId 0) k v = (Ok (), w2, s2)" "maps_vec (lm_dbs s2) = [d]"
    "actions (lm_env s2) = actions (lm_env s1)" "writing w2 (lm_env s2) d m (bt_insert k v m) n1"
    "map_resize_scheduled s2 = map_resize_scheduled s1" by blast
  have "\<not> map_resize_scheduled s2" "steps_ok S n0 (actions (lm_env s2)) n1" using put(3,5) b(4,5) by simp_all
  from commit_test_tx [OF put(4,2) this] room obtain s3 where c: "db_tx_commit L w2 s2 = (Ok (), s3)"
    "steps_ok S n0 (actions (lm_env s3)) n1" "\<not> map_resize_scheduled s3" "rests idle s3 d (bt_insert k v m) n1" by blast
  have "write_each L (e # data) c s = write_each L data (c + 1) s3" using b(1) put(1) c(1) e by simp
  moreover have "\<forall>e \<in> set data. entry_ok e" using Cons.prems(4) by simp
  from Cons.IH [OF c(4,3,2) this, of "c + 1"] obtain s' n' where
    "write_each L data (c + 1) s3 = (Ok (c + 1 + length data), s')" "rests idle s' d (puts data (bt_insert k v m)) n'"
    "\<not> map_resize_scheduled s'" "steps_ok S n0 (actions (lm_env s')) n'"
    "data \<noteq> [] \<longrightarrow> fits n' (puts data (bt_insert k v m))" by blast
  ultimately show ?case using e room c by (cases data) auto
qed (simp, blast)

end

section \<open>The callback\<close>

text \<open>
  From \<open>env\<close> to \<open>env'\<close> the callback of the environment, if it has one, was called for each resize, in order.
\<close>

definition called :: "('env \<Rightarrow> resize_info list) \<Rightarrow> ('env \<Rightarrow> resize_callback option) \<Rightarrow> 'env \<Rightarrow> 'env \<Rightarrow> bool" where
  "called actions callback_of env env' \<longleftrightarrow> (\<exists>infos. actions env' = actions env @ infos \<and>
     callback_of env' = map_option (fold call_callback infos) (callback_of env))"

text \<open>The state of the callback \<open>cb\<close> after all the resizes of the environment.\<close>

definition told :: "('env \<Rightarrow> resize_info list) \<Rightarrow> ('env \<Rightarrow> resize_callback option) \<Rightarrow> resize_callback option \<Rightarrow> 'env \<Rightarrow> bool" where
  "told actions callback_of cb env \<longleftrightarrow> callback_of env = map_option (fold call_callback (actions env)) cb"

lemma told_called: "called actions callback_of env env' \<Longrightarrow> told actions callback_of cb env \<Longrightarrow> told actions callback_of cb env'"
  by (cases cb) (auto simp: called_def told_def)

lemma pushing_all: "cb_captured (fold call_callback infos pushing_callback) = infos"
proof -
  have "fold call_callback infos pushing_callback = pushing_callback\<lparr>cb_captured := infos\<rparr>"
    by (induction infos rule: rev_induct) (simp_all add: call_callback_def pushing_callback_def)
  then show ?thesis by simp
qed

lemma told_pushing:
  assumes "told actions callback_of (Some pushing_callback) (lm_env s)"
  shows "resize_actions_for_check callback_of s = actions (lm_env s)"
  using assms by (simp add: resize_actions_for_check_def told_def pushing_all)

locale resize_test_engine = headroom_engine L S actions idle writing failed fits
  for L :: "('env, 'db, 'cur, 'ro, 'rw, 'rs, resize_callback, 'fl) lmdb_api"
    and S actions idle writing failed fits +
  fixes settings :: "resize_settings \<Rightarrow> 'rs"
    and callback_of :: "'env \<Rightarrow> resize_callback option"
    and reading :: "'ro \<Rightarrow> 'env \<Rightarrow> 'db \<Rightarrow> (data, data) btree \<Rightarrow> bool"
    and fresh_path :: "string \<Rightarrow> bool"
  assumes make_dir: "fresh_path p \<Longrightarrow> create_dir_all L p = Ok ()"
    and open_fresh: "fresh_path p \<Longrightarrow> eb_map_size bld = Some sz \<Longrightarrow> eb_resize_settings bld = settings S \<Longrightarrow>
        eb_max_dbs bld = 1 \<Longrightarrow>
        \<exists>env d env'. env_open L bld p = Ok env \<and> env_create_db L env (Some name) = (Ok d, env') \<and>
          idle env' d bt_empty (unat sz) \<and> actions env' = [] \<and> callback_of env' = eb_resize_callback bld"
    and resize_calls: "env_do_resize L env None = (r, env') \<Longrightarrow> called actions callback_of env env'"
    and begin_calls: "begin_rw_txn L env None = (r', env') \<Longrightarrow> called actions callback_of env env'"
    and put_calls: "txn_put L w env d k v = (r'', w', env') \<Longrightarrow> called actions callback_of env env'"
    and commit_calls: "txn_commit L w env = (r, env') \<Longrightarrow> called actions callback_of env env'"
    and drop_calls: "called actions callback_of env (tx_drop (rw_tx L) w env)"
    and begin_reader: "idle env d m n \<Longrightarrow> \<exists>t env'. begin_ro_txn L env = (Ok t, env') \<and> reading t env' d m"
    and get_reader: "reading t env d m \<Longrightarrow> lmdb_key_ok k \<Longrightarrow>
        tx_get (ro_tx L) t env d k = (case bt_get m k of Some v \<Rightarrow> Ok v | None \<Rightarrow> Err NotFound)"
begin

text \<open>
  States whose callback was called for every resize so far satisfy the laws of the environment too, so
  every lemma on the loops also says what the callback was told.
\<close>

abbreviation "telling cb env \<equiv> told actions callback_of cb env"

lemma telling_engine:
  "headroom_engine L S actions (\<lambda>env d m n. idle env d m n \<and> telling cb env)
    (\<lambda>w env d b m n. writing w env d b m n \<and> telling cb env) (\<lambda>w env d b n. failed w env d b n \<and> telling cb env) fits"
proof (unfold_locales, goal_cases)
  case (4 env d m n)
  then show ?case using resize_idle resize_calls told_called by metis
next
  case (5 env d m n)
  then show ?case using begin_writer begin_calls told_called by metis
next
  case (6 w env d b m n k v)
  then show ?case using put_writer [of w env d b m n k v] put_calls told_called by metis
next
  case (7 w env d b m n)
  then show ?case using commit_writer [of w env d b m n] commit_calls told_called by metis
next
  case (8 w env d b n)
  then show ?case using drop_failed drop_calls told_called by metis
next
  case (9 env d m n w env' n' k v)
  then show ?case using headroom by blast
next
  case (10 w env d b m n k v w' env')
  then show ?case using put_full by blast
qed (simp_all add: step_positive fits_mono fits_some)


lemma open_test_db_ok:
  assumes "fresh_path path" and "S = test_resize_settings"
  shows "\<exists>s d. open_test_db L settings path = Ok s \<and>
    rests (\<lambda>env d m n. idle env d m n \<and> telling (Some pushing_callback) env) s d bt_empty (unat initial_size) \<and>
    actions (lm_env s) = [] \<and> \<not> map_resize_scheduled s"
proof -
  let ?cfg = "lmdb_new L path (ims_from (ms_from_bytes initial_size)) (settings test_resize_settings)
    (mrc_new pushing_callback)"
  let ?desc = "\<lparr>map_descs = DbMapsData [db_map_desc_new ''SomeDb'']\<rparr>"
  let ?bld = "lmdb_builder ?cfg ?desc"
  have bld: "eb_map_size ?bld = Some initial_size" "eb_resize_settings ?bld = settings S" "eb_max_dbs ?bld = 1"
    "eb_resize_callback ?bld = Some pushing_callback"
    using assms(2)
    by (simp_all add: lmdb_builder_def lmdb_new_def ims_from_def into_memsize_def ms_from_bytes_def mrc_new_def
        desc_map_count_def maps_map_count_def)
  from open_fresh [OF assms(1) bld(1-3), of "desc_name (db_map_desc_new ''SomeDb'')"] obtain env d env' where
    "env_open L ?bld path = Ok env" "env_create_db L env (Some (desc_name (db_map_desc_new ''SomeDb''))) = (Ok d, env')"
    "idle env' d bt_empty (unat initial_size)" "actions env' = []" "callback_of env' = Some pushing_callback"
    unfolding bld(4) by blast
  with make_dir [OF assms(1)] show ?thesis
    by (simp add: open_test_db_def lmdb_open_def lmdb_new_def maps_try_transform_def db_maps_def lmdb_open_db_def
        rests_def o_unwrap_def told_def)
qed

lemma check_data_ok:
  assumes "rests idle s d m n" and "\<forall>e \<in> set data. entry_ok e" and "\<forall>(k, v) \<in> set data. bt_get m k = Some v"
  shows "check_data L data s = Ok ()"
proof -
  obtain t env' where t: "begin_ro_txn L (lm_env s) = (Ok t, env')" "reading t env' d m"
    using begin_reader assms(1) by (metis rests_def)
  have "check_entry (db_tx_get (errors L) (ro_tx L) t (s\<lparr>lm_env := env'\<rparr>) (DbMapId 0) k) v = Ok ()"
    if "(k, v) \<in> set data" for k v
  proof -
    have "lmdb_key_ok k" "bt_get m k = Some v" using assms(2,3) that by (auto intro: entry_ok_key)
    with get_reader [OF t(2), of k] assms(1) show ?thesis
      by (simp add: check_entry_def check_def db_tx_get_def maps_index_first rests_def o_unwrap_def)
  qed
  then have "\<forall>e \<in> set data. (\<lambda>(k, v). check_entry
      (db_tx_get (errors L) (ro_tx L) t (s\<lparr>lm_env := env'\<rparr>) (DbMapId 0) k) v) e = Ok ()" by auto
  from o_collect_all_Ok [OF this] t(1) show ?thesis
    by (simp add: check_data_def lmdb_transaction_ro_def start_transaction_def o_unwrap_def)
qed

lemma check_written:
  assumes "rests idle s d (puts xs bt_empty) n" and "mset xs = mset data" and "bt_inv data" and "\<forall>e \<in> set data. entry_ok e"
  shows "check_data L data s = Ok ()"
  using assms check_data_ok [of s d data n data]
  by (auto simp: puts_permutation bt_get_in_set)

text \<open>What the test finds when it looks at the vector of the callback.\<close>

lemma check_told:
  assumes "rests (\<lambda>env d m n. idle env d m n \<and> telling (Some pushing_callback) env) s d m n"
    and "steps_ok S n0 (actions (lm_env s)) n" and "n \<noteq> n0" and "S = test_resize_settings"
  shows "check_actions test_resize_settings (resize_actions_for_check callback_of s) = (Ok () :: unit res)"
proof -
  have "resize_actions_for_check callback_of s = actions (lm_env s)"
    using assms(1) by (intro told_pushing) (simp add: rests_def)
  moreover have "actions (lm_env s) \<noteq> []" using assms(2,3) by (auto simp: steps_ok_def)
  ultimately show ?thesis using steps_ok_check [OF assms(2)] assms(4) by simp
qed

text \<open>The two tests, on data that twice the initial size has no room for.\<close>

lemma tests_pass:
  assumes "fresh_path path" and S: "S = test_resize_settings" and data: "test_data G r = Ok data"
    and big: "\<not> fits (2 ^ 21) data"
  shows "auto_map_resize_between_txs L settings callback_of path G r = Ok ()"
    and "auto_map_resize_between_puts L settings callback_of path G r = Some (Ok ())"
proof -
  let ?idle = "\<lambda>env d m n. idle env d m n \<and> telling (Some pushing_callback) env"
  let ?writing = "\<lambda>w env d b m n. writing w env d b m n \<and> telling (Some pushing_callback) env"
  note engine = telling_engine [of "Some pushing_callback"]
  note growing = headroom_engine.axioms(1) [OF engine]
  obtain s d where s: "open_test_db L settings path = Ok s" "rests ?idle s d bt_empty (2 ^ 20)"
    "actions (lm_env s) = []" "\<not> map_resize_scheduled s"
    using open_test_db_ok [OF assms(1) S] by (auto simp: initial_size_def)
  have ok: "bt_inv data" "\<forall>e \<in> set data. entry_ok e" "data \<noteq> []" using test_data_ok [of G r] data by auto
  have steps: "steps_ok S (2 ^ 20) (actions (lm_env s)) (2 ^ 20)" using s(3) by (simp add: steps_ok_def)
  have check: "check_data L data s' = Ok ()" if "rests ?idle s' d (puts xs bt_empty) n'" "mset xs = mset data" for s' n' xs
    using that ok(1,2) by (intro check_written [of s' d xs n']) (simp_all add: rests_def)
  obtain s' n' where w: "write_each L data 0 s = (Ok (length data), s')" "rests ?idle s' d (puts data bt_empty) n'"
    "steps_ok S (2 ^ 20) (actions (lm_env s')) n'" "fits n' (puts data bt_empty)"
    using headroom_engine.write_each_ok [OF engine s(2,4) steps ok(2), of 0] ok(3) by auto
  have "puts data bt_empty = data" using ok(1) refl by (rule puts_permutation)
  with w(4) big have "n' \<noteq> 2 ^ 20" using fits_mono [of "2 ^ 20" data "2 ^ 21"] by auto
  from check_told [OF w(2,3) this S] check [OF w(2) refl] show "auto_map_resize_between_txs L settings callback_of path G r = Ok ()"
    using s(1) data w(1) ok(3) by (simp add: auto_map_resize_between_txs_def check_def)
  obtain N where N: "\<forall>xs. set xs \<subseteq> set data \<and> length xs \<le> length data \<longrightarrow> fits N (puts xs bt_empty)"
    using room_for_all by blast
  obtain k1 s' n' xs where loop: "write_loop L s data 0 = Some (Ok k1, s')" "mset xs = mset data"
    "rests ?idle s' d (puts xs bt_empty) n'" "steps_ok S (2 ^ 20) (actions (lm_env s')) n'"
    "k1 = 0 \<or> growing_engine.next_size S s (2 ^ 20) + min_resize_step S \<le> n'"
    "k1 = 0 \<and> data \<noteq> [] \<and> \<not> map_resize_scheduled s \<longrightarrow> growing_engine.wrote_soon L S ?writing (2 ^ 20) data bt_empty"
    using growing_engine.write_loop_ends [OF growing N ok(2) s(2) steps refl, of 0]
    by (elim exE conjE) (rule that; assumption)
  have "0 < k1"
  proof (rule ccontr)
    assume "\<not> 0 < k1"
    with loop(6) ok(3) s(4) have "growing_engine.wrote_soon L S ?writing (2 ^ 20) data bt_empty" by simp
    from headroom_engine.wrote_soon_fits [OF engine this] obtain ys where
      "mset ys = mset data" "fits (2 ^ 20 + max_resize_step S) (puts ys bt_empty)" by blast
    with big puts_permutation [OF ok(1)] show False by (simp add: S test_resize_settings_def)
  qed
  moreover from this loop(5) have "n' \<noteq> 2 ^ 20"
    using step_positive by (simp add: growing_engine.next_size_def [OF growing])
  from check_told [OF loop(3,4) this S] check [OF loop(3,2)]
  have "check_actions test_resize_settings (resize_actions_for_check callback_of s') = (Ok () :: unit res)"
    "check_data L data s' = Ok ()" .
  ultimately show "auto_map_resize_between_puts L settings callback_of path G r = Some (Ok ())"
    using s(1) data loop(1) by (simp add: auto_map_resize_between_puts_def check_def)
qed

end

end
