(* ===== verification/Resize_Properties.thy ===== *)
theory Resize_Properties
  imports Resize_Contract
begin

text \<open>
  Automatic resizing: the loop that starts a transaction over when the map is full ends, within a bound
  on the number of its failures, and both tests of resizing pass. A reference environment counts the
  bytes of the keys and values it holds.
\<close>

section \<open>A reference environment\<close>

definition used :: "(data, data) btree \<Rightarrow> nat" where
  "used m = sum_list (map (\<lambda>(k, v). length k + length v) m)"

definition used_fits :: "nat \<Rightarrow> (data, data) btree \<Rightarrow> bool" where
  "used_fits n m \<longleftrightarrow> used m \<le> n"

lemma used_simps [simp]: "used [] = 0" "used ((k, v) # m) = length k + length v + used m"
  by (simp_all add: used_def)

lemma used_insert_le: "used (bt_insert k v m) \<le> used m + length k + length v"
  by (induction m) auto

lemma used_insert_new: "k \<notin> fst ` set m \<Longrightarrow> used (bt_insert k v m) = used m + length k + length v"
  by (induction m) auto

text \<open>
  Only one map is ever created; a begin resizes when a further entry might not fit. A transaction is what it
  has written, or \<open>None\<close> after a failed write: then every further call fails. A resize calls the callback.
\<close>

record grow_env =
  gr_size :: nat
  gr_db :: "(data, data) btree"
  gr_log :: "resize_info list"
  gr_callback :: "resize_callback option"

definition gr_resize :: "grow_env \<Rightarrow> grow_env" where
  "gr_resize env = (let info = \<lparr>old_size = gr_size env, new_size = gr_size env + 2 ^ 16\<rparr> in
     env\<lparr>gr_size := gr_size env + 2 ^ 16, gr_log := gr_log env @ [info],
         gr_callback := map_option (call_callback info) (gr_callback env)\<rparr>)"

lemma gr_resize_simps [simp]:
  "gr_size (gr_resize env) = gr_size env + 2 ^ 16" "gr_db (gr_resize env) = gr_db env"
  "gr_log (gr_resize env) = gr_log env @ [\<lparr>old_size = gr_size env, new_size = gr_size env + 2 ^ 16\<rparr>]"
  by (simp_all add: gr_resize_def Let_def)

definition grow_put :: "data \<Rightarrow> data \<Rightarrow> (data, data) btree option \<Rightarrow> grow_env \<Rightarrow> unit lres \<times> (data, data) btree option \<times> grow_env" where
  "grow_put k v w env = (case w of
     None \<Rightarrow> (Err BadTxn, None, env)
   | Some m \<Rightarrow> if used_fits (gr_size env) (bt_insert k v m) then (Ok (), Some (bt_insert k v m), env)
       else (Err MapFull, None, env))"

definition grow_get :: "(data, data) btree option \<Rightarrow> data \<Rightarrow> data lres" where
  "grow_get w k = (case w of
     None \<Rightarrow> Err BadTxn
   | Some m \<Rightarrow> (case bt_get m k of None \<Rightarrow> Err NotFound | Some v \<Rightarrow> Ok v))"

definition grow_engine ::
    "(grow_env, unit, (data, data) btree, (data, data) btree, (data, data) btree option, resize_settings,
      resize_callback, bool) lmdb_api" where
  "grow_engine =
     \<lparr>env_open = (\<lambda>b p. Ok \<lparr>gr_size = (case eb_map_size b of None \<Rightarrow> 2 ^ 20 | Some sz \<Rightarrow> unat sz),
        gr_db = bt_empty, gr_log = [], gr_callback = eb_resize_callback b\<rparr>),
      env_create_db = (\<lambda>env n. (Ok (), env)),
      env_do_resize = (\<lambda>env sz. (Ok (), gr_resize env)),
      begin_ro_txn = (\<lambda>env. (Ok (gr_db env), env)),
      begin_rw_txn = (\<lambda>env sz.
        (Ok (Some (gr_db env)), if gr_size env < used (gr_db env) + 10500 then gr_resize env else env)),
      ro_tx = \<lparr>tx_get = (\<lambda>t env d k. grow_get (Some t) k),
               tx_open_ro_cursor = (\<lambda>t env d. Ok t), tx_drop = (\<lambda>_ env. env)\<rparr>,
      rw_tx = \<lparr>tx_get = (\<lambda>w env d k. grow_get w k),
               tx_open_ro_cursor = (\<lambda>w env d. case w of None \<Rightarrow> Err BadTxn | Some m \<Rightarrow> Ok m),
               tx_drop = (\<lambda>_ env. env)\<rparr>,
      into_iter_start = (\<lambda>cur. map Ok cur),
      into_iter_from = (\<lambda>cur p. map Ok (bt_range_from cur p)),
      txn_put = (\<lambda>w env d k v. grow_put k v w env),
      txn_del = (\<lambda>w env d k. case w of
         None \<Rightarrow> (Err BadTxn, None, env)
       | Some m \<Rightarrow> if bt_get m k = None then (Err NotFound, w, env) else (Ok (), Some (bt_remove k m), env)),
      txn_commit = (\<lambda>w env. case w of None \<Rightarrow> (Err BadTxn, env) | Some m \<Rightarrow> (Ok (), env\<lparr>gr_db := m\<rparr>)),
      default_flags = False,
      flag_write_map = (\<lambda>_. True),
      create_dir_all = (\<lambda>_. Ok ()),
      errors = ref_error_env\<rparr>"

definition gr_idle :: "grow_env \<Rightarrow> unit \<Rightarrow> (data, data) btree \<Rightarrow> nat \<Rightarrow> bool" where
  "gr_idle env d m n \<longleftrightarrow> gr_db env = m \<and> gr_size env = n \<and> used m \<le> n"

definition gr_reading :: "(data, data) btree \<Rightarrow> grow_env \<Rightarrow> unit \<Rightarrow> (data, data) btree \<Rightarrow> bool" where
  "gr_reading t env d m \<longleftrightarrow> t = m"

definition gr_writing ::
    "(data, data) btree option \<Rightarrow> grow_env \<Rightarrow> unit \<Rightarrow> (data, data) btree \<Rightarrow> (data, data) btree \<Rightarrow> nat \<Rightarrow> bool" where
  "gr_writing w env d b m n \<longleftrightarrow> gr_idle env d b n \<and> w = Some m \<and> used m \<le> n"

definition gr_failed ::
    "(data, data) btree option \<Rightarrow> grow_env \<Rightarrow> unit \<Rightarrow> (data, data) btree \<Rightarrow> nat \<Rightarrow> bool" where
  "gr_failed w env d b n \<longleftrightarrow> gr_idle env d b n \<and> w = None"

lemmas gr_states = gr_idle_def gr_reading_def gr_writing_def gr_failed_def grow_engine_def grow_put_def grow_get_def

interpretation grow: headroom_engine grow_engine test_resize_settings gr_log gr_idle gr_writing gr_failed used_fits
proof (unfold_locales, goal_cases)
  case (4 env d m n)
  then show ?case by (simp add: gr_states grows_def test_resize_settings_def)
next
  case (5 env d m n)
  then show ?case by (auto simp: gr_states grows_def test_resize_settings_def)
next
  case (6 w env d b m n k v)
  then show ?case by (auto simp: gr_states used_fits_def)
next
  case (9 env d m n w env' n' k v)
  have "used (bt_insert k v m) \<le> used m + 10500"
    using used_insert_le [of k v m] 9(4) by (simp add: entry_ok_def)
  moreover have "gr_db env = m" "used m \<le> gr_size env" using 9(1) by (auto simp: gr_idle_def)
  moreover have "env' = (if gr_size env < used (gr_db env) + 10500 then gr_resize env else env)"
    using 9(2) by (auto simp: grow_engine_def)
  ultimately have "used (bt_insert k v m) \<le> gr_size env'" by simp
  moreover have "gr_size env' = n'" using 9(3) by (simp add: gr_writing_def gr_idle_def)
  ultimately show ?case by (simp add: used_fits_def)
next
  case (10 w env d b m n k v w' env')
  then show ?case by (auto simp: gr_states split: if_splits)
qed (auto simp: gr_states used_fits_def test_resize_settings_def)

lemma called_resize: "called gr_log gr_callback env (gr_resize env)"
  unfolding called_def
  by (rule exI [of _ "[\<lparr>old_size = gr_size env, new_size = gr_size env + 2 ^ 16\<rparr>]"])
    (cases "gr_callback env"; simp add: gr_resize_def Let_def)

lemma called_same: "gr_log env' = gr_log env \<Longrightarrow> gr_callback env' = gr_callback env \<Longrightarrow> called gr_log gr_callback env env'"
  unfolding called_def by (rule exI [of _ "[]"]) (cases "gr_callback env"; simp)

interpretation grow: resize_test_engine grow_engine test_resize_settings gr_log gr_idle gr_writing gr_failed used_fits
  "\<lambda>S. S" gr_callback gr_reading "\<lambda>_. True"
proof (unfold_locales, goal_cases)
  case (2 p bld sz name)
  then show ?case by (auto simp: gr_states bt_empty_def)
qed (auto simp: gr_states called_resize called_same split: option.splits if_splits)

section \<open>The loop that starts over\<close>

text \<open>
  C16. The loop that starts a transaction over whenever a write or the commit failed always returns, when
  nothing but a full map makes writes fail: it returns with all the data committed, in a map that may
  have been resized in proper steps. A transaction whose write failed can only be dropped, and a commit may find
  the map full after writes that succeeded. Each failed write costs a resize of at least the smallest step, so
  \<open>k\<close> failures mean that the map was at least \<open>k - 1\<close> steps larger than at first, and still smaller
  than any size \<open>N\<close> that has room for the data.
\<close>

theorem restarted_writes_end:
  assumes "growing_engine L S actions idle writing failed fits"
    and "rests idle s d m n" and "steps_ok S n0 (actions (lm_env s)) n" and "\<forall>e \<in> set data. entry_ok e"
  shows "\<exists>k s' n' xs. write_loop L s data 0 = Some (Ok k, s') \<and> mset xs = mset data \<and>
    rests idle s' d (puts xs m) n' \<and> steps_ok S n0 (actions (lm_env s')) n' \<and>
    (\<forall>N. (\<forall>xs. set xs \<subseteq> set data \<and> length xs \<le> length data \<longrightarrow> fits N (puts xs m)) \<longrightarrow>
      k = 0 \<or> n + (k - 1) * min_resize_step S < N)"
proof -
  note ends = growing_engine.write_loop_ends [OF assms(1) _ assms(4,2,3) refl, of _ 0]
  obtain N where N: "\<forall>xs. set xs \<subseteq> set data \<and> length xs \<le> length data \<longrightarrow> fits N (puts xs m)"
    using growing_engine.room_for_all [OF assms(1)] by blast
  from ends [OF this] obtain k s' n' xs where r: "write_loop L s data 0 = Some (Ok k, s')" "mset xs = mset data"
    "rests idle s' d (puts xs m) n'" "steps_ok S n0 (actions (lm_env s')) n'" by blast
  have "k = 0 \<or> n + (k - 1) * min_resize_step S < N"
    if "\<forall>xs. set xs \<subseteq> set data \<and> length xs \<le> length data \<longrightarrow> fits N (puts xs m)" for N
    using ends [OF that] r(1) growing_engine.next_size_def [OF assms(1), of s n] by auto
  with r show ?thesis by blast
qed

text \<open>A map of one byte that takes an entry of eleven bytes: the first write fails, the second succeeds.\<close>

theorem restarted_writes_end_witness:
  "\<exists>k s'. write_loop grow_engine \<lparr>lm_env = \<lparr>gr_size = 1, gr_db = [], gr_log = [], gr_callback = None\<rparr>,
      lm_dbs = DbMapsData [()], map_resize_scheduled = False\<rparr> [([1], replicate 10 2)] 0 = Some (Ok k, s')"
proof -
  let ?s = "\<lparr>lm_env = \<lparr>gr_size = 1, gr_db = [], gr_log = [], gr_callback = None\<rparr>, lm_dbs = DbMapsData [()],
    map_resize_scheduled = False\<rparr>"
  have "rests gr_idle ?s () [] 1" by (simp add: rests_def gr_idle_def)
  moreover have "steps_ok test_resize_settings 1 (gr_log (lm_env ?s)) 1" by (simp add: steps_ok_def)
  moreover have "\<forall>e \<in> set [([1], replicate 10 2)]. entry_ok e" by (simp add: entry_ok_def)
  ultimately show ?thesis
    using restarted_writes_end [OF grow.growing_engine_axioms, of ?s "()" "[]" 1 1 "[([1], replicate 10 2)]"]
    by blast
qed

section \<open>The tests\<close>

text \<open>
  C26. Both tests of automatic resizing pass, for any random data that twice the initial map has no room
  for, over an environment that resizes on demand, leaves room for an entry at the begin of a transaction
  and calls the callback it was opened with for each of its resizes: no write or commit of an entry of its
  own fails, the transaction of all the data is started over often enough, the callback of the test
  reached the environment and was called at least once, every resize it was told of takes a step within
  the settings, and all the data is found afterwards.
\<close>

theorem resize_tests_pass:
  assumes "resize_test_engine L test_resize_settings actions idle writing failed fits settings callback_of reading fresh_path"
    and "fresh_path path" and "test_data G r = Ok data" and "\<not> fits (2 ^ 21) data"
  shows "auto_map_resize_between_txs L settings callback_of path G r = Ok () \<and>
    auto_map_resize_between_puts L settings callback_of path G r = Some (Ok ())"
  using resize_test_engine.tests_pass [OF assms(1,2) refl assms(3,4)] by blast

text \<open>
  A generator whose sizes are the largest and whose bytes number the keys: entry \<open>j\<close> of the data has
  the two digits of \<open>j\<close> as the first bytes of its key.
\<close>

definition digit_rng :: "nat rng" where
  "digit_rng =
     \<lparr>gen_u8 = (\<lambda>r. (if r mod 10500 = 0 then of_nat (r div 10500 mod 256)
        else if r mod 10500 = 1 then of_nat (r div 10500 div 256) else 0, Suc r)),
      gen_usize = (\<lambda>r. (9999, r)),
      gen_range = (\<lambda>lo hi r. (lo, r)),
      gen_range_u128 = (\<lambda>lo hi r. (lo, r)),
      sample_alphanumeric = (\<lambda>r. (0x61, r))\<rparr>"

definition key_number :: "data \<Rightarrow> nat" where
  "key_number k = unat (k ! 0) + 256 * unat (k ! 1)"

lemma gen_u8s_digit: "gen_u8s digit_rng n r = (map (\<lambda>x. fst (gen_u8 digit_rng x)) [r..<r + n], r + n)"
proof (induction n arbitrary: r)
  case (Suc n)
  have "[r..<r + Suc n] = r # [Suc r..<Suc r + n]" by (simp add: upt_rec)
  then show ?case by (simp add: Suc) (simp add: digit_rng_def)
qed simp

lemma key_number_digit:
  assumes "j < 65536"
  shows "key_number (fst (gen_u8s digit_rng 500 (10500 * j))) = j"
proof -
  have "j div 256 < 256" "Suc (10500 * j) div 10500 = j" "Suc (10500 * j) mod 10500 = 1"
    using assms div_mult_self2 [of 10500 1 j] mod_mult_self2 [of 1 10500 j] by simp_all
  then show ?thesis
    by (simp add: key_number_def gen_u8s_digit nth_map nth_upt) 
      (simp add: digit_rng_def unat_of_nat)
qed

lemma digit_data:
  assumes "j \<le> 500" and "used m = 10500 * j" and "\<forall>e \<in> set m. key_number (fst e) < j"
  shows "\<exists>m' r. data_loop digit_rng 5242880 500 10000 m (10500 * j) (10500 * j) =
    (Ok m' :: ((data, data) btree, 'e) outcome, r) \<and> 2 ^ 21 < used m'"
  using assms
proof (induction "500 - j" arbitrary: j m)
  case 0
  then show ?case by (subst data_loop.simps) simp
next
  case (Suc n)
  then have j: "j < 500" by simp
  obtain k where k: "gen_u8s digit_rng 500 (10500 * j) = (k, 10500 * j + 500)" by (simp add: gen_u8s_digit)
  obtain v where v: "gen_u8s digit_rng 10000 (10500 * j + 500) = (v, 10500 * Suc j)" by (simp add: gen_u8s_digit)
  have num: "key_number k = j" using key_number_digit [of j] j k by simp
  have len: "length k = 500" "length v = 10000"
    using length_gen_u8s [of digit_rng 500 "10500 * j"] length_gen_u8s [of digit_rng 10000 "10500 * j + 500"] k v
    by simp_all
  have "k \<notin> fst ` set m" using Suc.prems(3) num by (metis image_iff less_irrefl)
  then have "used (bt_insert k v m) = 10500 * Suc j" using Suc.prems(2) len by (simp add: used_insert_new)
  moreover have "\<forall>e \<in> set (bt_insert k v m). key_number (fst e) < Suc j"
    using Suc.prems(3) num by (auto dest!: set_bt_insert)
  moreover have "n = 500 - Suc j" "Suc j \<le> 500" using Suc.hyps(2) j by simp_all
  ultimately obtain m' r where IH: "data_loop digit_rng 5242880 500 10000 (bt_insert k v m) (10500 * Suc j) (10500 * Suc j) =
      (Ok m' :: ((data, data) btree, 'e) outcome, r)" "2 ^ 21 < used m'"
    using Suc.hyps(1) [of "Suc j" "bt_insert k v m"] by blast
  have size: "random_size digit_rng 500 x = (Ok 500, x)" "random_size digit_rng 10000 x = (Ok 10000, x)" for x
    by (simp_all add: random_size_def digit_rng_def)
  have "10500 * j < 5242880" "10500 * j + 500 + 10000 = 10500 * Suc j" using j by simp_all
  then have "data_loop digit_rng 5242880 500 10000 m (10500 * j) (10500 * j) =
      data_loop digit_rng 5242880 500 10000 (bt_insert k v m) (10500 * Suc j) (10500 * Suc j)"
    using j by (subst data_loop.simps) (simp only: size k v if_True prod.case outcome.case)
  with IH show ?case by metis
qed

theorem resize_tests_pass_witness:
  "auto_map_resize_between_txs grow_engine (\<lambda>S. S) gr_callback ''path'' digit_rng 0 = Ok () \<and>
   auto_map_resize_between_puts grow_engine (\<lambda>S. S) gr_callback ''path'' digit_rng 0 = Some (Ok ())"
proof -
  have "unat (initial_size * 5) = 5242880" by (simp add: initial_size_def)
  then obtain data where "test_data digit_rng 0 = Ok data" "2 ^ 21 < used data"
    using digit_data [of 0 bt_empty, where 'e = storage_error]
    by (auto simp: test_data_def create_random_data_map_with_target_byte_size_def bt_empty_def)
  then show ?thesis
    by (intro resize_tests_pass [OF grow.resize_test_engine_axioms, where G = digit_rng and data = data]) (simp_all add: used_fits_def)
qed

end
