(* ===== verification/Test_Random.thy ===== *)
theory Test_Random
  imports Test_Utils Serialization
begin

text \<open>
  Seeds of the test generators, their text form and its parsing (\<open>test-utils/src/random.rs\<close>), and the
  hex and random string helpers of \<open>test-utils/src/lib.rs\<close>. The parsing of a \<open>u64\<close> is that of the
  Rust standard library; the hex crate is a parameter.
\<close>

section \<open>Parsing of u64\<close>

datatype int_error_kind = Empty | InvalidDigit | PosOverflow

definition digit_of :: "char \<Rightarrow> nat option" where
  "digit_of c = (let n = of_char c in if 48 \<le> n \<and> n \<le> (57 :: nat) then Some (n - 48) else None)"

text \<open>Every step multiplies by ten and adds a digit, each with a check for overflow.\<close>

fun parse_digits :: "nat \<Rightarrow> string \<Rightarrow> (nat, int_error_kind) outcome" where
  "parse_digits acc [] = Ok acc"
| "parse_digits acc (c # cs) =
     (case digit_of c of
        None \<Rightarrow> Err InvalidDigit
      | Some d \<Rightarrow>
          if 2 ^ 64 \<le> acc * 10 then Err PosOverflow
          else if 2 ^ 64 \<le> acc * 10 + d then Err PosOverflow
          else parse_digits (acc * 10 + d) cs)"

definition parse_u64 :: "string \<Rightarrow> (64 word, int_error_kind) outcome" where
  "parse_u64 s =
     (if s = [] then Err Empty
      else if s = ''+'' \<or> s = ''-'' then Err InvalidDigit
      else o_map of_nat (parse_digits 0 (if hd s = CHR ''+'' then tl s else s)))"

section \<open>Seeds\<close>

datatype seed = Seed (seed_value: "64 word")

definition seed_from_u64 :: "64 word \<Rightarrow> seed" where
  "seed_from_u64 v = Seed v"

definition seed_from :: "64 word \<Rightarrow> seed" where
  "seed_from v = seed_from_u64 v"

text \<open>The line printed for a seed; \<open>'r\<close> is the state of the operating system's entropy.\<close>

definition print_with_decoration :: "seed \<Rightarrow> string \<Rightarrow> string" where
  "print_with_decoration self test_name = test_name @ '' seed: '' @ dec_digits (unat (seed_value self)) @ ''\<newline>''"

definition from_entropy :: "('r \<Rightarrow> 64 word \<times> 'r) \<Rightarrow> 'r \<Rightarrow> seed \<times> 'r" where
  "from_entropy gen r = (case gen r of (v, r') \<Rightarrow> (Seed v, r'))"

definition from_entropy_and_print ::
    "('r \<Rightarrow> 64 word \<times> 'r) \<Rightarrow> string \<Rightarrow> 'r \<Rightarrow> seed \<times> string \<times> 'r" where
  "from_entropy_and_print gen test_name r =
     (case gen r of (v, r') \<Rightarrow> let result = Seed v in (result, print_with_decoration result test_name, r'))"

definition seed_from_str :: "string \<Rightarrow> (seed, int_error_kind) outcome" where
  "seed_from_str s = o_bind (parse_u64 s) (\<lambda>v. Ok (seed_from_u64 v))"

section \<open>What parses\<close>

abbreviation is_digit :: "char \<Rightarrow> bool" where
  "is_digit c \<equiv> digit_of c \<noteq> None"

abbreviation digits_value :: "nat \<Rightarrow> string \<Rightarrow> nat" where
  "digits_value a s \<equiv> foldl (\<lambda>a c. 10 * a + (of_char c - 48)) a s"

lemma digit_of_Some: "digit_of c = Some d \<Longrightarrow> d = of_char c - 48"
  by (auto simp: digit_of_def Let_def split: if_splits)

lemma digits_value_ge: "a \<le> digits_value a s"
proof (induction s arbitrary: a)
  case (Cons c s)
  have "a \<le> 10 * a + (of_char c - 48)" by simp
  also have "\<dots> \<le> digits_value (10 * a + (of_char c - 48)) s" by (rule Cons)
  finally show ?case by simp
qed simp

lemma parse_digits_Ok_iff:
  "a < 2 ^ 64 \<Longrightarrow> parse_digits a s = Ok n \<longleftrightarrow> (\<forall>c \<in> set s. is_digit c) \<and> digits_value a s = n \<and> n < 2 ^ 64"
proof (induction s arbitrary: a)
  case (Cons c s)
  show ?case
  proof (cases "digit_of c")
    case (Some d)
    let ?b = "10 * a + (of_char c - 48)"
    have d: "a * 10 + d = ?b" "a * 10 \<le> ?b" using digit_of_Some [OF Some] by simp_all
    show ?thesis
    proof (cases "?b < 2 ^ 64")
      case True
      with d have "parse_digits a (c # s) = parse_digits ?b s" using Some by (simp add: mult.commute)
      with Cons.IH [OF True] Some show ?thesis by simp
    next
      case False
      with d(1) have "2 ^ 64 \<le> a * 10 + d" by simp
      then have "parse_digits a (c # s) = Err PosOverflow" using Some by (cases "2 ^ 64 \<le> a * 10") simp_all
      moreover have "\<not> digits_value ?b s < 2 ^ 64" using False digits_value_ge [of ?b s] by linarith
      ultimately show ?thesis by auto
    qed
  qed simp
qed auto

lemma parse_digits_0: "parse_digits 0 t = Ok n \<longleftrightarrow> list_all is_digit t \<and> dec_value t = n \<and> n < 2 ^ 64"
  using parse_digits_Ok_iff [of 0 t n] by (simp add: list_all_iff dec_value_def)

text \<open>The text of a number consists of digits.\<close>

lemma dec_digits_digits: "c \<in> set (dec_digits n) \<Longrightarrow> is_digit c"
proof (induction n rule: dec_digits.induct)
  case (1 n)
  have digit: "is_digit (char_of (48 + d))" if "d < 10" for d :: nat
    using of_char_digit [OF that] that by (simp add: digit_of_def Let_def)
  show ?case
  proof (cases "n < 10")
    case True
    with 1(2) digit [of n] show ?thesis by (subst (asm) dec_digits.simps) simp
  next
    case False
    then have "c \<in> set (dec_digits (n div 10)) \<or> c = char_of (48 + n mod 10)"
      using 1(2) by (subst (asm) dec_digits.simps) auto
    with 1(1) [OF False] digit [of "n mod 10"] show ?thesis by auto
  qed
qed

lemma dec_digits_not_Nil: "dec_digits n \<noteq> []"
  by (subst dec_digits.simps) simp

lemma parse_digits_dec: "n < 2 ^ 64 \<Longrightarrow> parse_digits 0 (dec_digits n) = Ok n"
  using parse_digits_Ok_iff [of 0 "dec_digits n" n] dec_digits_digits [of _ n] dec_value_digits [of n]
  by (simp add: dec_value_def)

section \<open>Hex and random strings\<close>

text \<open>The functions of the hex crate that are used.\<close>

record hex_api =
  encode_hex :: "data \<Rightarrow> string"
  hex_decode :: "string \<Rightarrow> data option"

definition encode_to_hex :: "hex_api \<Rightarrow> 'a codec \<Rightarrow> 'a \<Rightarrow> string" where
  "encode_to_hex H C to_encode = encode_hex H (enc C to_encode)"

definition assert_encoded_eq :: "hex_api \<Rightarrow> 'a codec \<Rightarrow> 'a \<Rightarrow> string \<Rightarrow> (unit, 'e) outcome" where
  "assert_encoded_eq H C to_encode expected_hex =
     (if encode_hex H (enc C to_encode) = expected_hex then Ok () else Panic ''assertion failed'')"

definition decode_from_hex :: "hex_api \<Rightarrow> 'a codec \<Rightarrow> string \<Rightarrow> ('a, 'e) outcome" where
  "decode_from_hex H C to_decode =
     (case hex_decode H to_decode of
        None \<Rightarrow> Panic ''The provided string is a hex''
      | Some b \<Rightarrow> (case decode_all C b of None \<Rightarrow> Panic ''The decoding succeeded'' | Some x \<Rightarrow> Ok x))"

text \<open>A range of lengths: \<open>lo..hi\<close> or \<open>lo..=hi\<close>.\<close>

datatype size_range = HalfOpen usize usize | Inclusive usize usize

fun range_is_empty :: "size_range \<Rightarrow> bool" where
  "range_is_empty (HalfOpen lo hi) \<longleftrightarrow> \<not> lo < hi"
| "range_is_empty (Inclusive lo hi) \<longleftrightarrow> \<not> lo \<le> hi"

fun in_size_range :: "usize \<Rightarrow> size_range \<Rightarrow> bool" where
  "in_size_range n (HalfOpen lo hi) \<longleftrightarrow> lo \<le> n \<and> n < hi"
| "in_size_range n (Inclusive lo hi) \<longleftrightarrow> lo \<le> n \<and> n \<le> hi"

record 'r string_rng =
  gen_size :: "size_range \<Rightarrow> 'r \<Rightarrow> usize \<times> 'r"
  sample_string :: "usize \<Rightarrow> 'r \<Rightarrow> data \<times> 'r"

definition random_ascii_alphanumeric_string :: "'r string_rng \<Rightarrow> size_range \<Rightarrow> 'r \<Rightarrow> data \<times> 'r" where
  "random_ascii_alphanumeric_string G range_len r =
     (if range_is_empty range_len then ([], r)
      else (case gen_size G range_len r of (len, r) \<Rightarrow> sample_string G len r))"

text \<open>
  \<open>assert_matches_return_val!\<close>: a pattern with its guard is the partial function that gives the value of
  the output expression where it matches.
\<close>

definition assert_matches_return_val :: "('a \<Rightarrow> 'b option) \<Rightarrow> 'a \<Rightarrow> ('b, 'e) outcome" where
  "assert_matches_return_val pat x = (case pat x of Some out \<Rightarrow> Ok out | None \<Rightarrow> Panic ''Assertion failed'')"

definition assert_matches :: "('a \<Rightarrow> bool) \<Rightarrow> 'a \<Rightarrow> (unit, 'e) outcome" where
  "assert_matches pat x = assert_matches_return_val (\<lambda>x. if pat x then Some () else None) x"

section \<open>What the helpers rely on\<close>

locale hex_codec =
  fixes H :: hex_api
  assumes decode_encode_hex: "hex_decode H (encode_hex H b) = Some b"

locale alphanumeric_rng =
  fixes G :: "'r string_rng"
  assumes size_in_range: "\<not> range_is_empty sr \<Longrightarrow> in_size_range (fst (gen_size G sr r)) sr"
    and sample_length: "length (fst (sample_string G n r)) = n"
    and sample_alphanumeric: "b \<in> set (fst (sample_string G n r)) \<Longrightarrow> is_ascii_alphanumeric b"
begin

lemma random_string_shape:
  "case fst (random_ascii_alphanumeric_string G sr r) of
     s \<Rightarrow> (\<forall>b \<in> set s. is_ascii_alphanumeric b) \<and>
       (if range_is_empty sr then s = [] else in_size_range (length s) sr)"
proof (cases "range_is_empty sr")
  case False
  obtain n r' where n: "gen_size G sr r = (n, r')" by fastforce
  with size_in_range [OF False, of r] have "in_size_range n sr" by simp
  with False n sample_length [of n r'] sample_alphanumeric [of _ n r'] show ?thesis
    by (auto simp: random_ascii_alphanumeric_string_def)
qed (simp add: random_ascii_alphanumeric_string_def)

end

text \<open>Lower case hex, as the crate documents it, and a generator that counts.\<close>

definition hex_byte :: "byte \<Rightarrow> string" where
  "hex_byte b = [hex_digit (unat b div 16), hex_digit (unat b mod 16)]"

definition unhex :: "char \<Rightarrow> nat option" where
  "unhex c = (let n = of_char c :: nat in
     if 48 \<le> n \<and> n \<le> 57 then Some (n - 48)
     else if 97 \<le> n \<and> n \<le> 102 then Some (n - 87)
     else if 65 \<le> n \<and> n \<le> 70 then Some (n - 55) else None)"

fun hex_bytes :: "string \<Rightarrow> data option" where
  "hex_bytes [] = Some []"
| "hex_bytes [c] = None"
| "hex_bytes (c # d # cs) =
     (case (unhex c, unhex d, hex_bytes cs) of
        (Some h, Some l, Some bs) \<Rightarrow> Some (of_nat (16 * h + l) # bs)
      | _ \<Rightarrow> None)"

definition hex_ref :: hex_api where
  "hex_ref = \<lparr>encode_hex = (\<lambda>b. concat (map hex_byte b)), hex_decode = hex_bytes\<rparr>"

lemma unhex_hex_digit: "n < 16 \<Longrightarrow> unhex (hex_digit n) = Some n"
  by (auto simp: hex_digit_def unhex_def less_Suc_eq numeral_eq_Suc)

lemma hex_bytes_concat: "hex_bytes (concat (map hex_byte b)) = Some b"
proof (induction b)
  case (Cons x b)
  have "unat x < 2 ^ LENGTH(8)" by (rule unsigned_less)
  then have "unat x < 256" by simp
  then have "unat x div 16 < 16" by simp
  with Cons show ?case by (simp add: hex_byte_def unhex_hex_digit)
qed simp

interpretation hex_ref: hex_codec hex_ref
  by standard (simp add: hex_ref_def hex_bytes_concat)

fun range_first :: "size_range \<Rightarrow> usize" where
  "range_first (HalfOpen lo hi) = lo"
| "range_first (Inclusive lo hi) = lo"

definition counting_string_rng :: "nat string_rng" where
  "counting_string_rng =
     \<lparr>gen_size = (\<lambda>sr r. (range_first sr, Suc r)),
      sample_string = (\<lambda>n r. (map (\<lambda>i. 0x61 + of_nat (i mod 26)) [r..<r + n], r + n))\<rparr>"

interpretation counting_strings: alphanumeric_rng counting_string_rng
proof
  fix sr :: size_range and r :: nat
  assume "\<not> range_is_empty sr"
  then show "in_size_range (fst (gen_size counting_string_rng sr r)) sr"
    by (cases sr) (simp_all add: counting_string_rng_def)
next
  fix b n r
  assume "b \<in> set (fst (sample_string counting_string_rng n r))"
  then obtain i :: nat where "b = 0x61 + of_nat (i mod 26)" by (auto simp: counting_string_rng_def)
  then have "b = fst (sample_alphanumeric counting_rng i)" by (simp add: counting_rng_def)
  then show "is_ascii_alphanumeric b" by (simp add: counting.sample_ok)
qed (simp add: counting_string_rng_def)

lemma decode_encode_hex_value:
  assumes "hex_codec H" and "scale_codec C"
  shows "decode_from_hex H C (encode_to_hex H C x) = Ok x" and "assert_encoded_eq H C x (encode_to_hex H C x) = Ok ()"
  using hex_codec.decode_encode_hex [OF assms(1)] scale_codec.decode_all_enc [OF assms(2)]
  by (simp_all add: decode_from_hex_def encode_to_hex_def assert_encoded_eq_def)

section \<open>Properties\<close>

text \<open>
  C39. A seed survives being printed and parsed: the number in the printed line parses to the seed. And
  the texts that parse are exactly the decimal numbers below $2^{64}$, with leading zeros and one plus
  sign allowed.
\<close>

theorem seed_text_roundtrip:
  "print_with_decoration (Seed v) name = name @ '' seed: '' @ dec_digits (unat v) @ ''\<newline>'' \<and>
   seed_from_str (dec_digits (unat v)) = Ok (Seed v) \<and>
   (seed_from_str s = Ok (Seed v) \<longleftrightarrow>
     (let digits = (if s \<noteq> [] \<and> hd s = CHR ''+'' then tl s else s) in
       digits \<noteq> [] \<and> list_all is_digit digits \<and> dec_value digits = unat v))"
proof (intro conjI)
  have bound: "unat v < 2 ^ 64" using unsigned_less [of v] by simp
  have parse: "seed_from_str s = Ok (Seed v) \<longleftrightarrow>
     (let digits = (if s \<noteq> [] \<and> hd s = CHR ''+'' then tl s else s) in
       digits \<noteq> [] \<and> list_all is_digit digits \<and> dec_value digits = unat v)" for s
  proof -
    let ?t = "if s \<noteq> [] \<and> hd s = CHR ''+'' then tl s else s"
    have eq: "of_nat n = v \<longleftrightarrow> n = unat v" if "n < 2 ^ 64" for n
    proof -
      have "unat (of_nat n :: 64 word) = n" using that by (simp add: unsigned_of_nat take_bit_nat_eq_self)
      then show ?thesis by (metis word_unat_eq_iff)
    qed
    have "parse_digits 0 ?t = Ok n \<longleftrightarrow> list_all is_digit ?t \<and> dec_value ?t = n \<and> n < 2 ^ 64" for n
      by (rule parse_digits_0)
    then have "o_map of_nat (parse_digits 0 ?t) = Ok v \<longleftrightarrow> list_all is_digit ?t \<and> dec_value ?t = unat v"
      unfolding o_map_eq_Ok using eq bound by metis
    moreover have "\<not> list_all is_digit ''-''" by (simp add: digit_of_def)
    ultimately show ?thesis
      unfolding seed_from_str_def parse_u64_def Let_def
      by (cases s) (auto simp: seed_from_u64_def o_bind_eq_Ok split: if_splits)
  qed
  show "seed_from_str s = Ok (Seed v) \<longleftrightarrow>
     (let digits = (if s \<noteq> [] \<and> hd s = CHR ''+'' then tl s else s) in
       digits \<noteq> [] \<and> list_all is_digit digits \<and> dec_value digits = unat v)" by (rule parse)
  have "hd (dec_digits n) \<noteq> CHR ''+''" for n
    using dec_digits_digits [of "hd (dec_digits n)" n] dec_digits_not_Nil [of n] by (auto simp: digit_of_def)
  then show "seed_from_str (dec_digits (unat v)) = Ok (Seed v)"
    unfolding parse Let_def
    by (auto simp: dec_digits_not_Nil list_all_iff dec_value_digits dest: dec_digits_digits)
qed (simp add: print_with_decoration_def)

end
