(* ===== verification/Test_Dir.thy ===== *)
theory Test_Dir
  imports Test_Random
begin

text \<open>
  Fresh temporary directories for tests (\<open>test-utils/src/test_dir.rs\<close>). Paths are lists of components, a
  component is its UTF-8 bytes, and a string that is joined to a path is split at its slashes. The file
  system of the standard library is the set of existing directories together with the paths that the
  operating system refuses to create; the generator behind a seed is a parameter.
\<close>

section \<open>Directories: std::fs\<close>

type_synonym path = "string list"

text \<open>
  \<open>PathBuf::join\<close> on Unix: an absolute path replaces the first one, empty components and single dots do not
  count. Two dots stay as they are written.
\<close>

fun split_slash :: "string \<Rightarrow> string list" where
  "split_slash [] = [[]]"
| "split_slash (c # s) =
     (if c = CHR ''/'' then [] # split_slash s
      else case split_slash s of [] \<Rightarrow> [[c]] | w # ws \<Rightarrow> (c # w) # ws)"

definition path_components :: "string \<Rightarrow> path" where
  "path_components s = filter (\<lambda>c. c \<noteq> [] \<and> c \<noteq> ''.'') (split_slash s)"

definition path_join :: "path \<Rightarrow> string \<Rightarrow> path" where
  "path_join p s = (if take 1 s = ''/'' then path_components s else p @ path_components s)"

lemma split_slash_none: "CHR ''/'' \<notin> set s \<Longrightarrow> split_slash s = [s]"
  by (induction s) auto

lemma path_join_component:
  "CHR ''/'' \<notin> set s \<Longrightarrow> s \<noteq> [] \<Longrightarrow> s \<noteq> ''.'' \<Longrightarrow> path_join p s = p @ [s]"
  by (cases s) (auto simp: path_join_def path_components_def split_slash_none)

datatype fs_error_kind = KindAlreadyExists | KindNotFound | KindPermissionDenied | KindInvalidInput | KindInvalidFilename

record fs =
  fs_dirs :: "path set"
  fs_denied :: "path set"

text \<open>
  The system refuses paths for want of permission, but also paths with a name it does not accept: one with a
  NUL byte, which the standard library does not even hand on, or one of more than 255 bytes.
\<close>

definition fs_name_ok :: "string \<Rightarrow> bool" where
  "fs_name_ok c \<longleftrightarrow> CHR 0x00 \<notin> set c \<and> length c \<le> 255"

definition fs_create_dir :: "path \<Rightarrow> fs \<Rightarrow> (unit, fs_error_kind) outcome \<times> fs" where
  "fs_create_dir p fs =
     (if p \<in> fs_dirs fs then (Err KindAlreadyExists, fs)
      else if p \<in> fs_denied fs \<and> list_ex (\<lambda>c. CHR 0x00 \<in> set c) p then (Err KindInvalidInput, fs)
      else if butlast p \<noteq> [] \<and> butlast p \<notin> fs_dirs fs then (Err KindNotFound, fs)
      else if p \<in> fs_denied fs
        then (Err (if list_ex (\<lambda>c. 255 < length c) p then KindInvalidFilename else KindPermissionDenied), fs)
      else (Ok (), fs\<lparr>fs_dirs := insert p (fs_dirs fs)\<rparr>))"

function fs_create_dir_all :: "path \<Rightarrow> fs \<Rightarrow> (unit, fs_error_kind) outcome \<times> fs" where
  "fs_create_dir_all p fs =
     (if p = [] then (Ok (), fs)
      else case fs_create_dir p fs of
          (Err KindNotFound, fs') \<Rightarrow>
            (case fs_create_dir_all (butlast p) fs' of
               (Ok _, fs'') \<Rightarrow> fs_create_dir p fs''
             | (e, fs'') \<Rightarrow> (e, fs''))
        | (Err KindAlreadyExists, fs') \<Rightarrow> (Ok (), fs')
        | (r, fs') \<Rightarrow> (r, fs'))"
  by pat_completeness auto
termination by (relation "measure (\<lambda>(p, fs). length p)") auto

declare fs_create_dir_all.simps [simp del]

definition fs_remove_dir_all :: "path \<Rightarrow> fs \<Rightarrow> (unit, fs_error_kind) outcome \<times> fs" where
  "fs_remove_dir_all p fs =
     (if p \<in> fs_dirs fs then (Ok (), fs\<lparr>fs_dirs := {q \<in> fs_dirs fs. take (length p) q \<noteq> p}\<rparr>)
      else (Err KindNotFound, fs))"

section \<open>Delays\<close>

text \<open>Durations count nanoseconds. \<open>gen_duration d\<close> draws from \<open>0..d\<close>.\<close>

record 'r seeded_rng =
  seed_from_u64_rng :: "64 word \<Rightarrow> 'r"
  gen_u64 :: "'r \<Rightarrow> 64 word \<times> 'r"
  gen_u32 :: "'r \<Rightarrow> 32 word \<times> 'r"
  gen_duration :: "nat \<Rightarrow> 'r \<Rightarrow> nat \<times> 'r"

definition make_seedable_rng :: "'r seeded_rng \<Rightarrow> seed \<Rightarrow> 'r" where
  "make_seedable_rng G seed = seed_from_u64_rng G (seed_value seed)"

fun delay_items :: "'r seeded_rng \<Rightarrow> nat \<Rightarrow> nat \<Rightarrow> 'r \<Rightarrow> nat list" where
  "delay_items G 0 delay rng = []"
| "delay_items G (Suc n) delay rng =
     (case gen_duration G delay rng of (item, rng) \<Rightarrow> item # delay_items G n (delay * 2) rng)"

definition millisecond :: nat where
  "millisecond = 1000000"

definition backoff_delays :: "'r seeded_rng \<Rightarrow> seed \<Rightarrow> nat list" where
  "backoff_delays G seed = delay_items G 10 millisecond (make_seedable_rng G seed)"

section \<open>The root directory of a test run\<close>

datatype dir_creation_outcome = Created | AlreadyExists

definition try_create_dir :: "path \<Rightarrow> fs \<Rightarrow> (dir_creation_outcome, fs_error_kind) outcome \<times> fs" where
  "try_create_dir p fs =
     (case fs_create_dir p fs of
        (Ok _, fs') \<Rightarrow> (Ok Created, fs')
      | (Err KindAlreadyExists, fs') \<Rightarrow> (Ok AlreadyExists, fs')
      | (Err e, fs') \<Rightarrow> (Err e, fs')
      | (Panic m, fs') \<Rightarrow> (Panic m, fs')
      | (Blocked, fs') \<Rightarrow> (Blocked, fs'))"

text \<open>
  \<open>TestRootImpl\<close>, shared by the clones of a \<open>TestRoot\<close>: the path, the atomic counter, and the number of
  handles the \<open>Arc\<close> counts.
\<close>

record test_root =
  root_path :: path
  root_counter :: "32 word"
  root_handles :: nat

definition run_dir :: "32 word \<Rightarrow> string" where
  "run_dir n = ''run_'' @ hex_places 8 (unat n)"

lemma hex_places_chars: "set (hex_places w n) \<subseteq> set ''0123456789abcdef''"
proof (induction w arbitrary: n)
  case (Suc w)
  have "hex_digit (n mod 16) \<in> set ''0123456789abcdef''"
    unfolding hex_digit_def by (rule nth_mem) simp
  with Suc [of "n div 16"] show ?case by simp
qed simp

lemma join_run_dir [simp]: "path_join p (run_dir n) = p @ [run_dir n]"
  using hex_places_chars [of 8 "unat n"] by (intro path_join_component) (auto simp: run_dir_def)

text \<open>The loop over the delays. The last component collects how long the thread slept.\<close>

fun create_attempts ::
    "'r seeded_rng \<Rightarrow> path \<Rightarrow> nat list \<Rightarrow> 'r \<Rightarrow> fs \<Rightarrow> nat list \<Rightarrow>
       (test_root, fs_error_kind) outcome \<times> fs \<times> nat list" where
  "create_attempts G top_path [] rng fs slept = (Err KindAlreadyExists, fs, slept)"
| "create_attempts G top_path (delay # delays) rng fs slept =
     (case gen_u32 G rng of (n, rng) \<Rightarrow>
        let path = path_join top_path (run_dir n)
        in case try_create_dir path fs of
             (Ok Created, fs) \<Rightarrow>
               (Ok \<lparr>root_path = path, root_counter = 0, root_handles = 1\<rparr>, fs, slept)
           | (Ok AlreadyExists, fs) \<Rightarrow> create_attempts G top_path delays rng fs (slept @ [delay])
           | (Err e, fs) \<Rightarrow> (Err e, fs, slept)
           | (Panic m, fs) \<Rightarrow> (Panic m, fs, slept)
           | (Blocked, fs) \<Rightarrow> (Blocked, fs, slept))"

definition test_root_create ::
    "'r seeded_rng \<Rightarrow> seed \<Rightarrow> path \<Rightarrow> fs \<Rightarrow> (test_root, fs_error_kind) outcome \<times> fs \<times> nat list" where
  "test_root_create G entropy top_path fs =
     (let rng = make_seedable_rng G entropy
      in case fs_create_dir_all top_path fs of
           (Ok _, fs) \<Rightarrow>
             (case gen_u64 G rng of (v, rng) \<Rightarrow>
                create_attempts G top_path (backoff_delays G (seed_from_u64 v)) rng fs [])
         | (Err e, fs) \<Rightarrow> (Err e, fs, [])
         | (Panic m, fs) \<Rightarrow> (Panic m, fs, [])
         | (Blocked, fs) \<Rightarrow> (Blocked, fs, []))"

definition test_root_clone :: "test_root \<Rightarrow> test_root" where
  "test_root_clone self = self\<lparr>root_handles := root_handles self + 1\<rparr>"

definition sanitize_name :: "string \<Rightarrow> string" where
  "sanitize_name name = map (\<lambda>c. if c \<in> {CHR ''/'', CHR '':'', CHR 0x5C} then CHR ''_'' else c) name"

definition case_dir :: "32 word \<Rightarrow> string \<Rightarrow> string" where
  "case_dir seq_no name = ''case_'' @ hex_places 8 (unat seq_no) @ ''_'' @ sanitize_name name"

lemma join_case_dir [simp]: "path_join p (case_dir n name) = p @ [case_dir n name]"
  using hex_places_chars [of 8 "unat n"]
  by (intro path_join_component) (auto simp: case_dir_def sanitize_name_def)

lemma case_dir_ok: "fs_name_ok (case_dir n name) \<longleftrightarrow> CHR 0x00 \<notin> set name \<and> length name \<le> 241"
proof -
  have "CHR 0x00 \<in> set (sanitize_name name) \<longleftrightarrow> CHR 0x00 \<in> set name"
    by (auto simp: sanitize_name_def image_iff split: if_splits)
  moreover have "CHR 0x00 \<notin> set (hex_places 8 (unat n))" using hex_places_chars [of 8 "unat n"] by auto
  moreover have "length (sanitize_name name) = length name" by (simp add: sanitize_name_def)
  ultimately show ?thesis by (auto simp: fs_name_ok_def case_dir_def)
qed

text \<open>\<open>fetch_add\<close> wraps around. The counter has moved on also when the creation panics.\<close>

definition fresh_test_dir :: "test_root \<Rightarrow> string \<Rightarrow> fs \<Rightarrow> (path, 'e) outcome \<times> test_root \<times> fs" where
  "fresh_test_dir self name fs =
     (let seq_no = root_counter self;
          self = self\<lparr>root_counter := seq_no + 1\<rparr>;
          path = path_join (root_path self) (case_dir seq_no name)
      in case fs_create_dir path fs of
           (r, fs') \<Rightarrow> (o_map (\<lambda>_. path) (o_expect ''directory creation to succeed'' r), self, fs'))"

text \<open>A failed removal is only reported on standard error.\<close>

definition test_root_delete :: "test_root \<Rightarrow> fs \<Rightarrow> (unit, 'e) outcome \<times> fs" where
  "test_root_delete self fs =
     (if root_handles self \<noteq> 1 then (Panic ''Test root still in use'', fs)
      else (Ok (), snd (fs_remove_dir_all (root_path self) fs)))"

section \<open>The file system stays closed under parents\<close>

definition fs_ok :: "fs \<Rightarrow> bool" where
  "fs_ok fs \<longleftrightarrow> (\<forall>p \<in> fs_dirs fs. p \<noteq> [] \<and> (butlast p \<noteq> [] \<longrightarrow> butlast p \<in> fs_dirs fs))"

lemma create_dir_cases [case_names error created]:
  obtains (error) e where "fs_create_dir p fs = (Err e, fs)"
  | (created) "fs_create_dir p fs = (Ok (), fs\<lparr>fs_dirs := insert p (fs_dirs fs)\<rparr>)" "p \<notin> fs_dirs fs" "p \<notin> fs_denied fs"
      "butlast p = [] \<or> butlast p \<in> fs_dirs fs"
proof -
  have "(\<exists>e. fs_create_dir p fs = (Err e, fs)) \<or>
      fs_create_dir p fs = (Ok (), fs\<lparr>fs_dirs := insert p (fs_dirs fs)\<rparr>) \<and> p \<notin> fs_dirs fs \<and> p \<notin> fs_denied fs \<and>
      (butlast p = [] \<or> butlast p \<in> fs_dirs fs)"
    unfolding fs_create_dir_def by simp
  then show thesis using error created by blast
qed

lemma fs_ok_create: "fs_ok fs \<Longrightarrow> p \<noteq> [] \<Longrightarrow> fs_ok (snd (fs_create_dir p fs))"
  by (cases rule: create_dir_cases [of p fs]) (auto simp: fs_ok_def)

lemma create_dir_denied [simp]: "fs_denied (snd (fs_create_dir p fs)) = fs_denied fs"
  by (simp add: fs_create_dir_def)

text \<open>Where nothing is refused, \<open>create_dir_all\<close> succeeds and creates exactly the missing ancestors.\<close>

lemma create_dir_all_ok:
  assumes "fs_ok fs" and "fs_denied fs = {}"
  shows "fst (fs_create_dir_all p fs) = Ok () \<and> fs_ok (snd (fs_create_dir_all p fs)) \<and>
    fs_denied (snd (fs_create_dir_all p fs)) = {} \<and>
    fs_dirs fs \<subseteq> fs_dirs (snd (fs_create_dir_all p fs)) \<and>
    (p \<noteq> [] \<longrightarrow> p \<in> fs_dirs (snd (fs_create_dir_all p fs))) \<and>
    (\<forall>q \<in> fs_dirs (snd (fs_create_dir_all p fs)). q \<in> fs_dirs fs \<or> length q \<le> length p)"
  using assms
proof (induction p arbitrary: fs rule: length_induct)
  case (1 p)
  show ?case
  proof (cases "p = []")
    case True
    with 1(2,3) show ?thesis by (simp add: fs_create_dir_all.simps)
  next
    case False
    consider "p \<in> fs_dirs fs" | "p \<notin> fs_dirs fs" "butlast p \<noteq> []" "butlast p \<notin> fs_dirs fs"
      | "p \<notin> fs_dirs fs" "butlast p = [] \<or> butlast p \<in> fs_dirs fs" by blast
    then show ?thesis
    proof cases
      case 2
      let ?fs = "snd (fs_create_dir_all (butlast p) fs)"
      have "length (butlast p) < length p" using False by simp
      with 1 have IH: "fst (fs_create_dir_all (butlast p) fs) = Ok ()" "fs_ok ?fs" "fs_denied ?fs = {}"
        "fs_dirs fs \<subseteq> fs_dirs ?fs" "butlast p \<in> fs_dirs ?fs"
        "\<forall>q \<in> fs_dirs ?fs. q \<in> fs_dirs fs \<or> length q \<le> length (butlast p)"
        using 2(2) by blast+
      have missing: "fs_create_dir p fs = (Err KindNotFound, fs)" using 2 \<open>fs_denied fs = {}\<close> by (simp add: fs_create_dir_def)
      have "fs_create_dir_all p fs = fs_create_dir p ?fs"
        using False IH(1) by (subst fs_create_dir_all.simps) (simp add: missing case_prod_beta)
      moreover have "p \<notin> fs_dirs ?fs" using 2(1) IH(6) \<open>length (butlast p) < length p\<close> by (metis leD)
      ultimately show ?thesis using IH(2-6) False
        by (auto simp: fs_create_dir_def fs_ok_def)
    next
      case 1
      then have "fs_create_dir_all p fs = (Ok (), fs)"
        using False by (subst fs_create_dir_all.simps) (simp add: fs_create_dir_def)
      with 1 \<open>fs_ok fs\<close> \<open>fs_denied fs = {}\<close> show ?thesis by simp
    next
      case 3
      then have "fs_create_dir p fs = (Ok (), fs\<lparr>fs_dirs := insert p (fs_dirs fs)\<rparr>)"
        using \<open>fs_denied fs = {}\<close> by (auto simp: fs_create_dir_def)
      then have "fs_create_dir_all p fs = (Ok (), fs\<lparr>fs_dirs := insert p (fs_dirs fs)\<rparr>)"
        using False by (subst fs_create_dir_all.simps) simp
      with 3 False \<open>fs_ok fs\<close> \<open>fs_denied fs = {}\<close> show ?thesis by (auto simp: fs_ok_def)
    qed
  qed
qed

section \<open>Attempts and delays\<close>

locale duration_rng =
  fixes G :: "'r seeded_rng"
  assumes duration_below: "0 < d \<Longrightarrow> fst (gen_duration G d r) < d"
begin

lemma delay_items_sum: "0 < d \<Longrightarrow> sum_list (delay_items G n d r) + n \<le> (2 ^ n - 1) * d"
proof (induction n arbitrary: d r)
  case (Suc n)
  obtain x r' where x: "gen_duration G d r = (x, r')" by fastforce
  with duration_below [OF Suc.prems, of r] have "x + 1 \<le> d" by simp
  moreover have "sum_list (delay_items G n (d * 2) r') + n \<le> (2 ^ n - 1) * (d * 2)"
    using Suc.prems by (intro Suc.IH) simp
  moreover obtain m where "2 ^ n = Suc m" by (metis not0_implies_Suc power_not_zero zero_neq_numeral)
  then have "d + (2 ^ n - 1) * (d * 2) = (2 ^ Suc n - 1) * d" by (simp add: algebra_simps)
  ultimately show ?case using x by simp
qed simp

lemma backoff_below: "sum_list (backoff_delays G s) < 1023 * millisecond"
  using delay_items_sum [of millisecond 10 "make_seedable_rng G s"]
  by (simp add: backoff_delays_def millisecond_def)

end

lemma length_delay_items [simp]: "length (delay_items G n d r) = n"
  by (induction n arbitrary: d r) (simp_all add: case_prod_beta)

lemma length_backoff [simp]: "length (backoff_delays G s) = 10"
  by (simp add: backoff_delays_def)

text \<open>Where nothing is refused, the attempts end with a new directory or with ten names that exist.\<close>

definition attempts_result where
  "attempts_result top_path delays fs slept r \<longleftrightarrow>
     (\<exists>n k. k < length delays \<and> top_path @ [run_dir n] \<notin> fs_dirs fs \<and>
        r = (Ok \<lparr>root_path = top_path @ [run_dir n], root_counter = 0, root_handles = 1\<rparr>,
          fs\<lparr>fs_dirs := insert (top_path @ [run_dir n]) (fs_dirs fs)\<rparr>, slept @ take k delays)) \<or>
     r = (Err KindAlreadyExists, fs, slept @ delays)"

lemma create_attempts_result:
  assumes "fs_denied fs = {}" and "top_path = [] \<or> top_path \<in> fs_dirs fs"
  shows "attempts_result top_path delays fs slept (create_attempts G top_path delays rng fs slept)"
proof (induction delays arbitrary: rng slept)
  case Nil
  show ?case by (simp add: attempts_result_def)
next
  case (Cons d ds)
  obtain n rng' where n: "gen_u32 G rng = (n, rng')" by fastforce
  show ?case
  proof (cases "top_path @ [run_dir n] \<in> fs_dirs fs")
    case True
    with n have step: "create_attempts G top_path (d # ds) rng fs slept =
        create_attempts G top_path ds rng' fs (slept @ [d])"
      by (simp add: try_create_dir_def fs_create_dir_def)
    from Cons [of "slept @ [d]" rng'] show ?thesis
      unfolding step attempts_result_def
    proof (elim disjE exE conjE)
      fix m k
      assume "k < length ds" "top_path @ [run_dir m] \<notin> fs_dirs fs"
        "create_attempts G top_path ds rng' fs (slept @ [d]) =
          (Ok \<lparr>root_path = top_path @ [run_dir m], root_counter = 0, root_handles = 1\<rparr>,
           fs\<lparr>fs_dirs := insert (top_path @ [run_dir m]) (fs_dirs fs)\<rparr>, (slept @ [d]) @ take k ds)"
      then show "(\<exists>n k. k < length (d # ds) \<and> top_path @ [run_dir n] \<notin> fs_dirs fs \<and>
          create_attempts G top_path ds rng' fs (slept @ [d]) =
          (Ok \<lparr>root_path = top_path @ [run_dir n], root_counter = 0, root_handles = 1\<rparr>,
           fs\<lparr>fs_dirs := insert (top_path @ [run_dir n]) (fs_dirs fs)\<rparr>, slept @ take k (d # ds))) \<or>
        create_attempts G top_path ds rng' fs (slept @ [d]) = (Err KindAlreadyExists, fs, slept @ d # ds)"
        by (intro disjI1 exI [of _ m] exI [of _ "Suc k"]) simp
    qed simp
  next
    case False
    with n assms have "create_attempts G top_path (d # ds) rng fs slept =
        (Ok \<lparr>root_path = top_path @ [run_dir n], root_counter = 0, root_handles = 1\<rparr>,
         fs\<lparr>fs_dirs := insert (top_path @ [run_dir n]) (fs_dirs fs)\<rparr>, slept)"
      by (auto simp: try_create_dir_def fs_create_dir_def Let_def)
    with False show ?thesis
      unfolding attempts_result_def by (intro disjI1 exI [of _ n] exI [of _ 0]) simp
  qed
qed

section \<open>Fresh directories\<close>

fun fresh_test_dirs :: "test_root \<Rightarrow> string list \<Rightarrow> fs \<Rightarrow> (path list, 'e) outcome \<times> test_root \<times> fs" where
  "fresh_test_dirs self [] fs = (Ok [], self, fs)"
| "fresh_test_dirs self (name # names) fs =
     (case fresh_test_dir self name fs of
        (Ok p, self, fs) \<Rightarrow> (case fresh_test_dirs self names fs of (r, s) \<Rightarrow> (o_map (\<lambda>ps. p # ps) r, s))
      | (Err e, s) \<Rightarrow> (Err e, s)
      | (Panic m, s) \<Rightarrow> (Panic m, s)
      | (Blocked, s) \<Rightarrow> (Blocked, s))"

lemma case_dir_seq:
  assumes "case_dir m a = case_dir n b"
  shows "m = n"
proof -
  have "unat m < 16 ^ 8" "unat n < 16 ^ 8" using unsigned_less [of m] unsigned_less [of n] by simp_all
  moreover have "hex_places 8 (unat m) = hex_places 8 (unat n)"
    using assms by (simp add: case_dir_def)
  ultimately show ?thesis by (simp add: hex_places_inj word_unat_eq_iff)
qed

fun case_paths :: "path \<Rightarrow> nat \<Rightarrow> string list \<Rightarrow> path list" where
  "case_paths root k [] = []"
| "case_paths root k (name # names) = (root @ [case_dir (of_nat k) name]) # case_paths root (Suc k) names"

lemma length_case_paths [simp]: "length (case_paths root k names) = length names"
  by (induction names arbitrary: k) simp_all

lemma case_dir_differs:
  assumes "i < j" and "j < 2 ^ 32"
  shows "case_dir (of_nat j) a \<noteq> case_dir (of_nat i) b"
proof
  assume "case_dir (of_nat j) a = case_dir (of_nat i) b"
  then have "(of_nat j :: 32 word) = of_nat i" by (rule case_dir_seq)
  with assms show False by (simp add: word_of_nat_eq_iff take_bit_nat_eq_self)
qed

lemma case_paths_nth:
  "p \<in> set (case_paths root k names) \<Longrightarrow>
    \<exists>j name. k \<le> j \<and> j < k + length names \<and> p = root @ [case_dir (of_nat j) name]"
proof (induction names arbitrary: k)
  case (Cons name names)
  then consider "p = root @ [case_dir (of_nat k) name]" | "p \<in> set (case_paths root (Suc k) names)" by auto
  then show ?case
  proof cases
    case 2
    from Cons.IH [OF this] obtain j n where "Suc k \<le> j" "j < Suc k + length names"
      "p = root @ [case_dir (of_nat j) n]" by blast
    then show ?thesis by (intro exI [of _ j] exI [of _ n]) simp
  qed auto
qed simp

lemma case_paths_distinct: "k + length names \<le> 2 ^ 32 \<Longrightarrow> distinct (case_paths root k names)"
proof (induction names arbitrary: k)
  case (Cons name names)
  have "root @ [case_dir (of_nat k) name] \<notin> set (case_paths root (Suc k) names)"
  proof
    assume "root @ [case_dir (of_nat k) name] \<in> set (case_paths root (Suc k) names)"
    then obtain j n where "Suc k \<le> j" "j < Suc k + length names" "case_dir (of_nat j) n = case_dir (of_nat k) name"
      using case_paths_nth [of "root @ [case_dir (of_nat k) name]" root "Suc k" names] by auto
    with case_dir_differs [of k j n name] Cons.prems show False by simp
  qed
  with Cons show ?case by simp
qed simp

text \<open>The directories of a root whose numbers are from \<open>k\<close> on are still free.\<close>

lemma fresh_test_dirs_ok:
  assumes "root_path self \<in> fs_dirs fs"
    and "\<And>j name. name \<in> set names \<Longrightarrow> root_path self @ [case_dir j name] \<notin> fs_denied fs"
    and "root_counter self = of_nat k" and "k + length names \<le> 2 ^ 32"
    and "\<And>j name. k \<le> j \<Longrightarrow> j < 2 ^ 32 \<Longrightarrow> root_path self @ [case_dir (of_nat j) name] \<notin> fs_dirs fs"
  shows "fresh_test_dirs self names fs =
    (Ok (case_paths (root_path self) k names) :: (path list, 'e) outcome,
     self\<lparr>root_counter := of_nat (k + length names)\<rparr>,
     fs\<lparr>fs_dirs := set (case_paths (root_path self) k names) \<union> fs_dirs fs\<rparr>)"
  using assms
proof (induction names arbitrary: k self fs)
  case Nil
  then show ?case by (cases self) simp
next
  case (Cons name names)
  let ?p = "root_path self @ [case_dir (of_nat k) name]"
  let ?self = "self\<lparr>root_counter := of_nat (Suc k)\<rparr>" and ?fs = "fs\<lparr>fs_dirs := insert ?p (fs_dirs fs)\<rparr>"
  have free: "?p \<notin> fs_dirs fs" using Cons.prems(4) by (intro Cons.prems(5)) simp_all
  have step: "fresh_test_dir self name fs = (Ok ?p :: (path, 'e) outcome, ?self, ?fs)"
  proof -
    have "root_counter self + 1 = of_nat (Suc k)" using Cons.prems(3) by simp
    moreover have "fs_create_dir ?p fs = (Ok (), ?fs)"
      using free Cons.prems(1) Cons.prems(2) [of name "of_nat k"] by (simp add: fs_create_dir_def)
    ultimately show ?thesis unfolding fresh_test_dir_def Let_def Cons.prems(3) by simp
  qed
  have rest_free: "root_path ?self @ [case_dir (of_nat j) n] \<notin> fs_dirs ?fs" if "Suc k \<le> j" "j < 2 ^ 32" for j n
    using case_dir_differs [of k j n name] Cons.prems(5) [of j n] that by simp
  have IH: "fresh_test_dirs ?self names ?fs =
      (Ok (case_paths (root_path ?self) (Suc k) names) :: (path list, 'e) outcome, ?self\<lparr>root_counter := of_nat (Suc k + length names)\<rparr>,
       ?fs\<lparr>fs_dirs := set (case_paths (root_path ?self) (Suc k) names) \<union> fs_dirs ?fs\<rparr>)"
    by (rule Cons.IH) (use Cons.prems(1,2,4) rest_free in simp_all)
  have "of_nat (k + length (name # names)) = (of_nat (Suc k + length names) :: 32 word)" by simp
  with step IH show ?case by simp
qed

text \<open>What the creation of a root comes to.\<close>

lemma test_root_create_result:
  assumes "fs_ok fs" and "fs_denied fs = {}" and "test_root_create G entropy top_path fs = (r, fs', slept)"
  obtains v where "attempts_result top_path (backoff_delays G v) (snd (fs_create_dir_all top_path fs)) [] (r, fs', slept)"
proof -
  let ?fs = "snd (fs_create_dir_all top_path fs)"
  obtain v rng where v: "gen_u64 G (make_seedable_rng G entropy) = (v, rng)" by fastforce
  let ?delays = "backoff_delays G (seed_from_u64 v)"
  note all = create_dir_all_ok [OF assms(1,2), of top_path]
  have "fs_denied ?fs = {}" "top_path = [] \<or> top_path \<in> fs_dirs ?fs" using all by blast+
  then have "attempts_result top_path ?delays ?fs [] (create_attempts G top_path ?delays rng ?fs [])"
    by (rule create_attempts_result)
  moreover have "test_root_create G entropy top_path fs = create_attempts G top_path ?delays rng ?fs []"
    using v all by (simp add: test_root_create_def case_prod_beta)
  ultimately show thesis using assms(3) that by simp
qed

lemma test_root_created:
  assumes "fs_ok fs" and "fs_denied fs = {}" and "test_root_create G entropy top_path fs = (Ok root, fs', slept)"
  shows "root_path root \<in> fs_dirs fs'" and "fs_denied fs' = {}" and "root_counter root = 0"
    and "root_path root @ [x] \<notin> fs_dirs fs'"
proof -
  let ?fs = "snd (fs_create_dir_all top_path fs)"
  note all = create_dir_all_ok [OF assms(1,2), of top_path]
  obtain v where "attempts_result top_path (backoff_delays G v) ?fs [] (Ok root, fs', slept)"
    using assms by (rule test_root_create_result)
  then obtain n where n: "top_path @ [run_dir n] \<notin> fs_dirs ?fs"
    "root = \<lparr>root_path = top_path @ [run_dir n], root_counter = 0, root_handles = 1\<rparr>"
    "fs' = ?fs\<lparr>fs_dirs := insert (top_path @ [run_dir n]) (fs_dirs ?fs)\<rparr>"
    unfolding attempts_result_def by auto
  then show "root_path root \<in> fs_dirs fs'" "fs_denied fs' = {}" "root_counter root = 0" using all by simp_all
  have "root_path root @ [x] \<notin> fs_dirs ?fs"
  proof
    assume "root_path root @ [x] \<in> fs_dirs ?fs"
    moreover have "fs_ok ?fs" using all by blast
    ultimately have "root_path root \<noteq> [] \<longrightarrow> root_path root \<in> fs_dirs ?fs"
      unfolding fs_ok_def by (metis butlast_snoc)
    with n(1,2) show False by simp
  qed
  with n show "root_path root @ [x] \<notin> fs_dirs fs'" by simp
qed

section \<open>Properties\<close>

text \<open>A generator that counts.\<close>

definition counting_seeded :: "nat seeded_rng" where
  "counting_seeded =
     \<lparr>seed_from_u64_rng = unat,
      gen_u64 = (\<lambda>r. (of_nat r, Suc r)),
      gen_u32 = (\<lambda>r. (of_nat r, Suc r)),
      gen_duration = (\<lambda>d r. (r mod d, Suc r))\<rparr>"

interpretation counting_seeded: duration_rng counting_seeded
  by standard (simp add: counting_seeded_def)

text \<open>
  The root directory of a test run is always new: where nothing is refused, the creation ends with
  a directory that did not exist below the requested path, or, after ten generated names that all
  exist, with an error and nothing created but the path to the top directory. The thread sleeps for
  less than 1023 ms in total.
\<close>

lemma test_root_is_new:
  assumes "duration_rng G" and "fs_ok fs" and "fs_denied fs = {}"
    and "test_root_create G entropy top_path fs = (r, fs', slept)"
  shows "(case r of
      Ok root \<Rightarrow> root_path root \<notin> fs_dirs fs \<and> butlast (root_path root) = top_path \<and> root_counter root = 0 \<and>
        fs_dirs fs' = insert (root_path root) (fs_dirs (snd (fs_create_dir_all top_path fs)))
    | Err e \<Rightarrow> e = KindAlreadyExists \<and> length slept = 10 \<and> fs' = snd (fs_create_dir_all top_path fs)
    | _ \<Rightarrow> False) \<and> sum_list slept < 1023 * millisecond"
proof -
  let ?fs = "snd (fs_create_dir_all top_path fs)"
  note all = create_dir_all_ok [OF assms(2,3), of top_path]
  obtain v where result: "attempts_result top_path (backoff_delays G v) ?fs [] (r, fs', slept)"
    using assms(2-4) by (rule test_root_create_result)
  let ?delays = "backoff_delays G v"
  have total: "sum_list ?delays < 1023 * millisecond" by (rule duration_rng.backoff_below [OF assms(1)])
  have part: "sum_list (take k ?delays) \<le> sum_list ?delays" for k
    by (metis append_take_drop_id le_add1 sum_list_append)
  from result consider
    (created) n k where "top_path @ [run_dir n] \<notin> fs_dirs ?fs" "slept = take k ?delays"
      "r = Ok \<lparr>root_path = top_path @ [run_dir n], root_counter = 0, root_handles = 1\<rparr>"
      "fs' = ?fs\<lparr>fs_dirs := insert (top_path @ [run_dir n]) (fs_dirs ?fs)\<rparr>"
    | (exist) "r = Err KindAlreadyExists" "fs' = ?fs" "slept = ?delays"
    unfolding attempts_result_def by auto
  then show ?thesis
  proof cases
    case created
    moreover have "top_path @ [run_dir n] \<notin> fs_dirs fs" using created(1) all by blast
    ultimately show ?thesis using part [of k] total by simp
  next
    case exist
    then show ?thesis using total by simp
  qed
qed

lemma counting_first_runs:
  assumes "[''tmp'', ''run_00000008''] \<notin> fs_denied fs" and "[''tmp''] \<in> fs_dirs fs"
  shows "test_root_create counting_seeded (Seed 7) [''tmp''] fs =
    (let p = [''tmp'', ''run_00000008''] in
     if p \<notin> fs_dirs fs then
       (Ok \<lparr>root_path = p, root_counter = 0, root_handles = 1\<rparr>, fs\<lparr>fs_dirs := insert p (fs_dirs fs)\<rparr>, [])
     else case backoff_delays counting_seeded (Seed 7) of
         d # ds \<Rightarrow> create_attempts counting_seeded [''tmp''] ds 9 fs [d]
       | [] \<Rightarrow> (Err KindAlreadyExists, fs, []))"
proof -
  have run: "run_dir 8 = ''run_00000008''" by code_simp
  obtain d ds where d: "backoff_delays counting_seeded (Seed 7) = d # ds"
    using length_backoff [of counting_seeded "Seed 7"] by (cases "backoff_delays counting_seeded (Seed 7)") auto
  have "fs_create_dir_all [''tmp''] fs = (Ok (), fs)"
    using assms(2) by (subst fs_create_dir_all.simps) (simp add: fs_create_dir_def)
  moreover have "gen_u64 counting_seeded (make_seedable_rng counting_seeded (Seed 7)) = (7, 8)"
    "gen_u32 counting_seeded 8 = (8, 9)"
    by (simp_all add: counting_seeded_def make_seedable_rng_def)
  ultimately show ?thesis
    using assms d run by (simp add: test_root_create_def seed_from_u64_def try_create_dir_def fs_create_dir_def Let_def)
qed

text \<open>Whatever the system refuses, the directories keep their parents and nothing is lost.\<close>

lemma create_dir_keeps:
  "p \<noteq> [] \<Longrightarrow> fs_ok fs \<Longrightarrow> fs_ok (snd (fs_create_dir p fs))" "fs_dirs fs \<subseteq> fs_dirs (snd (fs_create_dir p fs))"
  by (rule fs_ok_create) (assumption | cases rule: create_dir_cases [of p fs]; auto)+

lemma create_dir_all_keeps:
  "fs_ok fs \<Longrightarrow> fs_ok (snd (fs_create_dir_all p fs)) \<and> fs_denied (snd (fs_create_dir_all p fs)) = fs_denied fs"
proof (induction p arbitrary: fs rule: length_induct)
  case (1 p)
  show ?case
  proof (cases "p = []")
    case True
    with 1(2) show ?thesis by (simp add: fs_create_dir_all.simps)
  next
    case False
    obtain r fs1 where r: "fs_create_dir p fs = (r, fs1)" by fastforce
    have fs1: "fs_ok fs1" "fs_denied fs1 = fs_denied fs"
      using fs_ok_create [OF 1(2) False] create_dir_denied [of p fs] r by simp_all
    obtain r2 fs2 where up: "fs_create_dir_all (butlast p) fs1 = (r2, fs2)" by fastforce
    have "length (butlast p) < length p" using False by simp
    with 1(1) fs1 up have fs2: "fs_ok fs2" "fs_denied fs2 = fs_denied fs" by (metis snd_conv)+
    with fs_ok_create [OF fs2(1) False] create_dir_denied [of p fs2] fs1 r up False show ?thesis
      by (subst (1 2) fs_create_dir_all.simps) (simp split: outcome.split fs_error_kind.split)
  qed
qed

lemma create_attempts_created:
  "create_attempts G top_path delays rng fs slept = (Ok root, fs', slept') \<Longrightarrow>
    \<exists>n. root_path root = top_path @ [run_dir n] \<and> root_counter root = 0 \<and>
      fs_create_dir (root_path root) fs = (Ok (), fs')"
proof (induction delays arbitrary: rng slept)
  case (Cons d ds)
  obtain n rng' where n: "gen_u32 G rng = (n, rng')" by fastforce
  show ?case
  proof (cases rule: create_dir_cases [of "top_path @ [run_dir n]" fs])
    case (error e)
    show ?thesis
    proof (cases "e = KindAlreadyExists")
      case True
      with Cons.prems n error have "create_attempts G top_path ds rng' fs (slept @ [d]) = (Ok root, fs', slept')"
        by (simp add: try_create_dir_def)
      then show ?thesis by (rule Cons.IH)
    next
      case False
      with Cons.prems n error show ?thesis by (cases e) (simp_all add: try_create_dir_def)
    qed
  next
    case created
    with Cons.prems n show ?thesis by (auto simp: try_create_dir_def Let_def)
  qed
qed simp

text \<open>A root just created exists, is empty, and was not refused.\<close>

lemma created_root:
  assumes "fs_ok fs" and "test_root_create G entropy top_path fs = (Ok root, fs', slept)"
  shows "root_path root \<in> fs_dirs fs'" and "fs_denied fs' = fs_denied fs" and "root_counter root = 0"
    and "root_path root @ [x] \<notin> fs_dirs fs'" and "root_path root \<notin> fs_denied fs"
proof -
  let ?fs = "snd (fs_create_dir_all top_path fs)"
  note keeps = create_dir_all_keeps [OF assms(1), of top_path]
  obtain v rng where v: "gen_u64 G (make_seedable_rng G entropy) = (v, rng)" by fastforce
  have "create_attempts G top_path (backoff_delays G (seed_from_u64 v)) rng ?fs [] = (Ok root, fs', slept)"
    using assms(2) v by (auto simp: test_root_create_def split: prod.splits outcome.splits)
  from create_attempts_created [OF this] obtain n where n: "root_path root = top_path @ [run_dir n]"
    "root_counter root = 0" "fs_create_dir (root_path root) ?fs = (Ok (), fs')" by blast
  from n(3) have new: "root_path root \<notin> fs_dirs ?fs" "root_path root \<notin> fs_denied ?fs"
    "fs' = ?fs\<lparr>fs_dirs := insert (root_path root) (fs_dirs ?fs)\<rparr>"
    by (cases rule: create_dir_cases [of "root_path root" ?fs]; simp)+
  then show "root_path root \<in> fs_dirs fs'" "fs_denied fs' = fs_denied fs" "root_counter root = 0"
    "root_path root \<notin> fs_denied fs" using keeps n(2) by simp_all
  have "root_path root @ [x] \<notin> fs_dirs ?fs"
  proof
    assume "root_path root @ [x] \<in> fs_dirs ?fs"
    with keeps have "root_path root \<noteq> [] \<longrightarrow> root_path root \<in> fs_dirs ?fs" unfolding fs_ok_def by (metis butlast_snoc)
    with new(1) n(1) show False by simp
  qed
  with new(3) show "root_path root @ [x] \<notin> fs_dirs fs'" by simp
qed

text \<open>
  C38. Every directory for a test is its own. On a system that refuses exactly the paths with a name it does
  not accept (a NUL byte, or more than 255 bytes), from a root just created, up to $2^{32}$ calls of
  \<open>fresh_test_dir\<close> all succeed and give different directories right below the root that did not exist
  before, for any names of at most 241 bytes without NUL: names with slashes, colons and backslashes and
  equal names included. Any other name makes the call panic and creates nothing.
\<close>

theorem fresh_test_dirs_distinct:
  assumes "fs_ok fs" and "fs_denied fs = {p. \<not> list_all fs_name_ok p}"
    and "test_root_create G entropy top_path fs = (Ok root, fs', slept)"
  shows "(length names \<le> 2 ^ 32 \<and> (\<forall>name \<in> set names. CHR 0x00 \<notin> set name \<and> length name \<le> 241) \<longrightarrow>
      (\<exists>paths root' fs''. fresh_test_dirs root names fs' = (Ok paths :: (path list, 'e) outcome, root', fs'') \<and>
        length paths = length names \<and> distinct paths \<and> set paths \<inter> fs_dirs fs' = {} \<and>
        (\<forall>p \<in> set paths. butlast p = root_path root) \<and> fs_dirs fs'' = set paths \<union> fs_dirs fs')) \<and>
    (CHR 0x00 \<in> set name \<or> 241 < length name \<longrightarrow>
      (\<exists>root'. fresh_test_dir root name fs' =
        (Panic ''directory creation to succeed'' :: (path, 'e) outcome, root', fs')))"
proof (intro conjI impI)
  note root = created_root [OF assms(1,3)]
  have accepted: "root_path root @ [case_dir j a] \<in> fs_denied fs' \<longleftrightarrow> CHR 0x00 \<in> set a \<or> 241 < length a" for j a
    using root(5) case_dir_ok [of j a] by (auto simp: root(2) assms(2))
  {
    assume names: "length names \<le> 2 ^ 32 \<and> (\<forall>name \<in> set names. CHR 0x00 \<notin> set name \<and> length name \<le> 241)"
    let ?paths = "case_paths (root_path root) 0 names"
    have "fresh_test_dirs root names fs' = (Ok ?paths :: (path list, 'e) outcome,
        root\<lparr>root_counter := of_nat (0 + length names)\<rparr>, fs'\<lparr>fs_dirs := set ?paths \<union> fs_dirs fs'\<rparr>)"
      using root(1,3,4) names accepted by (intro fresh_test_dirs_ok) fastforce+
    moreover have "length ?paths = length names" by simp
    moreover have "distinct ?paths" using names by (intro case_paths_distinct) simp
    moreover have "set ?paths \<inter> fs_dirs fs' = {}" "\<forall>p \<in> set ?paths. butlast p = root_path root"
      using root(4) case_paths_nth [of _ "root_path root" 0 names] by fastforce+
    ultimately show "\<exists>paths root' fs''. fresh_test_dirs root names fs' = (Ok paths :: (path list, 'e) outcome, root', fs'') \<and>
        length paths = length names \<and> distinct paths \<and> set paths \<inter> fs_dirs fs' = {} \<and>
        (\<forall>p \<in> set paths. butlast p = root_path root) \<and> fs_dirs fs'' = set paths \<union> fs_dirs fs'"
      by (intro exI conjI) (assumption | simp)+
  next
    assume "CHR 0x00 \<in> set name \<or> 241 < length name"
    with accepted root(1,4) show "\<exists>root'. fresh_test_dir root name fs' =
        (Panic ''directory creation to succeed'' :: (path, 'e) outcome, root', fs')"
      by (simp add: fresh_test_dir_def fs_create_dir_def Let_def)
  }
qed

theorem fresh_test_dirs_distinct_witness:
  "fst (fresh_test_dirs \<lparr>root_path = [''tmp'', ''run_00000008''], root_counter = 0, root_handles = 1\<rparr>
      [''a/b'', ''a:b'']
      \<lparr>fs_dirs = {[''tmp'', ''run_00000008''], [''tmp'']}, fs_denied = {p. \<not> list_all fs_name_ok p}\<rparr>) =
     (Ok [[''tmp'', ''run_00000008'', ''case_00000000_a_b''],
          [''tmp'', ''run_00000008'', ''case_00000001_a_b'']] :: (path list, unit) outcome) \<and>
   distinct [[''tmp'', ''run_00000008'', ''case_00000000_a_b''], [''tmp'', ''run_00000008'', ''case_00000001_a_b'']] \<and>
   (\<exists>root'. fresh_test_dir \<lparr>root_path = [''tmp'', ''run_00000008''], root_counter = 0, root_handles = 1\<rparr>
      [CHR 0x00]
      \<lparr>fs_dirs = {[''tmp'', ''run_00000008''], [''tmp'']}, fs_denied = {p. \<not> list_all fs_name_ok p}\<rparr> =
     (Panic ''directory creation to succeed'' :: (path, unit) outcome, root',
      \<lparr>fs_dirs = {[''tmp'', ''run_00000008''], [''tmp'']}, fs_denied = {p. \<not> list_all fs_name_ok p}\<rparr>))"
proof -
  let ?bad = "{p. \<not> list_all fs_name_ok p}"
  let ?fs = "\<lparr>fs_dirs = {[''tmp'']}, fs_denied = ?bad\<rparr>"
  let ?root = "\<lparr>root_path = [''tmp'', ''run_00000008''], root_counter = 0, root_handles = 1\<rparr>"
  let ?fs' = "\<lparr>fs_dirs = {[''tmp'', ''run_00000008''], [''tmp'']}, fs_denied = ?bad\<rparr>"
  have names: "case_dir 0 ''a/b'' = ''case_00000000_a_b''" "case_dir 1 ''a:b'' = ''case_00000001_a_b''" by code_simp+
  have ok: "list_all fs_name_ok [''tmp'', ''run_00000008'', ''case_00000000_a_b'', ''case_00000001_a_b'']"
    by (simp add: fs_name_ok_def)
  then have dirs: "fst (fresh_test_dirs ?root [''a/b'', ''a:b''] ?fs') =
     (Ok [[''tmp'', ''run_00000008'', ''case_00000000_a_b''],
          [''tmp'', ''run_00000008'', ''case_00000001_a_b'']] :: (path list, unit) outcome)"
    by (simp add: fresh_test_dir_def fs_create_dir_def Let_def names)
  have "test_root_create counting_seeded (Seed 7) [''tmp''] ?fs = (Ok ?root, ?fs', [])"
    using ok by (subst counting_first_runs) (simp_all add: Let_def)
  note fresh = fresh_test_dirs_distinct [OF _ _ this, where 'e = unit]
  obtain paths where "fst (fresh_test_dirs ?root [''a/b'', ''a:b''] ?fs') = (Ok paths :: (path list, unit) outcome)"
    "distinct paths" using fresh [of "[''a/b'', ''a:b'']"] by (fastforce simp: fs_ok_def)
  moreover have "\<exists>root'. fresh_test_dir ?root [CHR 0x00] ?fs' =
      (Panic ''directory creation to succeed'' :: (path, unit) outcome, root', ?fs')"
    using fresh [of "[]" "[CHR 0x00]"] by (simp add: fs_ok_def)
  ultimately show ?thesis using dirs by simp
qed

end
