(* ===== verification/Suite_Runner.thy ===== *)
theory Suite_Runner
  imports Suite_Basic Suite_Property Concurrent_Backends Test_Dir
begin

text \<open>
  The runner of the backend test suite (\<open>backend-test-suite/src/lib.rs\<close> and \<open>prelude.rs\<close>) and the test
  programs of the backends (\<open>inmemory/tests/backend.rs\<close>, \<open>lmdb/tests/backend.rs\<close>,
  \<open>sqlite/tests/backend.rs\<close>): all tests of the suite become trials, libtest-mimic runs them, and a
  program deletes its directory when none failed. A backend function makes a backend in the state of the
  world, which for two of the programs is their test root and the file system. The crates proptest and
  libtest-mimic are parameters: the values proptest draws, and its run and what it concludes.
\<close>

section \<open>Tests on fresh backends\<close>

type_synonym ('w, 'b) backend_fn = "'w \<Rightarrow> 'b res \<times> 'w"
type_synonym 'w test_body = "'w \<Rightarrow> unit res \<times> 'w"

text \<open>A test that calls the backend function once.\<close>

definition on_backend :: "('b \<Rightarrow> unit res) \<Rightarrow> ('w, 'b) backend_fn \<Rightarrow> 'w test_body" where
  "on_backend test backend_fn w = (case backend_fn w of (r, w') \<Rightarrow> (o_bind r test, w'))"

text \<open>
  \<open>utils::concurrency::model\<close> runs its body. A concurrent test fails if some schedule of its threads
  does not end well.
\<close>

definition concurrency_model :: "'w test_body \<Rightarrow> 'w test_body" where
  "concurrency_model body = body"

definition all_schedules ::
    "('b, 's, 'ro, 'rw) backend \<Rightarrow> (('s, 'ro, 'rw) backend_impl \<Rightarrow> ('s, 'a) main_thread) \<Rightarrow> 'b \<Rightarrow> unit res" where
  "all_schedules B test cfg = (if conc_test B cfg (test (be_impl B)) then Ok () else Panic ''a schedule fails'')"

text \<open>
  \<open>using_proptest\<close>: an eighth of the configured number of cases. The first case that fails ends the run;
  the further cases by which proptest shrinks it before the panic are not modelled.
\<close>

fun run_cases :: "('w, 'b) backend_fn \<Rightarrow> ('b \<Rightarrow> 'v \<Rightarrow> unit res) \<Rightarrow> 'v list \<Rightarrow> 'w test_body" where
  "run_cases backend_fn test [] w = (Ok (), w)"
| "run_cases backend_fn test (val # vals) w =
     (case backend_fn w of (r, w') \<Rightarrow>
        (case o_bind r (\<lambda>b. test b val) of
           Ok _ \<Rightarrow> run_cases backend_fn test vals w'
         | Blocked \<Rightarrow> (Blocked, w')
         | _ \<Rightarrow> (Panic ''Test failed'', w')))"

definition using_proptest ::
    "usize \<Rightarrow> (usize \<Rightarrow> 'v list) \<Rightarrow> ('b \<Rightarrow> 'v \<Rightarrow> unit res) \<Rightarrow> ('w, 'b) backend_fn \<Rightarrow> 'w test_body" where
  "using_proptest default_cases strategy test backend_fn =
     (let cases = default_cases div 8 in run_cases backend_fn test (strategy cases))"

text \<open>What proptest draws for each property, given the number of cases.\<close>

record draws =
  d_add_and_delete :: "usize \<Rightarrow> entries list"
  d_add_and_delete_some :: "usize \<Rightarrow> (entries \<times> entries \<times> (db_map_id \<times> data) list) list"
  d_add_modify_abort_modify_commit :: "usize \<Rightarrow> (write_action list \<times> write_action list \<times> write_action list) list"
  d_add_modify_abort_replay_commit :: "usize \<Rightarrow> (write_action list \<times> write_action list) list"
  d_db_writes_do_not_interfere :: "usize \<Rightarrow> (write_action list \<times> write_action list) list"
  d_empty_after_abort :: "usize \<Rightarrow> (write_action list \<times> data list) list"
  d_last_write_wins :: "usize \<Rightarrow> (data \<times> data list) list"
  d_overwrite_and_abort :: "usize \<Rightarrow> (data \<times> data \<times> data) list"
  d_post_commit_consistency :: "usize \<Rightarrow> write_action list list"
  d_prefix_iteration :: "usize \<Rightarrow> (write_action list \<times> write_action list) list"

section \<open>Trials\<close>

record 'w trial =
  trial_name :: string
  trial_fn :: "'w test_body"

definition create_tests ::
    "('w, 'b) backend_fn \<Rightarrow> (string \<times> (('w, 'b) backend_fn \<Rightarrow> 'w test_body)) list \<Rightarrow> 'w trial list" where
  "create_tests backend_fn tests =
     map (\<lambda>(n, test). \<lparr>trial_name = n, trial_fn = concurrency_model (test backend_fn)\<rparr>) tests"

text \<open>The macro \<open>tests!\<close>: the names are prefixed with the path of the module.\<close>

definition tests_macro ::
    "string \<Rightarrow> (string \<times> (('w, 'b) backend_fn \<Rightarrow> 'w test_body)) list \<Rightarrow> ('w, 'b) backend_fn \<Rightarrow> 'w trial list" where
  "tests_macro module_path tests backend_fn =
     create_tests backend_fn (map (\<lambda>(n, test). (module_path @ ''::'' @ n, test)) tests)"

definition basic_trials :: "('b, 's, 'ro, 'rw) backend \<Rightarrow> ('w, 'b) backend_fn \<Rightarrow> 'w trial list" where
  "basic_trials B = tests_macro ''storage_backend_test_suite::basic''
     [(''put_and_abort'', on_backend (put_and_abort B)),
      (''put_and_commit'', on_backend (put_and_commit B)),
      (''put_and_iterate_delete_some'', on_backend (put_and_iterate_delete_some B)),
      (''put_and_iterate_over_prefixes'', on_backend (put_and_iterate_over_prefixes B)),
      (''put_iterator_count_matches'', on_backend (put_iterator_count_matches B)),
      (''put_twice_then_commit_read_last'', on_backend (put_twice_then_commit_read_last B)),
      (''put_two_under_different_keys'', on_backend (put_two_under_different_keys B))]"

definition concurrent_trials :: "('b, 's, 'ro, 'rw) backend \<Rightarrow> ('w, 'b) backend_fn \<Rightarrow> 'w trial list" where
  "concurrent_trials B = tests_macro ''storage_backend_test_suite::concurrent''
     [(''commutative_read_modify_write'', on_backend (all_schedules B commutative_read_modify_write)),
      (''read_initialize_race'', on_backend (all_schedules B read_initialize_race)),
      (''read_write_race'', on_backend (all_schedules B read_write_race)),
      (''threaded_reads_consistent'', on_backend (all_schedules B threaded_reads_consistent)),
      (''write_different_keys_and_iterate'', on_backend (all_schedules B write_different_keys_and_iterate))]"

definition property_trials ::
    "('b, 's, 'ro, 'rw) backend \<Rightarrow> usize \<Rightarrow> draws \<Rightarrow> ('w, 'b) backend_fn \<Rightarrow> 'w trial list" where
  "property_trials B n D = tests_macro ''storage_backend_test_suite::property''
     [(''add_and_delete'', using_proptest n (d_add_and_delete D) (add_and_delete B)),
      (''add_and_delete_some'', using_proptest n (d_add_and_delete_some D) (add_and_delete_some B)),
      (''add_modify_abort_modify_commit'',
        using_proptest n (d_add_modify_abort_modify_commit D) (add_modify_abort_modify_commit B)),
      (''add_modify_abort_replay_commit'',
        using_proptest n (d_add_modify_abort_replay_commit D) (add_modify_abort_replay_commit B)),
      (''db_writes_do_not_interfere'', using_proptest n (d_db_writes_do_not_interfere D) (db_writes_do_not_interfere B)),
      (''empty_after_abort'', using_proptest n (d_empty_after_abort D) (empty_after_abort B)),
      (''last_write_wins'', using_proptest n (d_last_write_wins D) (last_write_wins B)),
      (''overwrite_and_abort'', using_proptest n (d_overwrite_and_abort D) (overwrite_and_abort B)),
      (''post_commit_consistency'', using_proptest n (d_post_commit_consistency D) (post_commit_consistency B)),
      (''prefix_iteration'', using_proptest n (d_prefix_iteration D) (prefix_iteration B))]"

definition suite_trials ::
    "('b, 's, 'ro, 'rw) backend \<Rightarrow> usize \<Rightarrow> draws \<Rightarrow> ('w, 'b) backend_fn \<Rightarrow> 'w trial list" where
  "suite_trials B n D backend_fn =
     [] @ basic_trials B backend_fn @ concurrent_trials B backend_fn @ property_trials B n D backend_fn"

text \<open>
  The functions of libtest-mimic that are used, with arguments \<open>'a\<close> and a conclusion \<open>'c\<close>: \<open>run\<close>,
  \<open>Conclusion::has_failed\<close> and the code with which \<open>Conclusion::exit\<close> ends the process.
\<close>

record ('a, 'c, 'w) mimic =
  mimic_run :: "'a \<Rightarrow> 'w trial list \<Rightarrow> 'w \<Rightarrow> 'c \<times> 'w"
  has_failed :: "'c \<Rightarrow> bool"
  exit_code :: "'c \<Rightarrow> int"

definition suite_main ::
    "('a, 'c, 'w) mimic \<Rightarrow> 'a \<Rightarrow> ('b, 's, 'ro, 'rw) backend \<Rightarrow> usize \<Rightarrow> draws \<Rightarrow> ('w, 'b) backend_fn \<Rightarrow> 'w \<Rightarrow>
       'c \<times> 'w" where
  "suite_main mimic args B n D backend_fn w = mimic_run mimic args (suite_trials B n D backend_fn) w"

section \<open>The test programs\<close>

definition in_memory_tests_main :: "('a, 'c, unit) mimic \<Rightarrow> 'a \<Rightarrow> merge_join_by \<Rightarrow> usize \<Rightarrow> draws \<Rightarrow> int" where
  "in_memory_tests_main mimic args mjb n D =
     exit_code mimic (fst (suite_main mimic args (in_memory_backend mjb) n D (\<lambda>w. (Ok in_memory_new, w)) ()))"

text \<open>\<open>test_root!\<close>: the two environment variables are arguments.\<close>

definition test_root_path :: "path \<Rightarrow> string \<Rightarrow> string list \<Rightarrow> path" where
  "test_root_path target_tmpdir pkg_name dirs = fold (\<lambda>dir path. path_join path dir) dirs (path_join target_tmpdir pkg_name)"

definition path_string :: "path \<Rightarrow> string" where
  "path_string p = concat (map (\<lambda>c. ''/'' @ c) p)"

text \<open>Each backend gets a fresh directory below the root, a handle of which the closure owns.\<close>

definition create_backend :: "(path \<Rightarrow> 'b) \<Rightarrow> (test_root \<times> fs, 'b) backend_fn" where
  "create_backend mk = (\<lambda>(test_root, fs).
     case fresh_test_dir test_root ''unknown'' fs of (r, test_root, fs) \<Rightarrow> (o_map mk r, (test_root, fs)))"

definition lmdb_in_dir ::
    "('env, 'db, 'cur, 'ro, 'rw, 'rs, 'cb, 'fl) lmdb_api \<Rightarrow> 'rs \<Rightarrow> path \<Rightarrow> ('rs, 'cb, 'fl) lmdb" where
  "lmdb_in_dir L rs_default test_dir = lmdb_new L (path_string test_dir) ims_default rs_default mrc_default"

definition sqlite_in_dir :: "path \<Rightarrow> sqlite" where
  "sqlite_in_dir test_dir =
     (let db_file_path = test_dir @ [''database.sqlite'']
      in with_options (sqlite_new (path_string db_file_path)) \<lparr>disable_fsync = True\<rparr>)"

definition test_root_drop :: "test_root \<Rightarrow> test_root" where
  "test_root_drop self = self\<lparr>root_handles := root_handles self - 1\<rparr>"

definition dir_tests_main ::
    "('a, 'c, test_root \<times> fs) mimic \<Rightarrow> 'a \<Rightarrow> 'r seeded_rng \<Rightarrow> seed \<Rightarrow> path \<Rightarrow> string \<Rightarrow>
       ('b, 's, 'ro, 'rw) backend \<Rightarrow> (path \<Rightarrow> 'b) \<Rightarrow> usize \<Rightarrow> draws \<Rightarrow> fs \<Rightarrow> int res \<times> fs" where
  "dir_tests_main mimic args G entropy target_tmpdir pkg_name B mk n D fs =
     (case test_root_create G entropy (test_root_path target_tmpdir pkg_name [''backend-tests'']) fs of (r, fs, _) \<Rightarrow>
        case o_unwrap r of
          Ok test_root \<Rightarrow>
            (case suite_main mimic args B n D (create_backend mk) (test_root_clone test_root, fs) of
               (result, test_root, fs) \<Rightarrow>
                 let test_root = test_root_drop test_root in
                 if \<not> has_failed mimic result
                 then (case test_root_delete test_root fs of (r, fs) \<Rightarrow> (o_map (\<lambda>_. exit_code mimic result) r, fs))
                 else (Ok (exit_code mimic result), fs))
        | Err e \<Rightarrow> (Err e, fs)
        | Panic m \<Rightarrow> (Panic m, fs)
        | Blocked \<Rightarrow> (Blocked, fs))"

definition lmdb_tests_main where
  "lmdb_tests_main mimic args G entropy target_tmpdir L rs_default n D fs =
     dir_tests_main mimic args G entropy target_tmpdir ''storage-lmdb'' (lmdb_backend L) (lmdb_in_dir L rs_default) n D fs"

definition sqlite_tests_main where
  "sqlite_tests_main mimic args G entropy target_tmpdir Q n D fs =
     dir_tests_main mimic args G entropy target_tmpdir ''storage-sqlite'' (sqlite_backend Q) sqlite_in_dir n D fs"

section \<open>What the programs rely on\<close>

text \<open>The trials one after the other, with the number that failed.\<close>

fun run_trials :: "'w trial list \<Rightarrow> 'w \<Rightarrow> nat \<times> 'w" where
  "run_trials [] w = (0, w)"
| "run_trials (t # ts) w =
     (case trial_fn t w of (r, w') \<Rightarrow>
      case run_trials ts w' of (failed, w'') \<Rightarrow> ((if r = Ok () then 0 else 1) + failed, w''))"

text \<open>
  libtest-mimic runs some of the trials, each at most once; the model has them one after the other, in an
  order it may choose. A trial that does not return normally has failed. Without failures the exit code is 0.
\<close>

locale mimic_runner =
  fixes mimic :: "('a, 'c, 'w) mimic"
  assumes runs_some: "\<exists>ts'. mset ts' \<subseteq># mset ts \<and>
      has_failed mimic (fst (mimic_run mimic args ts w)) = (0 < fst (run_trials ts' w)) \<and>
      snd (mimic_run mimic args ts w) = snd (run_trials ts' w)"
    and exit_0: "\<not> has_failed mimic c \<Longrightarrow> exit_code mimic c = 0"

text \<open>proptest draws at most as many values as there are cases, all from the strategy.\<close>

definition draws_from :: "('v \<Rightarrow> bool) \<Rightarrow> (usize \<Rightarrow> 'v list) \<Rightarrow> bool" where
  "draws_from strategy d \<longleftrightarrow> (\<forall>n. length (d n) \<le> n \<and> (\<forall>v \<in> set (d n). strategy v))"

definition draws_ok :: "draws \<Rightarrow> bool" where
  "draws_ok D \<longleftrightarrow>
     draws_from (gen_entries 5 20) (d_add_and_delete D) \<and>
     draws_from (\<lambda>(es, es', extra). gen_entries 5 20 es \<and> gen_entries 5 20 es' \<and>
       (\<forall>(i, k) \<in> set extra. gen_map_id 5 i \<and> gen_big_key k)) (d_add_and_delete_some D) \<and>
     draws_from (\<lambda>(as, bs, cs). gen_actions 100 20 as \<and> gen_actions 100 20 bs \<and> gen_actions 100 20 cs)
       (d_add_modify_abort_modify_commit D) \<and>
     draws_from (\<lambda>(as, bs). gen_actions 100 20 as \<and> gen_actions 100 20 bs) (d_add_modify_abort_replay_commit D) \<and>
     draws_from (\<lambda>(as, bs). gen_actions 100 20 as \<and> gen_actions 100 20 bs) (d_db_writes_do_not_interfere D) \<and>
     draws_from (\<lambda>(as, keys). gen_actions 100 20 as \<and> (\<forall>k \<in> set keys. gen_key 100 k)) (d_empty_after_abort D) \<and>
     draws_from (\<lambda>(key, vals). gen_key 1000 key) (d_last_write_wins D) \<and>
     draws_from (\<lambda>(key, val0, val1). gen_key 100 key) (d_overwrite_and_abort D) \<and>
     draws_from (gen_actions 100 50) (d_post_commit_consistency D) \<and>
     draws_from (\<lambda>(as, bs). gen_actions 100 20 as \<and> gen_actions 100 20 bs) (d_prefix_iteration D)"

end
