(* ===== verification/Suite_Programs.thy ===== *)
theory Suite_Programs
  imports Suite_Runner
begin

text \<open>
  The test programs of the backends end with exit code 0 and leave no directory behind, when the backend
  keeps its contracts. \<open>backend_source\<close> is what a backend function promises: \<open>ready n w\<close> says that \<open>n\<close> more
  calls succeed. \<open>suite_source\<close> adds a backend that keeps both contracts; it is interpreted on the
  in-memory program and, for every root directory, on the programs with directories.
\<close>

section \<open>Trials that pass\<close>

definition trial_passes :: "(nat \<Rightarrow> 'w \<Rightarrow> bool) \<Rightarrow> nat \<Rightarrow> 'w trial \<Rightarrow> bool" where
  "trial_passes ready k t \<longleftrightarrow>
     (\<forall>n w. ready (n + k) w \<longrightarrow> (\<exists>w'. trial_fn t w = (Ok (), w') \<and> ready n w'))"

lemma run_trials_pass:
  assumes "\<forall>t \<in> set ts. trial_passes ready k t" and "ready (n + k * length ts) w"
  shows "\<exists>w'. run_trials ts w = (0, w') \<and> ready n w'"
  using assms
proof (induction ts arbitrary: w)
  case (Cons t ts)
  have "ready ((n + k * length ts) + k) w" using Cons.prems(2) by (simp add: algebra_simps)
  with Cons.prems(1) obtain w' where w': "trial_fn t w = (Ok (), w')" "ready (n + k * length ts) w'"
    unfolding trial_passes_def by fastforce
  with Cons.IH [OF _ w'(2)] Cons.prems(1) show ?case by auto
qed simp

locale backend_source =
  fixes backend_fn :: "('w, 'b) backend_fn" and good :: "'b \<Rightarrow> bool" and ready :: "nat \<Rightarrow> 'w \<Rightarrow> bool"
  assumes source_call: "ready (Suc n) w \<Longrightarrow> \<exists>b w'. backend_fn w = (Ok b, w') \<and> good b \<and> ready n w'"
    and source_less: "ready (Suc n) w \<Longrightarrow> ready n w"
begin

lemma source_at_least: "ready (n + k) w \<Longrightarrow> ready n w"
  by (induction k) (auto dest: source_less)

lemma on_backend_passes:
  assumes "\<And>b. good b \<Longrightarrow> test b = Ok ()" and "0 < k"
  shows "trial_passes ready k \<lparr>trial_name = name, trial_fn = concurrency_model (on_backend test backend_fn)\<rparr>"
  unfolding trial_passes_def
proof (intro allI impI)
  fix n w assume "ready (n + k) w"
  with assms(2) have "ready (Suc n) w" using source_at_least [of "Suc n" "k - 1" w] by simp
  from source_call [OF this] assms(1)
  show "\<exists>w'. trial_fn \<lparr>trial_name = name, trial_fn = concurrency_model (on_backend test backend_fn)\<rparr> w = (Ok (), w') \<and>
      ready n w'"
    by (auto simp: concurrency_model_def on_backend_def)
qed

lemma run_cases_pass:
  assumes "\<And>b v. good b \<Longrightarrow> v \<in> set vals \<Longrightarrow> test b v = Ok ()" and "ready (n + length vals) w"
  shows "\<exists>w'. run_cases backend_fn test vals w = (Ok (), w') \<and> ready n w'"
  using assms
proof (induction vals arbitrary: w)
  case (Cons v vals)
  then have "ready (Suc (n + length vals)) w" by simp
  from source_call [OF this] obtain b w' where b: "backend_fn w = (Ok b, w')" "good b" "ready (n + length vals) w'"
    by blast
  from Cons.IH [OF _ b(3)] Cons.prems(1) b show ?case by auto
qed simp

lemma using_proptest_passes:
  assumes "draws_from strategy d" and "\<And>b v. good b \<Longrightarrow> strategy v \<Longrightarrow> test b v = Ok ()" and "cases div 8 \<le> k"
  shows "trial_passes ready k
    \<lparr>trial_name = name, trial_fn = concurrency_model (using_proptest cases d test backend_fn)\<rparr>"
  unfolding trial_passes_def
proof (intro allI impI)
  fix n w assume ready: "ready (n + k) w"
  have "length (d (cases div 8)) \<le> k" using assms(1,3) unfolding draws_from_def by (meson le_trans)
  then have "ready (n + length (d (cases div 8))) w"
    using source_at_least [of "n + length (d (cases div 8))" "k - length (d (cases div 8))" w] ready by simp
  from run_cases_pass [OF _ this] assms(1,2)
  show "\<exists>w'. trial_fn \<lparr>trial_name = name, trial_fn = concurrency_model (using_proptest cases d test backend_fn)\<rparr> w =
      (Ok (), w') \<and> ready n w'"
    unfolding draws_from_def by (simp add: concurrency_model_def using_proptest_def)
qed

end

section \<open>The whole suite\<close>

locale suite_source =
  backend_contract B cfg_ok key_ok idle ro_open rw_open +
  threads: concurrent_backend B cfg_ok' key_ok' conc +
  backend_source backend_fn good ready
  for B :: "('b, 's, 'ro, 'rw) backend" and cfg_ok key_ok idle ro_open rw_open cfg_ok' key_ok' conc
    and backend_fn :: "('w, 'b) backend_fn" and good ready +
  assumes good_1: "good b \<Longrightarrow> cfg_ok b (suite_desc 1)"
    and good_2: "good b \<Longrightarrow> cfg_ok b (suite_desc 2)"
    and good_5: "good b \<Longrightarrow> cfg_ok b (suite_desc 5)"
    and good_conc: "good b \<Longrightarrow> cfg_ok' b (suite_desc 1)"
begin

lemma basic_trials_pass:
  assumes "0 < k"
  shows "\<forall>t \<in> set (basic_trials B backend_fn). trial_passes ready k t"
proof -
  have "test B b = Ok ()" if "test \<in> set basic_tests" "good b" for test b
    using basic_tests_Ok [OF good_1 [OF that(2)]] that(1) by blast
  then show ?thesis
    using assms by (auto simp: basic_trials_def tests_macro_def create_tests_def basic_tests_def intro!: on_backend_passes)
qed

lemma concurrent_trials_pass:
  assumes "0 < k"
  shows "\<forall>t \<in> set (concurrent_trials B backend_fn). trial_passes ready k t"
  using assms good_conc threads.commutative_read_modify_write_ok threads.read_initialize_race_ok
    threads.read_write_race_ok threads.threaded_reads_consistent_ok threads.write_different_keys_and_iterate_ok
  by (auto simp: concurrent_trials_def tests_macro_def create_tests_def all_schedules_def intro!: on_backend_passes)

lemma property_trials_pass:
  assumes "draws_ok D" and "cases div 8 \<le> k"
  shows "\<forall>t \<in> set (property_trials B cases D backend_fn). trial_passes ready k t"
proof -
  note Ok = property_tests_Ok [OF good_1 good_2 good_5]
  have "list_all (trial_passes ready k) (property_trials B cases D backend_fn)"
    using assms(1)
    unfolding property_trials_def tests_macro_def create_tests_def list.map split list.pred_inject draws_ok_def
    by (elim conjE) (intro conjI list.pred_inject(1); rule using_proptest_passes [OF _ _ assms(2)], assumption, auto intro: Ok)
  then show ?thesis by (simp only: list_all_iff)
qed

lemma suite_passes:
  assumes "mimic_runner mimic" and "draws_ok D" and "ready (n + (1 + cases div 8) * 22) w"
  shows "\<exists>c w'. suite_main mimic args B cases D backend_fn w = (c, w') \<and> \<not> has_failed mimic c \<and> ready n w'"
proof -
  let ?ts = "suite_trials B cases D backend_fn" and ?k = "1 + cases div 8"
  have pass: "\<forall>t \<in> set ?ts. trial_passes ready ?k t"
    using basic_trials_pass [of ?k] concurrent_trials_pass [of ?k] property_trials_pass [OF assms(2), of cases ?k]
    unfolding suite_trials_def set_append ball_Un by simp
  obtain ts' where ts': "mset ts' \<subseteq># mset ?ts" "has_failed mimic (fst (mimic_run mimic args ?ts w)) = (0 < fst (run_trials ts' w))"
    "snd (mimic_run mimic args ?ts w) = snd (run_trials ts' w)"
    using mimic_runner.runs_some [OF assms(1), of ?ts args w] by (elim exE conjE) (rule that)
  have "length ts' \<le> length ?ts" using size_mset_mono [OF ts'(1)] by simp
  also have "length ?ts = 22"
    by (simp add: suite_trials_def basic_trials_def concurrent_trials_def property_trials_def tests_macro_def create_tests_def)
  finally have "n + ?k * length ts' \<le> n + ?k * 22" by (intro add_left_mono mult_le_mono2)
  with assms(3) have "ready (n + ?k * length ts') w"
    using source_at_least [of "n + ?k * length ts'" "n + ?k * 22 - (n + ?k * length ts')" w] by simp
  moreover have "\<forall>t \<in> set ts'. trial_passes ready ?k t"
    using pass set_mset_mono [OF ts'(1)] by auto
  ultimately obtain w' where "run_trials ts' w = (0, w')" "ready n w'"
    using run_trials_pass [of ts' ready ?k n w] by blast
  with ts'(2,3) show ?thesis
    by (cases "mimic_run mimic args ?ts w") (simp add: suite_main_def)
qed

end

section \<open>Fresh directories as a source of backends\<close>

text \<open>
  The world of a program with directories: the root is \<open>root\<close>, two handles are alive, the directories are
  those of \<open>dirs\<close> and some below the root, and the next \<open>n\<close> numbers are free.
\<close>

definition dir_ready :: "path \<Rightarrow> path set \<Rightarrow> nat \<Rightarrow> test_root \<times> fs \<Rightarrow> bool" where
  "dir_ready root dirs n = (\<lambda>(self, fs).
     root_path self = root \<and> root_handles self = 2 \<and> fs_denied fs = {} \<and> root \<in> dirs \<and> dirs \<subseteq> fs_dirs fs \<and>
     (\<forall>q \<in> fs_dirs fs. q \<in> dirs \<or> q \<noteq> [] \<and> butlast q = root) \<and>
     (\<exists>k. root_counter self = of_nat k \<and> k + n \<le> 2 ^ 32 \<and>
       (\<forall>j name. k \<le> j \<and> j < 2 ^ 32 \<longrightarrow> root @ [case_dir (of_nat j) name] \<notin> fs_dirs fs)))"

lemma dir_ready_call:
  assumes "dir_ready root dirs (Suc n) w"
  shows "\<exists>b w'. create_backend mk w = (Ok b, w') \<and> b \<in> range mk \<and> dir_ready root dirs n w'"
proof -
  obtain self fs where w: "w = (self, fs)" by fastforce
  with assms obtain k where self: "root_path self = root" "root_handles self = 2" "fs_denied fs = {}" "root \<in> dirs"
    "dirs \<subseteq> fs_dirs fs" "\<forall>q \<in> fs_dirs fs. q \<in> dirs \<or> q \<noteq> [] \<and> butlast q = root"
    and k: "root_counter self = of_nat k" "k + Suc n \<le> 2 ^ 32"
      "\<And>j name. k \<le> j \<Longrightarrow> j < 2 ^ 32 \<Longrightarrow> root @ [case_dir (of_nat j) name] \<notin> fs_dirs fs"
    unfolding dir_ready_def by auto
  let ?p = "root @ [case_dir (of_nat k) ''unknown'']"
  let ?self = "self\<lparr>root_counter := of_nat (Suc k)\<rparr>" and ?fs = "fs\<lparr>fs_dirs := insert ?p (fs_dirs fs)\<rparr>"
  have "fresh_test_dirs self [''unknown''] fs = (Ok [?p] :: (path list, storage_error) outcome, ?self, ?fs)"
    using fresh_test_dirs_ok [of self fs "[''unknown'']" k, where 'e = storage_error] self k by auto
  then have "fresh_test_dir self ''unknown'' fs = (Ok ?p :: (path, storage_error) outcome, ?self, ?fs)"
    by (auto split: prod.splits outcome.splits)
  then have "create_backend mk w = (Ok (mk ?p), ?self, ?fs)" by (simp add: create_backend_def w)
  moreover have "dir_ready root dirs n (?self, ?fs)"
    unfolding dir_ready_def split
    using self k case_dir_differs [of k _ _ "''unknown''"]
    by (intro conjI exI [of _ "Suc k"]) auto
  ultimately show ?thesis by blast
qed

lemma dir_ready_less: "dir_ready root dirs (Suc n) w \<Longrightarrow> dir_ready root dirs n w"
  unfolding dir_ready_def by auto

interpretation dir_source: backend_source "create_backend mk" "\<lambda>b. b \<in> range mk" "dir_ready root dirs"
  by unfold_locales (rule dir_ready_call, assumption, rule dir_ready_less)

text \<open>Removing a directory that was not there before removes only what is new.\<close>

lemma no_child_of_missing:
  assumes "fs_ok fs" and "p \<notin> fs_dirs fs" and "p \<noteq> []" and "q \<in> fs_dirs fs"
  shows "take (length p) q \<noteq> p"
  using assms(4)
proof (induction q rule: rev_induct)
  case Nil
  with assms(1) show ?case by (auto simp: fs_ok_def)
next
  case (snoc x q)
  show ?case
  proof
    assume p: "take (length p) (q @ [x]) = p"
    with snoc.prems assms(2) have "length p \<le> length q"
      by (metis append_take_drop_id le_SucE length_append_singleton nat_le_linear take_all)
    with p have "take (length p) q = p" by simp
    moreover from this assms(3) have "q \<noteq> []" by auto
    moreover from this snoc.prems assms(1) have "q \<in> fs_dirs fs" unfolding fs_ok_def by (metis butlast_snoc)
    ultimately show False using snoc.IH by blast
  qed
qed

lemma removed_again:
  assumes "fs_ok fs" and "p \<notin> fs_dirs fs" and "p \<noteq> []" and "insert p (fs_dirs fs) \<subseteq> dirs"
    and "\<forall>q \<in> dirs. q \<in> insert p (fs_dirs fs) \<or> q \<noteq> [] \<and> butlast q = p"
  shows "{q \<in> dirs. take (length p) q \<noteq> p} = fs_dirs fs"
proof (intro set_eqI iffI)
  fix q assume q: "q \<in> {q \<in> dirs. take (length p) q \<noteq> p}"
  have "take (length p) q = p" if "q \<noteq> []" "butlast q = p"
    using that by (metis append_butlast_last_id append_eq_conv_conj)
  with q assms(5) show "q \<in> fs_dirs fs" by auto
next
  fix q assume "q \<in> fs_dirs fs"
  with no_child_of_missing [OF assms(1-3), of q] assms(4) show "q \<in> {q \<in> dirs. take (length p) q \<noteq> p}" by auto
qed

section \<open>The programs succeed\<close>

lemma dir_program:
  assumes suite: "\<And>root dirs. suite_source B cfg_ok key_ok idle ro_open rw_open cfg_ok' key_ok' conc
      (create_backend mk) (\<lambda>b. b \<in> range mk) (dir_ready root dirs)"
    and "mimic_runner mimic" and "draws_ok D" and "fs_ok fs" and "fs_denied fs = {}"
    and "(1 + cases div 8) * 22 \<le> 2 ^ 32"
  shows "case dir_tests_main mimic args G entropy target_tmpdir pkg_name B mk cases D fs of (r, fs') \<Rightarrow>
    let top_path = test_root_path target_tmpdir pkg_name [''backend-tests''] in
    case r of
      Ok code \<Rightarrow> code = 0 \<and> fs_dirs fs' = fs_dirs (snd (fs_create_dir_all top_path fs))
    | Panic _ \<Rightarrow> fst (test_root_create G entropy top_path fs) = Err KindAlreadyExists
    | _ \<Rightarrow> False"
proof -
  define top_path where "top_path = test_root_path target_tmpdir pkg_name [''backend-tests'']"
  let ?fs = "snd (fs_create_dir_all top_path fs)"
  obtain r fs1 slept where create: "test_root_create G entropy top_path fs = (r, fs1, slept)" by (metis prod_cases3)
  obtain v where "attempts_result top_path (backoff_delays G v) ?fs [] (r, fs1, slept)"
    using assms(4,5) create by (rule test_root_create_result)
  then consider (root) x where "top_path @ [run_dir x] \<notin> fs_dirs ?fs"
      "r = Ok \<lparr>root_path = top_path @ [run_dir x], root_counter = 0, root_handles = 1\<rparr>"
      "fs1 = ?fs\<lparr>fs_dirs := insert (top_path @ [run_dir x]) (fs_dirs ?fs)\<rparr>"
    | (none) "r = Err KindAlreadyExists"
    unfolding attempts_result_def by auto
  then show ?thesis
  proof cases
    case none
    then show ?thesis
      by (simp add: dir_tests_main_def top_path_def [symmetric] create o_unwrap_def)
  next
    case root
    let ?p = "top_path @ [run_dir x]" and ?root = "\<lparr>root_path = top_path @ [run_dir x], root_counter = 0, root_handles = 1\<rparr>"
    note all = create_dir_all_ok [OF assms(4,5), of top_path]
    have free: "?p @ [y] \<notin> fs_dirs fs1" for y
      using test_root_created(4) [OF assms(4,5), of G entropy top_path ?root fs1 slept y] create root(2) by simp
    have "dir_ready ?p (fs_dirs fs1) (0 + (1 + cases div 8) * 22) (test_root_clone ?root, fs1)"
      unfolding dir_ready_def split
      using all free assms(6) root(3) by (auto simp: test_root_clone_def intro!: exI [of _ 0])
    then obtain c self fs2 where main: "suite_main mimic args B cases D (create_backend mk) (test_root_clone ?root, fs1) =
        (c, self, fs2)" "\<not> has_failed mimic c" "dir_ready ?p (fs_dirs fs1) 0 (self, fs2)"
      using suite_source.suite_passes [OF suite assms(2,3)] by (metis surj_pair)
    then have self: "root_path self = ?p" "root_handles (test_root_drop self) = 1" "?p \<in> fs_dirs fs2"
      "fs_dirs fs1 \<subseteq> fs_dirs fs2" "\<forall>q \<in> fs_dirs fs2. q \<in> fs_dirs fs1 \<or> q \<noteq> [] \<and> butlast q = ?p"
      unfolding dir_ready_def by (auto simp: test_root_drop_def)
    have "{q \<in> fs_dirs fs2. take (length ?p) q \<noteq> ?p} = fs_dirs ?fs"
      using all root(1,3) self(4,5) by (intro removed_again) auto
    moreover have "root_path (test_root_drop self) = ?p" using self(1) by (simp add: test_root_drop_def)
    ultimately have "dir_tests_main mimic args G entropy target_tmpdir pkg_name B mk cases D fs =
        (Ok 0, fs2\<lparr>fs_dirs := fs_dirs ?fs\<rparr>)"
      using create root(2) main(1,2) self(2,3)
      by (simp add: dir_tests_main_def top_path_def [symmetric] test_root_delete_def fs_remove_dir_all_def
          mimic_runner.exit_0 [OF assms(2)] Let_def)
    then show ?thesis by (simp add: top_path_def [symmetric])
  qed
qed

lemma dir_suite_source:
  assumes "backend_contract B cfg_ok key_ok idle ro_open rw_open"
    and "concurrent_backend B cfg_ok' key_ok' conc"
    and "\<And>dir n. n \<in> {1, 2, 5} \<Longrightarrow> cfg_ok (mk dir) (suite_desc n) \<and> cfg_ok' (mk dir) (suite_desc n)"
  shows "suite_source B cfg_ok key_ok idle ro_open rw_open cfg_ok' key_ok' conc
    (create_backend mk) (\<lambda>b. b \<in> range mk) (dir_ready root dirs)"
  using assms(3)
  by (intro suite_source.intro assms(1,2) dir_source.backend_source_axioms suite_source_axioms.intro) auto

text \<open>A runner that runs the selected trials in order, and what proptest may draw.\<close>

definition in_order_mimic :: "(string \<Rightarrow> bool, nat, 'w) mimic" where
  "in_order_mimic =
     \<lparr>mimic_run = (\<lambda>selected ts. run_trials (filter (selected \<circ> trial_name) ts)),
      has_failed = (\<lambda>failed. 0 < failed),
      exit_code = (\<lambda>failed. if 0 < failed then 101 else 0)\<rparr>"

interpretation in_order: mimic_runner in_order_mimic
proof
  fix selected :: "string \<Rightarrow> bool" and ts :: "'w trial list" and w
  show "\<exists>ts'. mset ts' \<subseteq># mset ts \<and>
      has_failed in_order_mimic (fst (mimic_run in_order_mimic selected ts w)) = (0 < fst (run_trials ts' w)) \<and>
      snd (mimic_run in_order_mimic selected ts w) = snd (run_trials ts' w)"
    by (intro exI [of _ "filter (selected \<circ> trial_name) ts"]) (simp add: in_order_mimic_def mset_filter)
qed (simp add: in_order_mimic_def)

definition some_draws :: draws where
  "some_draws =
     (let key = bytes (hex_digits 7); as = [PutAction key [1], DelAction key] in
      \<lparr>d_add_and_delete = (\<lambda>n. replicate n bt_empty),
       d_add_and_delete_some = (\<lambda>n. replicate n (bt_empty, bt_empty, [])),
       d_add_modify_abort_modify_commit = (\<lambda>n. replicate n (as, as, as)),
       d_add_modify_abort_replay_commit = (\<lambda>n. replicate n (as, as)),
       d_db_writes_do_not_interfere = (\<lambda>n. replicate n (as, as)),
       d_empty_after_abort = (\<lambda>n. replicate n (as, [key])),
       d_last_write_wins = (\<lambda>n. replicate n (key, [[1], [2]])),
       d_overwrite_and_abort = (\<lambda>n. replicate n (key, [1], [2])),
       d_post_commit_consistency = (\<lambda>n. replicate n as),
       d_prefix_iteration = (\<lambda>n. replicate n (as, as))\<rparr>)"

lemma some_draws_ok: "draws_ok some_draws"
proof -
  have "gen_key 100 (bytes (hex_digits 7))" "gen_key 1000 (bytes (hex_digits 7))"
    unfolding gen_key_def by (rule exI [of _ 7], simp)+
  then show ?thesis
    by (simp add: draws_ok_def draws_from_def some_draws_def Let_def gen_entries_def gen_actions_def gen_action_def
        bt_empty_def del: hex_digits.simps)
qed

interpretation im_suite: suite_source "in_memory_backend join_ref" "\<lambda>_ _. True" "\<lambda>_. True"
  "lk_idle maps_view maps_valid" "lk_ro maps_view maps_valid" "lk_rw maps_view maps_valid"
  "\<lambda>_ _. True" "\<lambda>_. True" "lk_conc maps_view maps_valid" "\<lambda>w. (Ok in_memory_new, w)" "\<lambda>_. True" "\<lambda>_ _. True"
  by (intro suite_source.intro im.backend_contract_axioms imc.concurrent_backend_axioms backend_source.intro
      suite_source_axioms.intro) auto

text \<open>The program of the in-memory backend exits with 0.\<close>

lemma in_memory_program:
  assumes "mimic_runner mimic" and "draws_ok D"
  shows "in_memory_tests_main mimic args join_ref cases D = 0"
  using im_suite.suite_passes [OF assms, where w = "()" and cases = cases and args = args]
  mimic_runner.exit_0 [OF assms(1)]
  by (auto simp: in_memory_tests_main_def)

text \<open>The names of the maps of the suite have no upper case letters.\<close>

lemma fold_dec_digits: "map fold_char (dec_digits n) = dec_digits n"
proof (induction n rule: dec_digits.induct)
  case (1 n)
  have "fold_char (char_of (48 + d)) = char_of (48 + d)" if "d < 10" for d :: nat
    using of_char_digit [OF that] that by (simp add: fold_char_def)
  with 1 show ?case by (subst (1 2) dec_digits.simps) simp
qed

lemma suite_names_folded: "sql_fold (desc_name (suite_map i)) = desc_name (suite_map i)"
  by (simp add: sql_fold_def desc_name_suite_map pad_left_def fold_dec_digits) (simp add: fold_char_def)

lemma root_created:
  assumes "CHR ''/'' \<notin> set pkg" and "pkg \<noteq> []" and "pkg \<noteq> ''.''"
  shows "\<exists>root. fst (test_root_create counting_seeded (Seed 7) (test_root_path [] pkg [''backend-tests''])
      \<lparr>fs_dirs = {[pkg], [pkg, ''backend-tests'']}, fs_denied = {}\<rparr>) = Ok root"
proof -
  let ?fs = "\<lparr>fs_dirs = {[pkg], [pkg, ''backend-tests'']}, fs_denied = {}\<rparr>"
  have path: "test_root_path [] pkg [''backend-tests''] = [pkg, ''backend-tests'']"
    using assms by (simp add: test_root_path_def path_join_component)
  have "fs_create_dir_all [pkg, ''backend-tests''] ?fs = (Ok (), ?fs)"
    by (subst fs_create_dir_all.simps) (simp add: fs_create_dir_def)
  moreover obtain v where "gen_u64 counting_seeded (make_seedable_rng counting_seeded (Seed 7)) = (v, 8)"
    by (simp add: counting_seeded_def make_seedable_rng_def)
  moreover obtain d ds where "backoff_delays counting_seeded (seed_from_u64 v) = d # ds"
    using length_backoff [of counting_seeded "seed_from_u64 v"]
    by (cases "backoff_delays counting_seeded (seed_from_u64 v)") auto
  ultimately show ?thesis
    by (cases "gen_u32 counting_seeded 8")
      (simp add: test_root_create_def path try_create_dir_def fs_create_dir_def Let_def)
qed

lemma suite_names_fold_distinct:
  "distinct (map (\<lambda>d. sql_fold (desc_name d)) (maps_vec (map_descs (suite_desc n))))"
  using suite_names_distinct [of n] by (simp add: suite_desc_def suite_names_folded comp_def)

lemma sqlite_in_dir_new: "sqlite_mode (sqlite_in_dir dir) \<noteq> existing_file"
  by (cases dir) (simp_all add: sqlite_in_dir_def with_options_def sqlite_new_def path_string_def existing_file_def Let_def)

text \<open>
  C14. The test program of a backend that keeps both contracts, run over any selection and order of the
  trials and any values drawn by proptest, finds no failure: it exits with 0 and removes its root with
  every directory it made, so that of all directories only the requested path to the top directory is
  new; the root still in use cannot happen. It panics only when every name tried for the root exists.
\<close>

theorem test_programs_succeed:
  assumes "backend_contract B cfg_ok key_ok idle ro_open rw_open"
    and "concurrent_backend B cfg_ok' key_ok' conc"
    and "\<And>dir n. n \<in> {1, 2, 5} \<Longrightarrow> cfg_ok (mk dir) (suite_desc n) \<and> cfg_ok' (mk dir) (suite_desc n)"
    and "mimic_runner mimic" and "draws_ok D" and "fs_ok fs" and "fs_denied fs = {}"
    and "(1 + cases div 8) * 22 \<le> 2 ^ 32"
  shows "case dir_tests_main mimic args G entropy target_tmpdir pkg_name B mk cases D fs of (r, fs') \<Rightarrow>
    let top_path = test_root_path target_tmpdir pkg_name [''backend-tests''] in
    case r of
      Ok code \<Rightarrow> code = 0 \<and> fs_dirs fs' = fs_dirs (snd (fs_create_dir_all top_path fs))
    | Panic _ \<Rightarrow> fst (test_root_create G entropy top_path fs) = Err KindAlreadyExists
    | _ \<Rightarrow> False"
  using dir_program [OF dir_suite_source [OF assms(1-3)] assms(4-8)] .

text \<open>The programs of LMDB and SQLite, 32 cases for each property.\<close>

theorem test_programs_succeed_witness:
  "fst (lmdb_tests_main in_order_mimic (\<lambda>_. True) counting_seeded (Seed 7) [] mvcc_engine () 256 some_draws
     \<lparr>fs_dirs = {[''storage-lmdb''], [''storage-lmdb'', ''backend-tests'']}, fs_denied = {}\<rparr>) = Ok 0 \<and>
   fst (sqlite_tests_main in_order_mimic (\<lambda>_. True) counting_seeded (Seed 7) [] ref_sqlite 256 some_draws
     \<lparr>fs_dirs = {[''storage-sqlite''], [''storage-sqlite'', ''backend-tests'']}, fs_denied = {}\<rparr>) = Ok 0"
proof -
  note program = test_programs_succeed [OF _ _ _ in_order.mimic_runner_axioms some_draws_ok,
      where cases = 256 and args = "\<lambda>_. True" and G = counting_seeded and entropy = "Seed 7" and target_tmpdir = "[]"]
  let ?fs = "\<lambda>pkg. \<lparr>fs_dirs = {[pkg], [pkg, ''backend-tests'']}, fs_denied = {}\<rparr>"
  have fs: "fs_ok (?fs pkg)" "fs_denied (?fs pkg) = {}" for pkg by (simp_all add: fs_ok_def)
  have exit_0: "fst x = Ok 0" if "case x of (r, fs') \<Rightarrow> case r of Ok code \<Rightarrow> code = 0 \<and> P fs' | Panic _ \<Rightarrow> False | _ \<Rightarrow> False"
    for x :: "int res \<times> fs" and P
    using that by (cases x; cases "fst x") auto
  have small: "(True \<and> count_as_usize (desc_map_count (suite_desc n)) < 2 ^ 32) \<and>
      (True \<and> count_as_usize (desc_map_count (suite_desc n)) < 2 ^ 32)" if "n \<in> {1, 2, 5}" for n
    using that by auto
  note lmdb = program [OF mvcc.one.lmdb_contract mvcc.lmdb_concurrent small fs [of "''storage-lmdb''"],
      where mk = "lmdb_in_dir mvcc_engine ()" and pkg_name = "''storage-lmdb''"]
  have "fst (lmdb_tests_main in_order_mimic (\<lambda>_. True) counting_seeded (Seed 7) [] mvcc_engine () 256 some_draws
      (?fs ''storage-lmdb'')) = Ok 0"
    unfolding lmdb_tests_main_def
    using lmdb root_created [of "''storage-lmdb''"] by (intro exit_0) (auto simp: Let_def split: outcome.splits)
  moreover have opens: "(sqlite_mode (sqlite_in_dir dir) \<noteq> existing_file \<and>
      (\<forall>desc \<in> set (maps_vec (map_descs (suite_desc n))). True) \<and>
      distinct (map (\<lambda>desc. sql_fold (desc_name desc)) (maps_vec (map_descs (suite_desc n))))) \<and>
     (sqlite_mode (sqlite_in_dir dir) \<noteq> existing_file \<and>
      (\<forall>desc \<in> set (maps_vec (map_descs (suite_desc n))). True) \<and>
      distinct (map (\<lambda>desc. sql_fold (desc_name desc)) (maps_vec (map_descs (suite_desc n)))))" for dir n
    using sqlite_in_dir_new suite_names_fold_distinct by simp
  note sqlite = program [where mk = sqlite_in_dir and pkg_name = "''storage-sqlite''",
      OF sqlite_ref.sqlite_contract sqlite_excl.one_tx.concurrent_backend_axioms opens fs [of "''storage-sqlite''"]]
  have "fst (sqlite_tests_main in_order_mimic (\<lambda>_. True) counting_seeded (Seed 7) [] ref_sqlite 256 some_draws
      (?fs ''storage-sqlite'')) = Ok 0"
    unfolding sqlite_tests_main_def
    using sqlite root_created [of "''storage-sqlite''"] by (intro exit_0) (auto simp: Let_def split: outcome.splits)
  ultimately show ?thesis by simp
qed

end
