(* ===== verification/Typename.thy ===== *)
theory Typename
  imports Prelude
begin

text \<open>
  Type names (\<open>utils/typename/src/lib.rs\<close>) and the macro that derives them
  (\<open>utils/typename-derive/src/lib.rs\<close>). The macro is a function from the parts of the type declaration it
  uses to the body of \<open>typename_str\<close> as a list of tokens; the compiler's part is the evaluation of such
  a body, which fails when the tokens are not an expression.
\<close>

section \<open>The derive macro\<close>

datatype generic_param = TypeParam string | LifetimeParam string | ConstParam string

text \<open>The parts of a \<open>DeriveInput\<close> that are used.\<close>

record derive_input =
  di_ident :: string
  di_params :: "generic_param list"
  di_where :: "string option"

text \<open>
  Tokens: \<open>#type_name.into()\<close>, \<open>#type_name.to_owned()\<close>, a string literal, the plus sign, and
  \<open>#ident::typename_str().as_ref()\<close>.
\<close>

datatype body_token = LitInto string | LitOwned string | Lit string | Plus | NameOf string

text \<open>The generated implementation: its where clause and the body of its method.\<close>

record derive_output =
  do_bounds :: "string list"
  do_body :: "body_token list"

fun type_params :: "generic_param list \<Rightarrow> string list" where
  "type_params [] = []"
| "type_params (TypeParam t # ps) = t # type_params ps"
| "type_params (_ # ps) = type_params ps"

fun intersperse :: "'a \<Rightarrow> 'a list \<Rightarrow> 'a list" where
  "intersperse sep [] = []"
| "intersperse sep [x] = [x]"
| "intersperse sep (x # y # ys) = x # sep # intersperse sep (y # ys)"

definition derive :: "derive_input \<Rightarrow> (derive_output, 'e) outcome" where
  "derive input =
     (let type_name = di_ident input
      in if di_params input = [] then Ok \<lparr>do_bounds = [], do_body = [LitInto type_name]\<rparr>
         else
           let gen_params = map (\<lambda>t. [NameOf t]) (type_params (di_params input));
               gen_params = intersperse [Plus, Lit '','', Plus] gen_params
           in if di_where input \<noteq> None then Panic ''assertion failed: where_clause.is_none()''
              else Ok \<lparr>do_bounds = type_params (di_params input),
                do_body = [LitOwned type_name, Plus, Lit ''<'', Plus] @ concat gen_params @ [Plus, Lit ''>'']\<rparr>)"

section \<open>Compiling and running the body\<close>

text \<open>\<open>env\<close> gives the type names of the parameters. A sum is an owned string and operands, with plus signs.\<close>

fun operand :: "(string \<Rightarrow> string) \<Rightarrow> body_token \<Rightarrow> string option" where
  "operand env (Lit s) = Some s"
| "operand env (NameOf t) = Some (env t)"
| "operand env _ = None"

fun eval_sum :: "(string \<Rightarrow> string) \<Rightarrow> string \<Rightarrow> body_token list \<Rightarrow> string option" where
  "eval_sum env acc [] = Some acc"
| "eval_sum env acc (Plus # t # ts) =
     (case operand env t of None \<Rightarrow> None | Some s \<Rightarrow> eval_sum env (acc @ s) ts)"
| "eval_sum env acc _ = None"

fun eval_body :: "(string \<Rightarrow> string) \<Rightarrow> body_token list \<Rightarrow> string option" where
  "eval_body env [LitInto s] = Some s"
| "eval_body env (LitOwned s # ts) = eval_sum env s ts"
| "eval_body env _ = None"

fun join_comma :: "string list \<Rightarrow> string" where
  "join_comma [] = []"
| "join_comma [s] = s"
| "join_comma (s # t # ts) = s @ '','' @ join_comma (t # ts)"

lemma eval_gen_params:
  "ts \<noteq> [] \<Longrightarrow>
    eval_sum env acc (Plus # concat (intersperse [Plus, Lit '','', Plus] (map (\<lambda>t. [NameOf t]) ts)) @ rest) =
    eval_sum env (acc @ join_comma (map env ts)) rest"
proof (induction ts arbitrary: acc)
  case (Cons t ts)
  then show ?case by (cases ts) simp_all
qed simp

section \<open>Names of types\<close>

text \<open>
  \<open>TypeName for ()\<close>, and a type whose declaration derives its name, applied to arguments.
\<close>

definition unit_typename :: string where
  "unit_typename = ''()''"

datatype ty = Ty (ty_ident: string) (ty_args: "ty list")

fun typename_str :: "ty \<Rightarrow> string" where
  "typename_str (Ty n ts) = (if ts = [] then n else n @ ''<'' @ join_comma (map typename_str ts) @ ''>'')"

definition plain_ident :: "string \<Rightarrow> bool" where
  "plain_ident n \<longleftrightarrow> n \<noteq> [] \<and> set n \<inter> {CHR ''<'', CHR ''>'', CHR '',''} = {}"

fun ty_ok :: "ty \<Rightarrow> bool" where
  "ty_ok (Ty n ts) \<longleftrightarrow> plain_ident n \<and> list_all ty_ok ts"

text \<open>What may follow a type name: nothing, a comma or a closing bracket.\<close>

definition delimited :: "string \<Rightarrow> bool" where
  "delimited r \<longleftrightarrow> r = [] \<or> hd r \<in> {CHR '','', CHR ''>''}"

lemma plain_prefix:
  assumes "plain_ident m" and "plain_ident n" and "m @ r = n @ s"
    and "r = [] \<or> hd r \<in> {CHR ''<'', CHR ''>'', CHR '',''}" and "s = [] \<or> hd s \<in> {CHR ''<'', CHR ''>'', CHR '',''}"
  shows "m = n \<and> r = s"
proof -
  let ?P = "\<lambda>c. c \<notin> {CHR ''<'', CHR ''>'', CHR '',''}"
  have "takeWhile ?P (m @ r) = m" if "plain_ident m" "r = [] \<or> hd r \<in> {CHR ''<'', CHR ''>'', CHR '',''}" for m r
    using that by (cases r) (auto simp: plain_ident_def takeWhile_append)
  from this [OF assms(1,4)] this [OF assms(2,5)] assms(3) show ?thesis by simp
qed

lemma join_comma_cancel:
  assumes "\<And>t u r s. t \<in> set ts \<Longrightarrow> u \<in> set us \<Longrightarrow> delimited r \<Longrightarrow> delimited s \<Longrightarrow>
      f t @ r = f u @ s \<Longrightarrow> t = u \<and> r = s"
    and "ts \<noteq> []" and "us \<noteq> []" and "join_comma (map f ts) @ CHR ''>'' # r = join_comma (map f us) @ CHR ''>'' # s"
  shows "ts = us \<and> r = s"
  using assms
proof (induction ts arbitrary: us)
  case (Cons t ts)
  from \<open>us \<noteq> []\<close> obtain u us' where us: "us = u # us'" by (cases us) auto
  define r' where "r' = (if ts = [] then CHR ''>'' # r else CHR '','' # join_comma (map f ts) @ CHR ''>'' # r)"
  define s' where "s' = (if us' = [] then CHR ''>'' # s else CHR '','' # join_comma (map f us') @ CHR ''>'' # s)"
  have "join_comma (map f (t # ts)) @ CHR ''>'' # r = f t @ r'" by (cases ts) (simp_all add: r'_def)
  moreover have "join_comma (map f us) @ CHR ''>'' # s = f u @ s'" by (cases us') (simp_all add: s'_def us)
  ultimately have eq: "f t @ r' = f u @ s'" using Cons.prems(4) by simp
  have "delimited r'" "delimited s'" by (simp_all add: r'_def s'_def delimited_def)
  from Cons.prems(1) [of t u, OF _ _ this eq] us have tu: "t = u" "r' = s'" by simp_all
  show ?case
  proof (cases "ts = [] \<or> us' = []")
    case True
    with tu us show ?thesis by (auto simp: r'_def s'_def split: if_splits)
  next
    case False
    with tu have "join_comma (map f ts) @ CHR ''>'' # r = join_comma (map f us') @ CHR ''>'' # s"
      by (simp add: r'_def s'_def)
    with Cons.IH [of us'] Cons.prems(1) False us tu show ?thesis by auto
  qed
qed simp

lemma typename_cancel:
  assumes "ty_ok t" and "ty_ok u" and "delimited r" and "delimited s"
    and "typename_str t @ r = typename_str u @ s"
  shows "t = u \<and> r = s"
  using assms
proof (induction t arbitrary: u r s)
  case (Ty n ts)
  obtain m us where u: "u = Ty m us" by (cases u)
  let ?r = "if ts = [] then r else CHR ''<'' # join_comma (map typename_str ts) @ CHR ''>'' # r"
  let ?s = "if us = [] then s else CHR ''<'' # join_comma (map typename_str us) @ CHR ''>'' # s"
  have "n @ ?r = m @ ?s" using Ty.prems(5) u by (simp split: if_splits)
  moreover have "?r = [] \<or> hd ?r \<in> {CHR ''<'', CHR ''>'', CHR '',''}" "?s = [] \<or> hd ?s \<in> {CHR ''<'', CHR ''>'', CHR '',''}"
    using Ty.prems(3,4) by (auto simp: delimited_def)
  ultimately have nm: "n = m" "?r = ?s"
    using plain_prefix [of n m ?r ?s] Ty.prems(1,2) u by simp_all
  show ?case
  proof (cases "ts = [] \<or> us = []")
    case True
    with nm Ty.prems(3,4) u show ?thesis by (auto simp: delimited_def split: if_splits)
  next
    case False
    then have "join_comma (map typename_str ts) @ CHR ''>'' # r = join_comma (map typename_str us) @ CHR ''>'' # s"
      using nm(2) by simp
    moreover have "t = u \<and> r = s"
      if "t \<in> set ts" "u \<in> set us" "delimited r" "delimited s" "typename_str t @ r = typename_str u @ s" for t u r s
      using Ty.IH [OF that(1) _ _ that(3,4,5)] that(1,2) Ty.prems(1,2) u by (simp add: list_all_iff)
    ultimately have "ts = us \<and> r = s" using False by (intro join_comma_cancel [of ts us typename_str]) auto
    with nm u show ?thesis by simp
  qed
qed

section \<open>Properties\<close>

text \<open>
  C40. Deriving \<open>TypeName\<close> for a type without parameters gives its identifier; with at least one type
  parameter the generated body runs to the identifier with the names of the type parameters in order,
  separated by commas; with lifetime or const parameters only, the generated body is not an expression
  and the program does not compile.
\<close>

theorem derive_typename:
  assumes "derive input = (Ok out :: (derive_output, 'e) outcome)"
  shows "eval_body (\<lambda>p. typename_str (inst p)) (do_body out) =
     (if di_params input = [] then Some (typename_str (Ty (di_ident input) []))
      else if type_params (di_params input) = [] then None
      else Some (typename_str (Ty (di_ident input) (map inst (type_params (di_params input))))))"
  using assms eval_gen_params [of "type_params (di_params input)" "\<lambda>p. typename_str (inst p)" _ "[Plus, Lit ''>'']"]
  by (cases "type_params (di_params input) = []") (auto simp: derive_def Let_def comp_def split: if_splits)

theorem derive_typename_witness:
  "(\<exists>out. derive \<lparr>di_ident = ''Key'', di_params = [LifetimeParam ''a'', TypeParam ''T'', TypeParam ''U''], di_where = None\<rparr> =
       (Ok out :: (derive_output, unit) outcome) \<and>
     eval_body (\<lambda>p. typename_str (Ty ''Id'' [])) (do_body out) = Some ''Key<Id,Id>'') \<and>
   (\<exists>out. derive \<lparr>di_ident = ''Ref'', di_params = [LifetimeParam ''a''], di_where = None\<rparr> =
       (Ok out :: (derive_output, unit) outcome) \<and>
     eval_body (\<lambda>p. typename_str (Ty ''Id'' [])) (do_body out) = None)"
proof (intro conjI)
  let ?key = "\<lparr>di_ident = ''Key'', di_params = [LifetimeParam ''a'', TypeParam ''T'', TypeParam ''U''], di_where = None\<rparr>"
  obtain out where "derive ?key = (Ok out :: (derive_output, unit) outcome)" by (simp add: derive_def Let_def)
  with derive_typename [OF this, of "\<lambda>_. Ty ''Id'' []"]
  show "\<exists>out. derive ?key = (Ok out :: (derive_output, unit) outcome) \<and>
      eval_body (\<lambda>p. typename_str (Ty ''Id'' [])) (do_body out) = Some ''Key<Id,Id>''" by simp
next
  let ?ref = "\<lparr>di_ident = ''Ref'', di_params = [LifetimeParam ''a''], di_where = None\<rparr>"
  obtain out where "derive ?ref = (Ok out :: (derive_output, unit) outcome)" by (simp add: derive_def Let_def)
  with derive_typename [OF this, of "\<lambda>_. Ty ''Id'' []"]
  show "\<exists>out. derive ?ref = (Ok out :: (derive_output, unit) outcome) \<and>
      eval_body (\<lambda>p. typename_str (Ty ''Id'' [])) (do_body out) = None" by simp
qed

text \<open>
  Type names tell types apart: two types built from plain identifiers have the same name only if they
  are the same type.
\<close>

theorem typename_injective:
  assumes "ty_ok t" and "ty_ok u"
  shows "typename_str t = typename_str u \<longleftrightarrow> t = u"
  using typename_cancel [OF assms, of "[]" "[]"] by (auto simp: delimited_def)

theorem typename_injective_witness:
  "typename_str (Ty ''A'' [Ty ''B'' [Ty ''C'' []]]) = ''A<B<C>>'' \<and>
   typename_str (Ty ''A'' [Ty ''B'' [Ty ''C'' []]]) \<noteq> typename_str (Ty ''A'' [Ty ''B'' [], Ty ''C'' []])"
  using typename_injective [of "Ty ''A'' [Ty ''B'' [Ty ''C'' []]]" "Ty ''A'' [Ty ''B'' [], Ty ''C'' []]"]
  by (simp add: plain_ident_def)

end
