(* ===== verification/Utils.thy ===== *)
theory Utils
  imports Prelude
begin

text \<open>
  The small wrappers and macros of \<open>utils/src\<close>: constant values with the traits they forward to the
  wrapped value, new types, early exits, shallow clones. Trait methods of the wrapped type are
  arguments. The order of constant values is an instance of the library's \<open>linorder\<close>.
\<close>

section \<open>ConstValue\<close>

datatype 'a const_value = ConstValue (const_inner: 'a)

definition const_new :: "'a \<Rightarrow> 'a const_value" where
  "const_new v = ConstValue v"

definition const_take :: "'a const_value \<Rightarrow> 'a" where
  "const_take self = const_inner self"

definition const_from :: "'a \<Rightarrow> 'a const_value" where
  "const_from v = ConstValue v"

definition const_default :: "'a \<Rightarrow> 'a const_value" where
  "const_default t_default = ConstValue t_default"

definition const_debug :: "('a \<Rightarrow> string) \<Rightarrow> 'a const_value \<Rightarrow> string" where
  "const_debug fmt self = ''ConstValue('' @ fmt (const_inner self) @ '')''"

definition const_display :: "('a \<Rightarrow> string) \<Rightarrow> 'a const_value \<Rightarrow> string" where
  "const_display fmt self = fmt (const_inner self)"

definition const_clone :: "('a \<Rightarrow> 'a) \<Rightarrow> 'a const_value \<Rightarrow> 'a const_value" where
  "const_clone clone self = ConstValue (clone (const_inner self))"

definition const_eq :: "('a \<Rightarrow> 'a \<Rightarrow> bool) \<Rightarrow> 'a const_value \<Rightarrow> 'a const_value \<Rightarrow> bool" where
  "const_eq eq self other = eq (const_inner self) (const_inner other)"

definition const_partial_cmp ::
    "('a \<Rightarrow> 'a \<Rightarrow> ordering option) \<Rightarrow> 'a const_value \<Rightarrow> 'a const_value \<Rightarrow> ordering option" where
  "const_partial_cmp cmp self other = cmp (const_inner self) (const_inner other)"

definition const_cmp :: "('a \<Rightarrow> 'a \<Rightarrow> ordering) \<Rightarrow> 'a const_value \<Rightarrow> 'a const_value \<Rightarrow> ordering" where
  "const_cmp cmp self other = cmp (const_inner self) (const_inner other)"

definition const_hash :: "('a \<Rightarrow> 'h \<Rightarrow> 'h) \<Rightarrow> 'a const_value \<Rightarrow> 'h \<Rightarrow> 'h" where
  "const_hash hash self state = hash (const_inner self) state"

definition const_as_ref :: "'a const_value \<Rightarrow> 'a" where
  "const_as_ref self = const_inner self"

definition const_borrow :: "'a const_value \<Rightarrow> 'a" where
  "const_borrow self = const_inner self"

definition const_deref :: "'a const_value \<Rightarrow> 'a" where
  "const_deref self = const_inner self"

text \<open>The order of the wrapped values, as \<open>Ord\<close> compares them.\<close>

instantiation const_value :: (linorder) linorder
begin

definition less_eq_const_value :: "'a const_value \<Rightarrow> 'a const_value \<Rightarrow> bool" where
  "less_eq_const_value a b \<longleftrightarrow> const_cmp ord_cmp a b \<noteq> Greater"

definition less_const_value :: "'a const_value \<Rightarrow> 'a const_value \<Rightarrow> bool" where
  "less_const_value a b \<longleftrightarrow> const_cmp ord_cmp a b = Less"

instance
  by standard
    (auto simp: less_eq_const_value_def less_const_value_def const_cmp_def ord_cmp_def const_value.expand split: if_splits)

end

text \<open>
  What \<open>Borrow\<close> requires: equality, order and hash of the wrapper are those of what it lends.
\<close>

lemma const_borrow_coherent:
  "const_eq eq a b = eq (const_borrow a) (const_borrow b)"
  "const_cmp cmp a b = cmp (const_borrow a) (const_borrow b)"
  "const_hash h a s = h (const_borrow a) s"
  by (simp_all add: const_eq_def const_cmp_def const_hash_def const_borrow_def)

lemma const_take_new [simp]: "const_take (const_new v) = v" "const_take (const_from v) = v"
  by (simp_all add: const_take_def const_new_def const_from_def)

section \<open>newtype!\<close>

text \<open>The type the macro declares, with its conversions; \<open>deref_mut\<close> is the update through the reference.\<close>

datatype 'a new_type = NewType (new_type_inner: 'a)

definition new_type_new :: "'a \<Rightarrow> 'a new_type" where
  "new_type_new inner = NewType inner"

definition wrapped_from :: "'a new_type \<Rightarrow> 'a" where
  "wrapped_from newtype_instance = new_type_inner newtype_instance"

definition new_type_from :: "'a \<Rightarrow> 'a new_type" where
  "new_type_from inner = NewType inner"

definition new_type_deref :: "'a new_type \<Rightarrow> 'a" where
  "new_type_deref self = new_type_inner self"

definition new_type_deref_mut :: "('a \<Rightarrow> 'a) \<Rightarrow> 'a new_type \<Rightarrow> 'a new_type" where
  "new_type_deref_mut f self = NewType (f (new_type_inner self))"

lemma new_type_laws [simp]:
  "wrapped_from (new_type_from v) = v" "new_type_from (wrapped_from n) = n"
  "new_type_deref (new_type_deref_mut f n) = f (new_type_deref n)"
  by (simp_all add: wrapped_from_def new_type_from_def new_type_deref_def new_type_deref_mut_def)

section \<open>ensure!\<close>

definition bool_then :: "bool \<Rightarrow> (unit \<Rightarrow> 'a) \<Rightarrow> 'a option" where
  "bool_then c f = (if c then Some (f ()) else None)"

text \<open>The macro and the question mark that leaves the enclosing function, whose rest is \<open>k\<close>.\<close>

definition ensure_some :: "bool \<Rightarrow> 'a option \<Rightarrow> 'a option" where
  "ensure_some cond k = (case bool_then cond (\<lambda>_. ()) of Some _ \<Rightarrow> k | None \<Rightarrow> None)"

definition ensure_ok :: "bool \<Rightarrow> (unit \<Rightarrow> 'e) \<Rightarrow> ('a, 'e) outcome \<Rightarrow> ('a, 'e) outcome" where
  "ensure_ok cond err k =
     o_bind (case bool_then cond (\<lambda>_. ()) of Some x \<Rightarrow> Ok x | None \<Rightarrow> Err (err ())) (\<lambda>_. k)"

lemma ensure_cases:
  "ensure_some c k = (if c then k else None)"
  "ensure_ok c e r = (if c then r else Err (e ()))"
  by (simp_all add: ensure_some_def ensure_ok_def bool_then_def)

text \<open>The two examples of its documentation, on \<open>u32\<close>, and the values it lists for them.\<close>

definition safe_div :: "32 word \<Rightarrow> 32 word \<Rightarrow> 32 word option" where
  "safe_div x y = ensure_some (y \<noteq> 0) (Some (x div y))"

datatype div_error = DivByZero | NotIntegral

definition integral_div :: "32 word \<Rightarrow> 32 word \<Rightarrow> (32 word, div_error) outcome" where
  "integral_div x y =
     ensure_ok (y \<noteq> 0) (\<lambda>_. DivByZero)
       (ensure_ok (x mod y = 0) (\<lambda>_. NotIntegral) (Ok (x div y)))"

lemma ensure_examples:
  "safe_div 6 2 = Some 3" "safe_div 0 3 = Some 0" "safe_div 8 0 = None"
  "integral_div 6 2 = Ok 3" "integral_div 0 3 = Ok 0"
  "integral_div 5 3 = Err NotIntegral" "integral_div 8 0 = Err DivByZero"
  by (simp_all add: safe_div_def integral_div_def ensure_cases)

text \<open>A quotient is exact: multiplied by the divisor it gives the dividend back, without overflow.\<close>

lemma integral_div_Ok_iff:
  "integral_div x y = Ok q \<longleftrightarrow> y \<noteq> 0 \<and> unat x = unat q * unat y"
proof (cases "y = 0")
  case False
  then have pos: "0 < unat y" by (simp add: unat_gt_0)
  have "x mod y = 0 \<longleftrightarrow> unat x mod unat y = 0" by (simp add: unat_mod flip: unat_eq_0)
  moreover have "x div y = q \<longleftrightarrow> unat x div unat y = unat q" by (metis unat_div word_unat_eq_iff)
  moreover have "unat x mod unat y = 0 \<and> unat x div unat y = unat q \<longleftrightarrow> unat x = unat q * unat y"
    using pos by auto
  ultimately show ?thesis using False by (auto simp: integral_div_def ensure_cases)
qed (simp add: integral_div_def ensure_cases)

section \<open>ShallowClone\<close>

text \<open>
  References, pointers and phantom data are copied; the clone of a counted pointer is the same pointer,
  with the count of the cell it points to increased.
\<close>

definition shallow_clone_ref :: "'p \<Rightarrow> 'p" where
  "shallow_clone_ref self = self"

definition shallow_clone_phantom :: "unit \<Rightarrow> unit" where
  "shallow_clone_phantom self = self"

definition counted_clone :: "'addr \<Rightarrow> ('addr \<Rightarrow> nat) \<Rightarrow> 'addr \<times> ('addr \<Rightarrow> nat)" where
  "counted_clone p counts = (p, counts(p := counts p + 1))"

definition shallow_clone_counted :: "'addr \<Rightarrow> ('addr \<Rightarrow> nat) \<Rightarrow> 'addr \<times> ('addr \<Rightarrow> nat)" where
  "shallow_clone_counted self counts = counted_clone self counts"

definition shallow_clone_const :: "('a \<Rightarrow> 'a) \<Rightarrow> 'a const_value \<Rightarrow> 'a const_value" where
  "shallow_clone_const clone self = const_clone clone self"

end
