(* ===== verification/Unit_Tests.thy ===== *)
theory Unit_Tests
  imports Typename Test_Dir Schema Utils
begin

text \<open>
  The unit tests of the type names (\<open>utils/typename/src/lib.rs\<close>), of the macro for new types
  (\<open>utils/src/newtype.rs\<close>), of the schema (\<open>storage/src/schema.rs\<close>) and of the test utilities
  (\<open>test-utils/src/lib.rs\<close>, \<open>random.rs\<close>). A test is the outcome of its body. The random ones take their
  seed and the generators as parameters.
\<close>

definition assert_true :: "bool \<Rightarrow> (unit, 'e) outcome" where
  "assert_true b = (if b then Ok () else Panic ''assertion failed'')"

lemma assert_true_simps [simp]: "assert_true True = Ok ()" "assert_true b = Ok () \<longleftrightarrow> b"
  by (simp_all add: assert_true_def)

section \<open>Directories\<close>

text \<open>\<open>test-utils/tests/dir.rs\<close>: cargo has created the target directory before the test runs.\<close>

definition existing_dir_error :: "path \<Rightarrow> fs \<Rightarrow> (unit, fs_error_kind) outcome" where
  "existing_dir_error target_tmpdir fs =
     o_bind (o_unwrap (fst (try_create_dir target_tmpdir fs))) (\<lambda>r. assert_true (r = AlreadyExists))"

lemma existing_dir_error_passes:
  "target_tmpdir \<in> fs_dirs fs \<Longrightarrow> existing_dir_error target_tmpdir fs = Ok ()"
  by (simp add: existing_dir_error_def try_create_dir_def fs_create_dir_def)

section \<open>Type names\<close>

text \<open>
  A type of the tests is the function from the names of its arguments to its own name: written by hand,
  or compiled from what the macro derives. The macro does not look at the fields, so enums and structs
  are the same to it.
\<close>

definition derived_name :: "string \<Rightarrow> string list \<Rightarrow> string list \<Rightarrow> (string, 'e) outcome" where
  "derived_name ident params args =
     o_bind (derive \<lparr>di_ident = ident, di_params = map TypeParam params, di_where = None\<rparr>) (\<lambda>out.
       case eval_body (\<lambda>p. the (map_of (zip params args) p)) (do_body out) of
         Some s \<Rightarrow> Ok s
       | None \<Rightarrow> Panic ''does not compile'')"

definition test_type1 :: "(string, 'e) outcome" where
  "test_type1 = Ok ''TestType1''"

definition test_type2 :: "(string, 'e) outcome" where
  "test_type2 = derived_name ''TestType2'' [] []"

definition test_type3 :: "string \<Rightarrow> (string, 'e) outcome" where
  "test_type3 t = Ok (''TestType3<'' @ t @ ''>'')"

definition test_type4 :: "string \<Rightarrow> (string, 'e) outcome" where
  "test_type4 t = derived_name ''TestType4'' [''T''] [t]"

definition test_type5 :: "string \<Rightarrow> string \<Rightarrow> (string, 'e) outcome" where
  "test_type5 t u = derived_name ''TestType5'' [''T'', ''U''] [t, u]"

definition test_type6 :: "(string, 'e) outcome" where
  "test_type6 = derived_name ''TestType6'' [] []"

definition test_type7 :: "string \<Rightarrow> (string, 'e) outcome" where
  "test_type7 t = derived_name ''TestType7'' [''T''] [t]"

definition test_type8 :: "string \<Rightarrow> string \<Rightarrow> (string, 'e) outcome" where
  "test_type8 t u = derived_name ''TestType8'' [''T'', ''U''] [t, u]"

definition assert_name :: "(string, 'e) outcome \<Rightarrow> string \<Rightarrow> (unit, 'e) outcome" where
  "assert_name r s = o_bind r (\<lambda>x. assert_true (x = s))"

definition typename_manual :: "(unit, 'e) outcome" where
  "typename_manual = assert_name test_type1 ''TestType1''"

definition typename_derive :: "(unit, 'e) outcome" where
  "typename_derive = assert_name test_type2 ''TestType2''"

definition typename_with_custom_generic :: "(unit, 'e) outcome" where
  "typename_with_custom_generic = assert_name (o_bind test_type2 test_type3) ''TestType3<TestType2>''"

definition typename_with_derived_generic :: "(unit, 'e) outcome" where
  "typename_with_derived_generic = assert_name (o_bind test_type2 test_type4) ''TestType4<TestType2>''"

definition typename_with_derived_generic_generic :: "(unit, 'e) outcome" where
  "typename_with_derived_generic_generic =
     assert_name (o_bind (o_bind test_type2 test_type3) test_type4) ''TestType4<TestType3<TestType2>>''"

definition typename_with_two_generics :: "(unit, 'e) outcome" where
  "typename_with_two_generics =
     assert_name (o_bind test_type2 (\<lambda>t. o_bind test_type1 (test_type5 t))) ''TestType5<TestType2,TestType1>''"

definition typename_for_enum :: "(unit, 'e) outcome" where
  "typename_for_enum = assert_name test_type6 ''TestType6''"

definition typename_for_enum_with_generic :: "(unit, 'e) outcome" where
  "typename_for_enum_with_generic = assert_name (o_bind test_type2 test_type7) ''TestType7<TestType2>''"

definition typename_for_enum_with_two_generics :: "(unit, 'e) outcome" where
  "typename_for_enum_with_two_generics =
     assert_name (o_bind test_type2 (\<lambda>t. o_bind test_type1 (test_type8 t))) ''TestType8<TestType2,TestType1>''"

definition typename_tests :: "(unit, 'e) outcome list" where
  "typename_tests =
     [typename_manual, typename_derive, typename_with_custom_generic, typename_with_derived_generic,
      typename_with_derived_generic_generic, typename_with_two_generics, typename_for_enum,
      typename_for_enum_with_generic, typename_for_enum_with_two_generics]"

lemmas typename_test_defs = typename_manual_def typename_derive_def typename_with_custom_generic_def
  typename_with_derived_generic_def typename_with_derived_generic_generic_def typename_with_two_generics_def
  typename_for_enum_def typename_for_enum_with_generic_def typename_for_enum_with_two_generics_def
  test_type1_def test_type2_def test_type3_def test_type4_def test_type5_def test_type6_def test_type7_def
  test_type8_def

lemma typename_tests_pass: "\<forall>t \<in> set typename_tests. t = Ok ()"
  by (simp add: typename_tests_def typename_test_defs assert_name_def derived_name_def derive_def)

section \<open>New types and the schema\<close>

record old_int =
  old_val :: "32 word"

definition old_int_new :: old_int where
  "old_int_new = \<lparr>old_val = 0\<rparr>"

definition old_int_set :: "32 word \<Rightarrow> old_int \<Rightarrow> old_int" where
  "old_int_set v self = self\<lparr>old_val := v\<rparr>"

definition old_int_get :: "old_int \<Rightarrow> 32 word" where
  "old_int_get self = old_val self"

definition test_new_type :: "(unit, 'e) outcome" where
  "test_new_type =
     (let old = old_int_new;
          new = new_type_from old;
          v = 7;
          new = new_type_deref_mut (old_int_set v) new
      in o_bind (assert_true (old_int_get (new_type_deref new) = v)) (\<lambda>_.
        let old_again = wrapped_from new in assert_true (old_int_get old_again = v)))"

lemma test_new_type_passes: "test_new_type = Ok ()"
  by (simp add: test_new_type_def old_int_set_def old_int_get_def new_type_deref_mut_def new_type_deref_def wrapped_from_def
      Let_def)

definition my_schema :: schema where
  "my_schema = decl_schema [''DBIdx0'', ''DBIdx1'', ''DBIdx2'']"

text \<open>The compiler finds the position of a map in the schema.\<close>

definition schema_test :: "(unit, 'e) outcome" where
  "schema_test =
     o_bind (assert_true (map_INDEX Head = DbMapId 0)) (\<lambda>_.
     o_bind (assert_true (map_INDEX (Tail Head) = DbMapId 1)) (\<lambda>_.
     assert_true (map_INDEX (Tail (Tail Head)) = DbMapId 2)))"

lemma schema_test_passes:
  "has_db_map (decl_map ''DBIdx0'') Head my_schema" "has_db_map (decl_map ''DBIdx1'') (Tail Head) my_schema"
  "has_db_map (decl_map ''DBIdx2'') (Tail (Tail Head)) my_schema" "schema_test = Ok ()"
  by (simp_all add: my_schema_def schema_test_def)

section \<open>The matching macros\<close>

datatype test_enum = E1 usize | E2

definition assert_matches_return_val_success :: "(unit, 'e) outcome" where
  "assert_matches_return_val_success =
     (let test_val = E1 123 in
      o_bind (assert_matches_return_val (\<lambda>e. case e of E1 x \<Rightarrow> Some x | E2 \<Rightarrow> None) test_val) (\<lambda>val.
        assert_true (val = 123)))"

definition assert_matches_return_val_failure :: "(unit, 'e) outcome" where
  "assert_matches_return_val_failure =
     (let test_val = E1 123 in
      assert_matches_return_val (\<lambda>e. case e of E1 _ \<Rightarrow> None | E2 \<Rightarrow> Some ()) test_val)"

definition assert_matches_success :: "(unit, 'e) outcome" where
  "assert_matches_success =
     (let test_val = E1 123 in assert_matches (\<lambda>e. case e of E1 _ \<Rightarrow> True | E2 \<Rightarrow> False) test_val)"

definition assert_matches_failure :: "(unit, 'e) outcome" where
  "assert_matches_failure =
     (let test_val = E1 123 in assert_matches (\<lambda>e. case e of E1 _ \<Rightarrow> False | E2 \<Rightarrow> True) test_val)"

text \<open>The two failures are marked \<open>should_panic\<close>.\<close>

lemma match_macro_tests_pass:
  "assert_matches_return_val_success = Ok ()" "assert_matches_success = Ok ()"
  "\<exists>m. assert_matches_return_val_failure = Panic m" "\<exists>m. assert_matches_failure = Panic m"
  by (simp_all add: assert_matches_return_val_success_def assert_matches_return_val_failure_def
      assert_matches_success_def assert_matches_failure_def assert_matches_return_val_def assert_matches_def)

section \<open>The random helpers\<close>

text \<open>The sum of an iterator over \<open>u128\<close>, with the checked addition.\<close>

fun u128_sum :: "128 word \<Rightarrow> 128 word list \<Rightarrow> (128 word, 'e) outcome" where
  "u128_sum acc [] = Ok acc"
| "u128_sum acc (x # xs) =
     (if unat acc + unat x < 2 ^ 128 then u128_sum (acc + x) xs else Panic ''attempt to add with overflow'')"

definition split_value_test ::
    "'r seeded_rng \<Rightarrow> 'r rng \<Rightarrow> ('r \<Rightarrow> 128 word \<times> 'r) \<Rightarrow> seed \<Rightarrow> (unit, 'e) outcome" where
  "split_value_test S G gen_u128 seed =
     (let rng = make_seedable_rng S seed in
      case split_value G 0 rng of (r, rng) \<Rightarrow> o_bind r (\<lambda>v. o_bind (assert_true ([0] = v)) (\<lambda>_.
      case split_value G 1 rng of (r, rng) \<Rightarrow> o_bind r (\<lambda>v. o_bind (assert_true ([1] = v)) (\<lambda>_.
      case gen_u128 rng of (val, rng) \<Rightarrow>
      case split_value G val rng of (r, rng) \<Rightarrow> o_bind r (\<lambda>result.
        o_bind (u128_sum 0 result) (\<lambda>total. assert_true (val = total))))))))"

definition random_ascii_alphanumeric_string_test ::
    "'r seeded_rng \<Rightarrow> 'r string_rng \<Rightarrow> seed \<Rightarrow> (unit, 'e) outcome" where
  "random_ascii_alphanumeric_string_test S G seed =
     (let rng = make_seedable_rng S seed in
      case random_ascii_alphanumeric_string G (HalfOpen 1 100) rng of (result, rng) \<Rightarrow>
        assert_true (list_all is_ascii_alphanumeric result))"

definition shuffle_until_different_test :: "'r seeded_rng \<Rightarrow> 'r rng \<Rightarrow> seed \<Rightarrow> (unit, 'e) outcome" where
  "shuffle_until_different_test S G seed =
     (let rng = make_seedable_rng S seed; vec = [1, 2 :: int] in
      case shuffle_until_different G vec rng of (r, rng) \<Rightarrow> o_bind r (\<lambda>shuffled_vec.
      o_bind (assert_true (vec \<noteq> shuffled_vec)) (\<lambda>_.
      let vec = [1, 2, 3 :: int] in
      case shuffle_until_different G vec rng of (r, rng) \<Rightarrow> o_bind r (\<lambda>shuffled_vec.
        assert_true (vec \<noteq> shuffled_vec)))))"

lemma u128_sum_Ok:
  "unat acc + sum_list (map unat xs) < 2 ^ 128 \<Longrightarrow>
    \<exists>total. u128_sum acc xs = (Ok total :: (128 word, 'e) outcome) \<and> unat total = unat acc + sum_list (map unat xs)"
proof (induction xs arbitrary: acc)
  case (Cons x xs)
  then have "unat acc + unat x < 2 ^ 128" by simp
  moreover from this have "unat (acc + x) = unat acc + unat x" by (simp add: unat_word_ariths)
  ultimately show ?case using Cons.IH [of "acc + x"] Cons.prems by (simp add: add.assoc)
qed simp

text \<open>The test of \<open>split_value\<close> passes whatever the generator draws.\<close>

lemma split_value_test_passes:
  assumes "uniform_rng G"
  shows "split_value_test S G gen_u128 seed = (Ok () :: (unit, 'e) outcome)"
proof -
  have small: "\<exists>r'. split_value G v r = (Ok [v] :: (128 word list, 'e) outcome, r')" if "v = 0 \<or> v = 1" for v r
    using that by (cases "gen_range G 0 10 r") (auto simp: split_value_def u128_sub_def)
  let ?rng = "make_seedable_rng S seed"
  obtain r1 where 0: "split_value G 0 ?rng = (Ok [0] :: (128 word list, 'e) outcome, r1)"
    using small [of 0 ?rng] by auto
  obtain r2 where 1: "split_value G 1 r1 = (Ok [1] :: (128 word list, 'e) outcome, r2)"
    using small [of 1 r1] by auto
  obtain val r3 where val: "gen_u128 r2 = (val, r3)" by fastforce
  obtain parts r4 where parts: "split_value G val r3 = (Ok parts :: (128 word list, 'e) outcome, r4)"
    "sum_list (map unat parts) = unat val"
    using split_value_parts [OF assms, of val r3, where 'e = 'e] by auto
  have "unat val < 2 ^ 128" using unsigned_less [of val] by simp
  then obtain total where "u128_sum 0 parts = (Ok total :: (128 word, 'e) outcome)" "unat total = unat val"
    using u128_sum_Ok [of 0 parts] parts(2) by auto
  moreover from this have "total = val" by (intro unsigned_word_eqI)
  ultimately show ?thesis using 0 1 val parts(1) by (simp add: split_value_test_def Let_def)
qed

lemma random_string_test_passes:
  assumes "alphanumeric_rng G"
  shows "random_ascii_alphanumeric_string_test S G seed = Ok ()"
  using alphanumeric_rng.random_string_shape [OF assms, of "HalfOpen 1 100" "make_seedable_rng S seed"]
  by (simp add: random_ascii_alphanumeric_string_test_def Let_def case_prod_beta list_all_iff)

text \<open>The test of the shuffle passes, or the shuffle gave up after its attempts.\<close>

lemma shuffle_attempts_panic:
  "fst (shuffle_attempts G n xs r :: ('a list, 'e) outcome \<times> 'r) = Panic m \<Longrightarrow> m = ''Can't shuffle the slice''"
  by (induction n arbitrary: r xs) (auto split: prod.splits if_splits)

lemma shuffle_test_passes:
  assumes "uniform_rng G"
  shows "shuffle_until_different_test S G seed \<in> {Ok () :: (unit, 'e) outcome, Panic ''Can't shuffle the slice''}"
proof -
  have shuffled: "(\<exists>ys r'. shuffle_until_different G xs r = (Ok ys :: (int list, 'e) outcome, r') \<and> xs \<noteq> ys) \<or>
      (\<exists>r'. shuffle_until_different G xs r = (Panic ''Can't shuffle the slice'' :: (int list, 'e) outcome, r'))" if "distinct xs" for xs r
    using shuffle_attempts_spec [OF assms, where n = 1000 and xs = xs and r = r and 'e = 'e] that
      shuffle_attempts_panic [of G 1000 xs r, where 'e = 'e]
    by (cases "shuffle_attempts G 1000 xs r :: (int list, 'e) outcome \<times> _")
      (auto simp: shuffle_until_different_def split: outcome.splits)
  let ?rng = "make_seedable_rng S seed"
  show ?thesis
    using shuffled [of "[1, 2]" ?rng] shuffled [of "[1, 2, 3]" "snd (shuffle_until_different G [1, 2 :: int] ?rng :: (int list, 'e) outcome \<times> _)"]
    by (auto simp: shuffle_until_different_test_def Let_def)
qed

end
