(* ===== verification/Handles.thy ===== *)
theory Handles
  imports Utils Locking Lmdb Sqlite
begin

text \<open>
  Handles on an open backend: \<open>TransactionLockImpl\<close>, \<open>LmdbImpl\<close> and \<open>SqliteImpl\<close> as values that are
  cloned. What an \<open>Arc\<close> points to is a cell with an address, and a table counts the pointers to each
  cell. A clone points to the cells of the original, so that the backends' operations, which are modelled
  on the contents of the cells, act on one state that all handles share.
\<close>

type_synonym counts = "nat \<Rightarrow> nat"

definition add_counted :: "nat \<Rightarrow> counts \<Rightarrow> counts" where
  "add_counted p counts = counts(p := counts p + 1)"

definition drop_counted :: "nat \<Rightarrow> counts \<Rightarrow> counts" where
  "drop_counted p counts = counts(p := counts p - 1)"

lemma counted_clone_simps [simp]:
  "shallow_clone_counted p counts = (p, add_counted p counts)"
  "counted_clone p counts = (p, add_counted p counts)"
  by (simp_all add: shallow_clone_counted_def counted_clone_def add_counted_def)

section \<open>TransactionLockImpl\<close>

record lock_handle =
  lh_db :: nat
  lh_num_maps :: "db_map_count const_value"

definition lock_handle_clone :: "lock_handle \<Rightarrow> counts \<Rightarrow> lock_handle \<times> counts" where
  "lock_handle_clone self counts =
     (case counted_clone (lh_db self) counts of
        (db, counts) \<Rightarrow> (\<lparr>lh_db = db, lh_num_maps = lh_num_maps self\<rparr>, counts))"

definition lock_handle_shallow_clone :: "lock_handle \<Rightarrow> counts \<Rightarrow> lock_handle \<times> counts" where
  "lock_handle_shallow_clone self counts =
     (case shallow_clone_counted (lh_db self) counts of
        (db, counts) \<Rightarrow>
          (\<lparr>lh_db = db, lh_num_maps = shallow_clone_const (\<lambda>n. n) (lh_num_maps self)\<rparr>, counts))"

text \<open>\<open>Locking::open\<close> leaves a cell with the lock, and this handle on it.\<close>

definition lock_handle_of :: "nat \<Rightarrow> 't lock_impl \<Rightarrow> lock_handle" where
  "lock_handle_of p s = \<lparr>lh_db = p, lh_num_maps = const_from (li_num_maps s)\<rparr>"

section \<open>LmdbImpl\<close>

record 'db lmdb_handle =
  lmh_env :: nat
  lmh_dbs :: "'db db_maps_data const_value"
  lmh_map_resize_scheduled :: nat

definition lmdb_handle_shallow_clone :: "'db lmdb_handle \<Rightarrow> counts \<Rightarrow> 'db lmdb_handle \<times> counts" where
  "lmdb_handle_shallow_clone self counts =
     (case shallow_clone_counted (lmh_env self) counts of
        (env, counts) \<Rightarrow>
          let dbs = shallow_clone_const (\<lambda>d. d) (lmh_dbs self) in
          (case shallow_clone_counted (lmh_map_resize_scheduled self) counts of
             (flag, counts) \<Rightarrow>
               (\<lparr>lmh_env = env, lmh_dbs = dbs, lmh_map_resize_scheduled = flag\<rparr>, counts)))"

section \<open>SqliteImpl\<close>

datatype sqlite_handle = SqliteHandle (sqh_connection: nat)

definition sqlite_handle_shallow_clone :: "sqlite_handle \<Rightarrow> counts \<Rightarrow> sqlite_handle \<times> counts" where
  "sqlite_handle_shallow_clone self counts =
     (case shallow_clone_counted (sqh_connection self) counts of
        (c, counts) \<Rightarrow> (SqliteHandle c, counts))"

section \<open>Clones share\<close>

text \<open>
  What a shallow clone promises: the clone is a handle on the same cells, each of them counts one more
  pointer, and once the clone is dropped the counts are what they were.
\<close>

locale shallow_handle =
  fixes shallow_clone :: "'h \<Rightarrow> counts \<Rightarrow> 'h \<times> counts" and pointers :: "'h \<Rightarrow> nat list"
  assumes clone_same: "fst (shallow_clone h counts) = h"
    and clone_counts: "snd (shallow_clone h counts) = fold add_counted (pointers h) counts"
begin

lemma counts_after: "fold add_counted ps counts q = counts q + count_list ps q"
  by (induction ps arbitrary: counts) (auto simp: add_counted_def)

lemma counts_dropped: "fold drop_counted ps counts q = counts q - count_list ps q"
  by (induction ps arbitrary: counts) (auto simp: drop_counted_def)

lemma clone_count: "snd (shallow_clone h counts) q = counts q + count_list (pointers h) q"
  by (simp add: clone_counts counts_after)

lemma clone_drop:
  assumes "shallow_clone h counts = (h', counts')"
  shows "fold drop_counted (pointers h') counts' = counts"
proof
  fix q
  have "h' = h" "counts' = snd (shallow_clone h counts)" using clone_same [of h counts] assms by simp_all
  then show "fold drop_counted (pointers h') counts' q = counts q"
    by (simp add: counts_dropped clone_count)
qed

end

interpretation lock_handle: shallow_handle lock_handle_shallow_clone "\<lambda>h. [lh_db h]"
  by unfold_locales (simp_all add: lock_handle_shallow_clone_def shallow_clone_const_def const_clone_def)

interpretation lock_handle_plain: shallow_handle lock_handle_clone "\<lambda>h. [lh_db h]"
  by unfold_locales (simp_all add: lock_handle_clone_def)

interpretation lmdb_handle: shallow_handle lmdb_handle_shallow_clone "\<lambda>h. [lmh_env h, lmh_map_resize_scheduled h]"
  by unfold_locales (simp_all add: lmdb_handle_shallow_clone_def shallow_clone_const_def const_clone_def Let_def)

interpretation sqlite_handle: shallow_handle sqlite_handle_shallow_clone "\<lambda>h. [sqh_connection h]"
  by unfold_locales (simp_all add: sqlite_handle_shallow_clone_def)

end
