(* ===== verification/Spec2Isabelle.thy ===== *)
theory Spec2Isabelle
  imports In_Memory Suite_Property Storage_Properties Storage_Test_Properties Lmdb_Properties Sqlite_Properties
    Concurrent_Backends Backend_Equivalence Resize_Properties Suite_Programs Unit_Tests Handles
begin

text \<open>
  A verification development for the key-value storage stack of this repository: a typed storage over
  interchangeable transactional backends (in memory, LMDB, SQLite), the suite that tests the backends,
  and the utilities around them.

  \<^bold>\<open>The program.\<close> \<open>storage/src\<close> offers \<open>Storage\<close>, transactions and maps whose keys and values pass
  through the SCALE codec. It is generic in a backend, whose traits are in
  \<open>storage/core/src/backend.rs\<close>. \<open>storage/inmemory\<close> is a vector of ordered maps made transactional by
  the locking adaptor of \<open>storage/core/src/adaptor/locking\<close>; \<open>storage/lmdb\<close> and \<open>storage/sqlite\<close> wrap the
  lmdb and rusqlite crates. \<open>storage/backend-test-suite\<close> tests any backend.

  \<^bold>\<open>How the code is modelled.\<close> A Rust call is a function that returns an outcome: the value of \<open>Ok\<close>, the
  error of \<open>Err\<close>, a panic, or \<open>Blocked\<close> when the thread has to wait for a lock. State that handles and
  transactions share is an explicit argument, returned updated; dropping a value is an operation where
  it has an effect. A trait is a record of its operations. A \<open>BTreeMap\<close> is its list of entries in key
  order, an iterator the list of the items it delivers, or a state with a next function where the code
  defines the iterator. A \<open>usize\<close> is a natural number where the code only indexes and counts; bytes,
  memory sizes, counters and amounts are words of their width, with overflow written out.

  \<^bold>\<open>Theories and the files they model.\<close>
  \<^item> \<open>Prelude\<close>, \<open>BTree\<close>: outcomes and their combinators, decimal and hexadecimal text, ordered maps with
    their invariant, and the locale of canonical maps that they interpret.
  \<^item> \<open>Core_Error\<close>, \<open>Core_Types\<close>, \<open>Core_Util\<close>: \<open>storage/core/src\<close> \<open>error.rs\<close>, \<open>types.rs\<close>, \<open>util.rs\<close>.
  \<^item> \<open>Backend\<close>: \<open>backend.rs\<close> and \<open>adaptor/mod.rs\<close>, the traits, and what they promise: the locales
    \<open>core_store\<close> (bare stores) and \<open>backend_contract\<close> (transactions on an array of ordered maps).
  \<^item> \<open>Merge_Join\<close>, \<open>Locking\<close>, \<open>Locking_Contract\<close>: the locking adaptor, its lock, its delta maps and its
    merged scans; it turns a \<open>core_store\<close> into a \<open>backend_contract\<close>. \<open>itertools::merge_join_by\<close> is a
    parameter with its documented behaviour.
  \<^item> \<open>In_Memory\<close>: \<open>storage/inmemory/src/lib.rs\<close>, which interprets both contracts.
  \<^item> \<open>Lmdb\<close>, \<open>Lmdb_Resize\<close>, \<open>Named_Maps\<close>, \<open>Lmdb_Contract\<close>, \<open>Lmdb_Properties\<close>: \<open>storage/lmdb/src\<close>. The lmdb
    crate is a record of its calls; the locale \<open>lmdb_engine\<close> states their documented behaviour and a
    reference environment interprets it. The scheduled resize is also a step relation between threads.
  \<^item> \<open>Lmdb_Snapshots\<close>: LMDB with overlapping transactions. The locale \<open>lmdb_snapshots\<close> states the
    documented snapshots of readers beside one writer, implies \<open>lmdb_engine\<close> and gives the concurrent
    contract; a multi-version environment interprets it.
  \<^item> \<open>Resize_Tests\<close>, \<open>Resize_Contract\<close>, \<open>Resize_Properties\<close>: \<open>storage/lmdb/src/resize_tests.rs\<close>, both tests
    with their random data, over the locales \<open>growing_engine\<close>, \<open>headroom_engine\<close> and \<open>resize_test_engine\<close> of
    environments whose map grows and which call their callback for each resize, and the end of the loop
    that starts a transaction over while the map is full. The callback is a closure with what it captured.
  \<^item> \<open>Sqlite\<close>, \<open>Sqlite_Contract\<close>, \<open>Sqlite_Properties\<close>: \<open>storage/sqlite/src\<close>, in the same way, with the SQL
    statements as the text the code builds.
  \<^item> \<open>Schema\<close>, \<open>Serialization\<close>, \<open>Database\<close>, \<open>Typed_Storage\<close>, \<open>Raw\<close>, \<open>Storage_Properties\<close>:
    \<open>storage/src/schema.rs\<close>, \<open>serialization/src/encoded.rs\<close>, \<open>storage/src/database\<close>. Codecs are
    parameters that read back what they wrote (\<open>scale_codec\<close>), from the front of their input
    (\<open>streaming_codec\<close>), interpreted for unit, bytes, \<open>u16\<close>, pairs and triples.
  \<^item> \<open>Scale_Encodings\<close>, \<open>Storage_Tests\<close>, \<open>Storage_Test_Properties\<close>: \<open>storage/src/test.rs\<close>, the tests of
    \<open>database/raw.rs\<close> and the example in \<open>storage/src/lib.rs\<close>, as programs over any backend and any codecs
    with the documented encodings of byte vectors, strings and integers (the locale \<open>scale_encodings\<close>).
  \<^item> \<open>Suite_Model\<close>, \<open>Suite_Basic\<close>, \<open>Suite_Property\<close>: \<open>model.rs\<close>, \<open>prelude.rs\<close>, \<open>basic.rs\<close> and
    \<open>property.rs\<close> of the test suite. A test is a program over the shared state; the random inputs of the
    property tests are universally quantified over what their strategies can generate.
  \<^item> \<open>Concurrency\<close>, \<open>Thread_Safety\<close>, \<open>Suite_Concurrent\<close>, \<open>Concurrent_Backends\<close>: interleavings of threads, the
    contract \<open>concurrent_backend\<close> for overlapping transactions (which implies the sequential one), the
    tests of \<open>concurrent.rs\<close>, and the locking adaptor, LMDB and SQLite under this contract.
  \<^item> \<open>Suite_Runner\<close>, \<open>Suite_Programs\<close>: \<open>using_proptest\<close>, the registration of the tests, \<open>main\<close> of the test
    suite, and the programs \<open>tests/backend.rs\<close> of the three backends with their test root and exit code.
    What proptest draws and the functions of libtest-mimic (run, has_failed, exit_code) are parameters.
  \<^item> \<open>Backend_Equivalence\<close>: scripts of transactions, on any backend and on an array of ordered maps.
  \<^item> \<open>Test_Utils\<close>, \<open>Test_Random\<close>, \<open>Test_Dir\<close>: \<open>test-utils/src\<close>. Generators are parameters; joining a string to
    a path splits it at its slashes, and the operating system may refuse to create a path.
  \<^item> \<open>Handles\<close>: the handles on an open backend as pointers to counted cells; their clones share these cells.
  \<^item> \<open>Typename\<close>, \<open>Utils\<close>: \<open>utils/typename\<close>, \<open>utils/typename-derive\<close>, \<open>utils/src\<close>.
  \<^item> \<open>Unit_Tests\<close>: the unit tests of the type names, of new types, of the schema and of the test utilities.

  \<^bold>\<open>What the theorems show.\<close> Each backend refines the contract, so everything proved for the contract
  holds of all of them: the whole test suite passes and its programs exit with 0 and leave no directory
  behind, typed transactions are durable when committed, leave no trace when aborted and keep every map
  well typed, scans are exact and in key order, dumps survive loading, any script of transactions is
  answered alike. Readers of LMDB keep their snapshot beside a writer. The concurrent tests end well under every schedule: a step makes some
  thread smaller, so every run is finite, and a thread that waits holds nothing, so no run is stuck.
  The error theorems say what remains after failures, panics, full LMDB maps and failed SQLite
  statements, and they record where a failed commit is not undone. This root theory holds the
  properties of the adaptor and those that span components; the others are in the theories of their
  components.

  \<^bold>\<open>Bounds and fuel.\<close> No definition uses fuel: recursions are structural or have a termination proof, and
  loops that the code bounds keep its bound (1000 samples of a byte, 1000 attempts to shuffle, ten names
  for a test directory). The restart loop of the resize tests may run forever in general and is a partial
  function of options; over an environment that grows it is proved to return. A root has numbers for
  $2^{32}$ test directories, and the programs are shown to make at most 22 times one more than the cases
  of a property. The name of a test directory has 14 bytes before the given name, which leaves 241 of the 255
  a component may have. The contract accepts all keys of 1 to 511 bytes, which is what LMDB accepts.

  \<^bold>\<open>Not modelled.\<close> Re-exports; the generators of the rand crate; the loom configuration of the
  concurrency primitives; hashing beyond forwarding; the formatting of debug output except where the text
  is used; how proptest shrinks a failing case, and trials that run in parallel (they only share the
  atomic counter of the test root). For LMDB, resizing while other threads have transactions open is
  modelled by the resize protocol alone, and readers beyond the size of the reader table are outside the
  documented behaviour that the locales state.
\<close>

section \<open>Scans\<close>

text \<open>
  C17. A prefix scan over an ordered map (\<open>PrefixIter\<close>) delivers exactly the entries whose key starts
  with the prefix, in key order, however many entries lie around them.
\<close>

theorem prefix_scan_exact:
  assumes "bt_inv m"
  shows "prefix_iter_collect (prefix_iter_new m p) = filter (\<lambda>(k, v). take (length p) k = p) m"
  using assms by (simp add: prefix_iter_collect_new bt_prefix_def starts_with_def)

theorem prefix_scan_exact_witness:
  "prefix_iter_collect (prefix_iter_new [([1], 10 :: nat), ([2], 20), ([2, 3], 30), ([3], 40)] [2]) =
     [([2 :: byte], 20), ([2, 3], 30)]"
proof -
  have "bt_inv [([1 :: byte], 10 :: nat), ([2], 20), ([2, 3], 30), ([3], 40)]"
    by (simp add: bt_inv_def)
  from prefix_scan_exact [OF this] show ?thesis by simp
qed

text \<open>
  The prefix iterator does not resume: from an iterator freshly made over an ordered map and after
  any number of calls, once a call returned \<open>None\<close> every later call does.
\<close>

lemma prefix_iter_stays_done:
  assumes "bt_inv m"
    and "it = ((\<lambda>it. snd (prefix_iter_next it)) ^^ n) (prefix_iter_new m p)"
    and "fst (prefix_iter_next it) = None"
  shows "fst (prefix_iter_next (((\<lambda>it. snd (prefix_iter_next it)) ^^ j) it)) = None"
proof -
  have "prefix_iter_ok it"
    unfolding assms(2) by (induction n) (simp_all add: assms(1) prefix_iter_ok_new prefix_iter_ok_next)
  then have "prefix_iter_ok (((\<lambda>it. snd (prefix_iter_next it)) ^^ j) it) \<and>
      fst (prefix_iter_next (((\<lambda>it. snd (prefix_iter_next it)) ^^ j) it)) = None"
    by (induction j) (simp_all add: assms(3) prefix_iter_ok_next prefix_iter_fused_lemma)
  then show ?thesis ..
qed

section \<open>The locking adaptor\<close>

text \<open>
  C4. A prefix scan inside a read-write transaction of the locking adaptor delivers the scan of the
  committed map with the transaction's own puts and deletions applied, for every bare store.
\<close>

theorem rw_scan_sees_own_writes:
  assumes "core_store ops view valid" and "merge_join mjb"
    and "lk_rw view valid tx s b c" and "i < length b"
  shows "prefix_iter_rw mjb ops tx s (DbMapId i) p =
    Ok (bt_prefix p (apply_deltas (maps_vec (deltas tx) ! i) (b ! i)))"
proof -
  have i: "i < length c" using assms(3,4) lk_rw_ok by fastforce
  have "locking_adaptor ops view valid mjb" using assms(1,2) by (rule locking_adaptor.intro)
  from locking_adaptor.prefix_iter_rw_spec [OF this assms(3) i] show ?thesis
    using lk_rw_nth [OF assms(3) i] by simp
qed

theorem rw_scan_sees_own_writes_witness:
  "prefix_iter_rw join_ref storage_maps_ops
     \<lparr>deltas = DbMapsData [[([1, 1], None), ([1, 2], Some [7])]]\<rparr>
     \<lparr>li_db = \<lparr>rw_cell = StorageMaps (DbMapsData [[([1, 1], [5]), ([1, 3], [6]), ([2], [8])]]),
        rw_readers = 0, rw_writer = True, rw_poisoned = False\<rparr>, li_num_maps = DbMapCount 1\<rparr>
     (DbMapId 0) [1] = Ok [([1, 2], [7]), ([1, 3], [6])]"
proof -
  let ?tx = "\<lparr>deltas = DbMapsData [[([1, 1], None), ([1, 2], Some [7])]]\<rparr> :: tx_rw"
  let ?s = "\<lparr>li_db = \<lparr>rw_cell = StorageMaps (DbMapsData [[([1, 1], [5]), ([1, 3], [6]), ([2], [8])]]),
        rw_readers = 0, rw_writer = True, rw_poisoned = False\<rparr>, li_num_maps = DbMapCount 1\<rparr>"
  have rw: "lk_rw maps_view maps_valid ?tx ?s [[([1, 1], [5]), ([1, 3], [6]), ([2], [8])]]
      [[([1, 2], [7]), ([1, 3], [6]), ([2], [8])]]"
    by (simp add: lk_rw_def locked_db_def maps_valid_def maps_view_def contents_ok_def bt_inv_def)
  from rw_scan_sees_own_writes [OF mem.core_store_axioms join_ref.merge_join_axioms rw, of 0 "[1]"]
  show ?thesis by (simp add: bt_prefix_def)
qed

text \<open>
  C18. The last write wins in a read-write transaction of the locking adaptor, after any series of puts
  and deletions and over any bare store, also one whose operations fail. A lookup returns the last write
  to its key without asking the store; for a key the transaction did not write, it returns what the store
  answers, errors and panics included. A commit replays each key written once, with its last write.
\<close>

theorem last_write_wins_in_transaction:
  assumes "locking_transaction_rw s sz = (Ok tx, s1)" and "tx_rw_writes ws tx s1 = (tx2, s2)"
    and "i < count_as_usize (li_num_maps s)"
  shows "tx_rw_get ops tx2 s2 (DbMapId i) k =
      (case last_write (DbMapId i) k ws of Some w \<Rightarrow> Ok w | None \<Rightarrow> co_get ops (locked_db s) (DbMapId i) k) \<and>
    ((DbMapId i, k, w) \<in> set (change_list (deltas tx2)) \<longleftrightarrow> last_write (DbMapId i) k ws = Some w) \<and>
    distinct (map (\<lambda>(j, k, w). (j, k)) (change_list (deltas tx2)))"
proof -
  have s2: "s2 = s1" and tx2: "tx2 = fst (tx_rw_writes ws tx s1)"
    using assms(2) tx_rw_writes_shared [of ws tx s1] by simp_all
  have tx: "deltas tx = maps_new (li_num_maps s) (\<lambda>_. bt_empty)" and s1: "locked_db s1 = locked_db s"
    using assms(1) by (auto simp: locking_transaction_rw_def rwlock_write_def locked_db_def split: if_splits)
  have len: "i < length (maps_vec (deltas tx))" and empty: "bt_get (maps_vec (deltas tx) ! i) k = None"
    and inv: "list_all bt_inv (maps_vec (deltas tx))"
    using assms(3) by (simp_all add: tx maps_new_def count_indices_def list_all_length bt_get_def bt_empty_def)
  have len2: "i < length (maps_vec (deltas tx2))" using len tx_rw_writes_length [of ws tx s1] by (simp add: tx2)
  have inv2: "list_all bt_inv (maps_vec (deltas tx2))" unfolding tx2 using inv by (rule tx_rw_writes_inv)
  have get: "bt_get (maps_vec (deltas tx2) ! i) k = last_write (DbMapId i) k ws"
    using tx_rw_writes_get [OF inv len, of ws s1 k] empty by (simp add: tx2 split: option.split)
  then have "tx_rw_get ops tx2 s2 (DbMapId i) k =
      (case last_write (DbMapId i) k ws of Some w \<Rightarrow> Ok w | None \<Rightarrow> co_get ops (locked_db s) (DbMapId i) k)"
    using len2 s1 by (simp add: tx_rw_get_def maps_index_def s2 split: option.split)
  with get change_list_iff [OF inv2 len2] change_list_distinct [OF inv2] show ?thesis by simp
qed

text \<open>A store whose lookups all fail: the keys written are found all the same, the others are not.\<close>

theorem last_write_wins_in_transaction_witness:
  "tx_rw_get (storage_maps_ops\<lparr>co_get := (\<lambda>_ _ _. Err (Fatal OutOfSpace))\<rparr>)
     \<lparr>deltas = DbMapsData [[([1], None), ([2], Some [7])]]\<rparr>
     \<lparr>li_db = \<lparr>rw_cell = StorageMaps (DbMapsData [[([1], [5]), ([3], [6])]]),
        rw_readers = 0, rw_writer = True, rw_poisoned = False\<rparr>, li_num_maps = DbMapCount 1\<rparr>
     (DbMapId 0) [1] = Ok None"
proof -
  let ?s = "\<lambda>w. \<lparr>li_db = \<lparr>rw_cell = StorageMaps (DbMapsData [[([1 :: byte], [5 :: byte]), ([3], [6])]]),
      rw_readers = 0, rw_writer = w, rw_poisoned = False\<rparr>, li_num_maps = DbMapCount 1\<rparr>"
  let ?ws = "[(DbMapId 0, [1], Some [9]), (DbMapId 0, [2], Some [7]), (DbMapId 0, [1], None)]"
  have tx: "locking_transaction_rw (?s False) None = (Ok \<lparr>deltas = DbMapsData [bt_empty]\<rparr>, ?s True)"
    by (simp add: locking_transaction_rw_def rwlock_write_def maps_new_def count_indices_def)
  have writes: "tx_rw_writes ?ws \<lparr>deltas = DbMapsData [bt_empty]\<rparr> (?s True) =
      (\<lparr>deltas = DbMapsData [[([1], None), ([2], Some [7])]]\<rparr>, ?s True)"
    by (simp add: tx_rw_put_def tx_rw_del_def tx_rw_update_def maps_index_mut_def bt_empty_def)
  have "0 < count_as_usize (li_num_maps (?s False))" by simp
  from last_write_wins_in_transaction [OF tx writes this, of
      "storage_maps_ops\<lparr>co_get := (\<lambda>_ _ _. Err (Fatal OutOfSpace))\<rparr>" "[1]"] show ?thesis by simp
qed

text \<open>
  C5. Committing a read-write transaction of the locking adaptor succeeds, makes every map of the store
  equal to what the transaction saw, and releases the lock.
\<close>

theorem commit_installs_view:
  assumes "core_store ops view valid" and "lk_rw view valid tx s b c"
  shows "\<exists>s'. tx_rw_commit ops tx s = (Ok (), s') \<and> view (locked_db s') = c \<and> lock_free (li_db s')"
proof -
  have "locking_adaptor ops view valid join_ref"
    using assms(1) join_ref.merge_join_axioms by (rule locking_adaptor.intro)
  from locking_adaptor.tx_rw_commit_spec [OF this assms(2)] show ?thesis
    by (auto simp: lk_idle_def)
qed

theorem commit_installs_view_witness:
  "\<exists>s'. tx_rw_commit storage_maps_ops
     \<lparr>deltas = DbMapsData [[([1], None), ([2], Some [7])]]\<rparr>
     \<lparr>li_db = \<lparr>rw_cell = StorageMaps (DbMapsData [[([1], [5]), ([3], [6])]]),
        rw_readers = 0, rw_writer = True, rw_poisoned = False\<rparr>, li_num_maps = DbMapCount 1\<rparr> = (Ok (), s') \<and>
     maps_view (locked_db s') = [[([2], [7]), ([3], [6])]] \<and> lock_free (li_db s')"
proof (rule commit_installs_view [OF mem.core_store_axioms])
  show "lk_rw maps_view maps_valid \<lparr>deltas = DbMapsData [[([1], None), ([2], Some [7])]]\<rparr>
     \<lparr>li_db = \<lparr>rw_cell = StorageMaps (DbMapsData [[([1], [5]), ([3], [6])]]),
        rw_readers = 0, rw_writer = True, rw_poisoned = False\<rparr>, li_num_maps = DbMapCount 1\<rparr>
     [[([1], [5]), ([3], [6])]] [[([2], [7]), ([3], [6])]]"
    by (simp add: lk_rw_def locked_db_def maps_valid_def maps_view_def contents_ok_def bt_inv_def)
qed

text \<open>
  C19. A read-write transaction of the locking adaptor that is dropped leaves no trace: after any series
  of puts and deletions, successful or not, the store and the lock are as they were before it began.
\<close>

theorem aborted_transaction_leaves_no_trace:
  assumes "locking_transaction_rw s sz = (Ok tx, s1)" and "tx_rw_writes ws tx s1 = (tx2, s2)"
  shows "tx_rw_drop tx2 s2 = s"
proof -
  have "s2 = s1" using assms(2) tx_rw_writes_shared [of ws tx s1] by simp
  with assms(1) show ?thesis
    by (cases s; cases "li_db s")
      (auto simp: locking_transaction_rw_def rwlock_write_def tx_rw_drop_def drop_write_guard_def
        split: if_splits)
qed

theorem aborted_transaction_leaves_no_trace_witness:
  "tx_rw_drop
     \<lparr>deltas = DbMapsData [[([1], None), ([2], Some [9])]]\<rparr>
     \<lparr>li_db = \<lparr>rw_cell = StorageMaps (DbMapsData [[([1], [5])]]),
        rw_readers = 0, rw_writer = True, rw_poisoned = False\<rparr>, li_num_maps = DbMapCount 1\<rparr> =
   \<lparr>li_db = \<lparr>rw_cell = StorageMaps (DbMapsData [[([1], [5])]]),
        rw_readers = 0, rw_writer = False, rw_poisoned = False\<rparr>, li_num_maps = DbMapCount 1\<rparr>"
  by (rule aborted_transaction_leaves_no_trace
      [where sz = None and tx = "\<lparr>deltas = DbMapsData [bt_empty]\<rparr>"
        and ws = "[(DbMapId 0, [1], None), (DbMapId 0, [2], Some [9])]"
        and ?s1.0 = "\<lparr>li_db = \<lparr>rw_cell = StorageMaps (DbMapsData [[([1], [5])]]),
          rw_readers = 0, rw_writer = True, rw_poisoned = False\<rparr>, li_num_maps = DbMapCount 1\<rparr>"])
    (simp_all add: locking_transaction_rw_def rwlock_write_def maps_new_def count_indices_def
      tx_rw_put_def tx_rw_del_def tx_rw_update_def maps_index_mut_def bt_empty_def)

text \<open>
  While a read-write transaction is open every other transaction waits; while read-only
  transactions are open a read-write one waits and another read-only one is admitted, reading the same
  store. A request that waits changes nothing.
\<close>

lemma lock_exclusion:
  "(rw_writer (li_db s) \<longrightarrow>
      locking_transaction_ro s = (Blocked, s) \<and> locking_transaction_rw s sz = (Blocked, s)) \<and>
   (0 < rw_readers (li_db s) \<and> \<not> rw_writer (li_db s) \<and> \<not> rw_poisoned (li_db s) \<longrightarrow>
      locking_transaction_rw s sz = (Blocked, s) \<and>
      (\<exists>s'. locking_transaction_ro s = (Ok TxRo, s') \<and> rw_readers (li_db s') = Suc (rw_readers (li_db s)) \<and>
        locked_db s' = locked_db s))"
  by (auto simp: locking_transaction_ro_def locking_transaction_rw_def rwlock_read_def rwlock_write_def
      locked_db_def)

text \<open>
  C27. A commit of the locking adaptor is not atomic, over any bare store and for any changes in any number
  of maps. It fails with an error exactly when the store refuses one of the changes with this error, all
  those before it having succeeded: the store is then what these left and the refused one made of it, so
  the earlier writes stay, and no later change is tried. It succeeds exactly when all the changes do. Either
  way the write guard is released without poisoning the lock.
\<close>

theorem failed_commit_keeps_earlier_writes:
  "(tx_rw_commit ops tx s = (Err e, s') \<longleftrightarrow>
      (\<exists>pre c post db1 db2. change_list (deltas tx) = pre @ c # post \<and>
        replay ops pre (locked_db s) = (Ok (), db1) \<and> do_change ops c db1 = (Err e, db2) \<and>
        s' = s\<lparr>li_db := (li_db s)\<lparr>rw_cell := db2, rw_writer := False\<rparr>\<rparr>)) \<and>
   (tx_rw_commit ops tx s = (Ok (), s') \<longleftrightarrow>
      (\<exists>db1. replay ops (change_list (deltas tx)) (locked_db s) = (Ok (), db1) \<and>
        s' = s\<lparr>li_db := (li_db s)\<lparr>rw_cell := db1, rw_writer := False\<rparr>\<rparr>))"
proof -
  obtain r db where db: "replay ops (change_list (deltas tx)) (locked_db s) = (r, db)" by fastforce
  then have commit: "tx_rw_commit ops tx s = (r, s\<lparr>li_db := drop_write_guard (is_panic r) ((li_db s)\<lparr>rw_cell := db\<rparr>)\<rparr>)"
    by (simp add: tx_rw_commit_def commit_maps_replay)
  have guard: "drop_write_guard False ((li_db s)\<lparr>rw_cell := x\<rparr>) = (li_db s)\<lparr>rw_cell := x, rw_writer := False\<rparr>" for x
    by (simp add: drop_write_guard_def)
  have "tx_rw_commit ops tx s = (Err e, s') \<longleftrightarrow>
      (\<exists>db2. replay ops (change_list (deltas tx)) (locked_db s) = (Err e, db2) \<and>
        s' = s\<lparr>li_db := (li_db s)\<lparr>rw_cell := db2, rw_writer := False\<rparr>\<rparr>)"
    by (auto simp: commit db guard)
  moreover have "tx_rw_commit ops tx s = (Ok (), s') \<longleftrightarrow>
      (\<exists>db1. replay ops (change_list (deltas tx)) (locked_db s) = (Ok (), db1) \<and>
        s' = s\<lparr>li_db := (li_db s)\<lparr>rw_cell := db1, rw_writer := False\<rparr>\<rparr>)"
    by (auto simp: commit db guard)
  ultimately show ?thesis unfolding replay_Err_iff by blast
qed

text \<open>Three changes in two maps, the second of which is refused: the first stays, the third is not tried.\<close>

theorem failed_commit_keeps_earlier_writes_witness:
  "\<exists>s'. tx_rw_commit
       (storage_maps_ops\<lparr>co_put := (\<lambda>t i k v. if k = [2] then (Err (Fatal OutOfSpace), t) else storage_maps_put t i k v)\<rparr>)
       \<lparr>deltas = DbMapsData [[([1], Some [7]), ([2], Some [8])], [([3], Some [9])]]\<rparr>
       \<lparr>li_db = \<lparr>rw_cell = StorageMaps (DbMapsData [[], []]),
          rw_readers = 0, rw_writer = True, rw_poisoned = False\<rparr>, li_num_maps = DbMapCount 2\<rparr> =
       (Err (Fatal OutOfSpace), s') \<and>
     locked_db s' = StorageMaps (DbMapsData [[([1], [7])], []]) \<and> lock_free (li_db s')"
proof -
  let ?ops = "storage_maps_ops\<lparr>co_put := (\<lambda>t i k v. if k = [2] then (Err (Fatal OutOfSpace), t) else storage_maps_put t i k v)\<rparr>"
  let ?d = "DbMapsData [[([1], Some [7]), ([2], Some [8])], [([3], Some [9])]] :: delta_map db_maps_data"
  let ?s = "\<lparr>li_db = \<lparr>rw_cell = StorageMaps (DbMapsData [[], []]),
      rw_readers = 0, rw_writer = True, rw_poisoned = False\<rparr>, li_num_maps = DbMapCount 2\<rparr>"
  let ?db = "StorageMaps (DbMapsData [[([1], [7])], []])"
  have "change_list ?d = [(DbMapId 0, [1], Some [7])] @ (DbMapId 0, [2], Some [8]) # [(DbMapId 1, [3], Some [9])]"
    by (simp add: change_list_def into_iter_with_id_def)
  moreover have "replay ?ops [(DbMapId 0, [1], Some [7])] (locked_db ?s) = (Ok (), ?db)"
    "do_change ?ops (DbMapId 0, [2], Some [8]) ?db = (Err (Fatal OutOfSpace), ?db)"
    by (simp_all add: do_change_def storage_maps_put_def storage_maps_update_def maps_index_mut_def locked_db_def)
  ultimately have "tx_rw_commit ?ops \<lparr>deltas = ?d\<rparr> ?s =
      (Err (Fatal OutOfSpace), ?s\<lparr>li_db := (li_db ?s)\<lparr>rw_cell := ?db, rw_writer := False\<rparr>\<rparr>)"
    by (intro iffD2 [OF conjunct1 [OF failed_commit_keeps_earlier_writes]])
      (intro exI [of _ "[(DbMapId 0, [1], Some [7])]"] exI [of _ "(DbMapId 0, [2], Some [8])"]
        exI [of _ "[(DbMapId 1, [3], Some [9])]"] exI [of _ ?db] conjI; simp only: tx_rw.simps)
  then show ?thesis by (simp add: locked_db_def lock_free_def)
qed

text \<open>
  A map identifier that is out of range panics in every operation of a read-write transaction of the
  locking adaptor, and a write with it records nothing.
\<close>

lemma unknown_map_panics:
  assumes "length (maps_vec (deltas tx)) \<le> i"
  shows "(\<exists>m. tx_rw_get ops tx s (DbMapId i) k = Panic m) \<and>
    (\<exists>m. tx_rw_put tx s (DbMapId i) k v = (Panic m, tx, s)) \<and>
    (\<exists>m. tx_rw_del tx s (DbMapId i) k = (Panic m, tx, s))"
  using assms
  by (simp add: tx_rw_get_def tx_rw_put_def tx_rw_del_def tx_rw_update_def maps_index_def maps_index_mut_def)

text \<open>
  C30. A panic inside a read-write transaction of the locking adaptor, here from an operation with a map
  identifier that is out of range after any other writes, leaves the store as it was before the
  transaction. But the unwinding drop poisons the lock: every later transaction of either kind panics and
  changes nothing.
\<close>

theorem panic_poisons_lock:
  assumes "locking_transaction_rw s sz = (Ok tx, s1)" and "tx_rw_writes ws tx s1 = (tx2, s2)"
    and "count_as_usize (li_num_maps s) \<le> i"
  shows "(\<exists>m. tx_rw_get ops tx2 s2 (DbMapId i) k = Panic m) \<and>
    (\<exists>m. tx_rw_put tx2 s2 (DbMapId i) k v = (Panic m, tx2, s2)) \<and>
    (\<exists>m. tx_rw_del tx2 s2 (DbMapId i) k = (Panic m, tx2, s2)) \<and>
    (let s3 = tx_rw_unwind tx2 s2 in
       locked_db s3 = locked_db s \<and>
       locking_transaction_ro s3 = (Panic ''lock to be alive'', s3) \<and>
       locking_transaction_rw s3 sz' = (Panic ''lock to be alive'', s3))"
proof -
  have s2: "s2 = s1" using assms(2) tx_rw_writes_shared [of ws tx s1] by simp
  have tx: "length (maps_vec (deltas tx)) = count_as_usize (li_num_maps s)"
    and s1: "locked_db s1 = locked_db s" "rw_readers (li_db s1) = 0"
    using assms(1) by (auto simp: locking_transaction_rw_def rwlock_write_def locked_db_def split: if_splits)
  have "length (maps_vec (deltas tx2)) \<le> i"
    using tx_rw_writes_length [of ws tx s1] assms(2,3) tx by simp
  from unknown_map_panics [OF this, of ops s2 k v] show ?thesis
    using s1 by (simp add: s2 tx_rw_unwind_def drop_write_guard_def locking_transaction_ro_def
        locking_transaction_rw_def rwlock_read_def rwlock_write_def locked_db_def)
qed

theorem panic_poisons_lock_witness:
  "(let s3 = tx_rw_unwind \<lparr>deltas = DbMapsData [[([1], Some [9])]]\<rparr>
       \<lparr>li_db = \<lparr>rw_cell = StorageMaps (DbMapsData [[([1], [5])]]),
          rw_readers = 0, rw_writer = True, rw_poisoned = False\<rparr>, li_num_maps = DbMapCount 1\<rparr> in
    locked_db s3 = StorageMaps (DbMapsData [[([1], [5])]]) \<and>
    locking_transaction_ro s3 = (Panic ''lock to be alive'', s3) \<and>
    locking_transaction_rw s3 (Some 3) = (Panic ''lock to be alive'', s3))"
proof -
  let ?s = "\<lambda>w. \<lparr>li_db = \<lparr>rw_cell = StorageMaps (DbMapsData [[([1 :: byte], [5 :: byte])]]),
      rw_readers = 0, rw_writer = w, rw_poisoned = False\<rparr>, li_num_maps = DbMapCount 1\<rparr>"
  have tx: "locking_transaction_rw (?s False) None = (Ok \<lparr>deltas = DbMapsData [bt_empty]\<rparr>, ?s True)"
    by (simp add: locking_transaction_rw_def rwlock_write_def maps_new_def count_indices_def)
  have writes: "tx_rw_writes [(DbMapId 0, [1], Some [9])] \<lparr>deltas = DbMapsData [bt_empty]\<rparr> (?s True) =
      (\<lparr>deltas = DbMapsData [[([1], Some [9])]]\<rparr>, ?s True)"
    by (simp add: tx_rw_put_def tx_rw_update_def maps_index_mut_def bt_empty_def)
  have "count_as_usize (li_num_maps (?s False)) \<le> 1" by simp
  from panic_poisons_lock [OF tx writes this, of storage_maps_ops "[]" "[]" "Some 3"] show ?thesis
    by (simp add: Let_def locked_db_def)
qed

section \<open>Three backends, one contract\<close>

text \<open>
  C1. The in-memory backend keeps the promises of a transactional backend: reads see the committed
  contents and the transaction's own changes, a commit installs them, a drop discards them, for all
  keys.
\<close>

theorem in_memory_refines_contract:
  assumes "merge_join mjb"
  shows "backend_contract (in_memory_backend mjb) (\<lambda>_ _. True) (\<lambda>_. True)
    (lk_idle maps_view maps_valid) (lk_ro maps_view maps_valid) (lk_rw maps_view maps_valid)"
  using assms by (rule in_memory_contract)

theorem in_memory_refines_contract_witness:
  "backend_contract (in_memory_backend join_ref) (\<lambda>_ _. True) (\<lambda>_. True)
    (lk_idle maps_view maps_valid) (lk_ro maps_view maps_valid) (lk_rw maps_view maps_valid)"
  by (rule in_memory_refines_contract [OF join_ref.merge_join_axioms])

text \<open>
  C2. The LMDB backend keeps the same promises over an LMDB environment with room for the writes, for
  keys of 1 to 511 bytes and fewer than \<open>2^32\<close> maps; in particular absent keys read as \<open>None\<close> and
  deleting one succeeds, although LMDB reports both as \<open>NotFound\<close>.
\<close>

theorem lmdb_refines_contract:
  assumes "lmdb_engine L e_idle e_ro e_rw e_max fresh_path"
  shows "backend_contract (lmdb_backend L)
    (\<lambda>cfg d. fresh_path (lmdb_path cfg) \<and> count_as_usize (desc_map_count d) < 2 ^ 32)
    lmdb_key_ok (lm_idle e_idle) (lm_ro e_ro) (lm_rw e_rw)"
  using assms by (rule lmdb_engine.lmdb_contract)

theorem lmdb_refines_contract_witness:
  "backend_contract (lmdb_backend ref_engine)
    (\<lambda>cfg d. True \<and> count_as_usize (desc_map_count d) < 2 ^ 32)
    lmdb_key_ok (lm_idle ref_idle) (lm_ro ref_ro) (lm_rw ref_rw)"
  using lmdb_refines_contract [OF lmdb_ref.lmdb_engine_axioms] by simp

text \<open>
  C3. The SQLite backend keeps the same promises over a connection that executes its statements as
  documented, for map names that are valid identifiers and differ in more than case.
\<close>

theorem sqlite_refines_contract:
  assumes "sqlite_engine Q q_idle q_tx fresh_mode ident_ok"
  shows "backend_contract (sqlite_backend Q)
    (\<lambda>cfg d. fresh_mode (sqlite_mode cfg) \<and>
       (\<forall>desc \<in> set (maps_vec (map_descs d)). ident_ok (desc_name desc)) \<and>
       distinct (map (\<lambda>desc. sql_fold (desc_name desc)) (maps_vec (map_descs d))))
    (\<lambda>_. True) (sq_idle q_idle) (sq_ro q_tx) (sq_rw q_tx)"
  using assms by (rule sqlite_engine.sqlite_contract)

theorem sqlite_refines_contract_witness:
  "backend_contract (sqlite_backend ref_sqlite)
    (\<lambda>cfg d. sqlite_mode cfg \<noteq> existing_file \<and> (\<forall>desc \<in> set (maps_vec (map_descs d)). True) \<and>
       distinct (map (\<lambda>desc. sql_fold (desc_name desc)) (maps_vec (map_descs d))))
    (\<lambda>_. True) (sq_idle ref_conn_idle) (sq_ro ref_conn_tx) (sq_rw ref_conn_tx)"
  using sqlite_refines_contract [OF sqlite_ref.sqlite_engine_axioms] by simp

section \<open>The backend test suite\<close>

text \<open>
  C11. Every test of the basic suite ends without a failed assertion, error or panic on every backend
  that keeps the contract.
\<close>

theorem basic_suite_passes:
  assumes "backend_contract B cfg_ok key_ok idle ro_open rw_open"
    and "cfg_ok cfg (suite_desc 1)" and "test \<in> set basic_tests"
  shows "test B cfg = Ok ()"
  using backend_contract.basic_tests_Ok [OF assms(1,2)] assms(3) by blast

theorem basic_suite_passes_witness:
  "put_and_iterate_delete_some (lmdb_backend ref_engine)
     (lmdb_new ref_engine ''db'' ims_default () (MapResizeCallback None)) = Ok ()"
proof (rule basic_suite_passes [OF lmdb_refines_contract_ref])
  show "True \<and> count_as_usize (desc_map_count (suite_desc 1)) < 2 ^ 32" by simp
  show "put_and_iterate_delete_some \<in> set basic_tests" by (simp add: basic_tests_def)
qed

text \<open>
  C10. Every randomized test passes on every backend that keeps the contract, whatever values its
  generators draw.
\<close>

theorem property_suite_passes:
  assumes "backend_contract B cfg_ok key_ok idle ro_open rw_open"
    and "cfg_ok cfg (suite_desc 1)" and "cfg_ok cfg (suite_desc 2)" and "cfg_ok cfg (suite_desc 5)"
    and "gen_key 100 key" and "gen_key 1000 key'" and "gen_entries 5 20 es" and "gen_entries 5 20 es'"
    and "\<forall>(i, k) \<in> set extra. gen_map_id 5 i \<and> gen_big_key k"
    and "gen_actions 100 20 as" and "gen_actions 100 20 bs" and "gen_actions 100 20 cs"
    and "\<forall>k \<in> set keys. gen_key 100 k" and "gen_actions 100 50 ds"
  shows "overwrite_and_abort B cfg (key, val0, val1) = Ok () \<and>
    add_and_delete B cfg es = Ok () \<and>
    last_write_wins B cfg (key', vals) = Ok () \<and>
    add_and_delete_some B cfg (es, es', extra) = Ok () \<and>
    add_modify_abort_modify_commit B cfg (as, bs, cs) = Ok () \<and>
    add_modify_abort_replay_commit B cfg (as, bs) = Ok () \<and>
    db_writes_do_not_interfere B cfg (as, bs) = Ok () \<and>
    empty_after_abort B cfg (as, keys) = Ok () \<and>
    prefix_iteration B cfg (as, bs) = Ok () \<and>
    post_commit_consistency B cfg ds = Ok ()"
proof -
  note suite = backend_contract.property_tests_Ok [OF assms(1), OF assms(2-4)]
  show ?thesis
    using suite(1) [OF assms(5)] suite(2) [OF assms(7)] suite(3) [OF assms(6)] suite(4) [OF assms(7,8,9)]
      suite(5) [OF assms(10-12)] suite(6,7) [OF assms(10,11)] suite(8) [OF assms(10,13)]
      suite(9) [OF assms(10,11)] suite(10) [OF assms(14)]
    by (intro conjI) (simp_all only:)
qed

theorem property_suite_passes_witness:
  "add_modify_abort_modify_commit (in_memory_backend join_ref) in_memory_new
     ([PutAction (bytes ''1'') [7], DelAction (bytes ''2'')], [DelAction (bytes ''1'')],
      [PutAction (bytes ''2'') []]) = Ok ()"
proof -
  have hex: "bytes ''1'' = bytes (hex_digits 1)" "bytes ''2'' = bytes (hex_digits 2)"
    by code_simp+
  have keys: "gen_key 100 (bytes ''1'')" "gen_key 100 (bytes ''2'')" "gen_key 1000 (bytes ''1'')"
    unfolding hex gen_key_def
    by (rule exI [of _ 1], simp) (rule exI [of _ 2], simp, rule exI [of _ 1], simp)
  then have acts: "gen_actions 100 20 [PutAction (bytes ''1'') [7], DelAction (bytes ''2'')]"
    "gen_actions 100 20 [DelAction (bytes ''1'')]" "gen_actions 100 20 [PutAction (bytes ''2'') []]"
    "gen_actions 100 50 []" "gen_entries 5 20 []"
    by (auto simp: gen_actions_def gen_action_def gen_entries_def)
  have none: "\<forall>(i, k) \<in> set ([] :: (db_map_id \<times> data) list). gen_map_id 5 i \<and> gen_big_key k"
    "\<forall>k \<in> set ([] :: data list). gen_key 100 k" by simp_all
  show ?thesis
    using property_suite_passes [OF im.backend_contract_axioms, where cfg = in_memory_new,
        OF TrueI TrueI TrueI keys(1,3) acts(5,5) none(1) acts(1,2,3) none(2) acts(4)] by blast
qed

end
